(* ===== verification/Prelude.thy ===== *)
theory Prelude
  imports Main "HOL-Library.Word"
begin

text \<open>
  Shared vocabulary of the development: bytes and C strings, the digit parsers of the C
  library (\<open>isdigit\<close>, \<open>atoi\<close>, \<open>strtol\<close>, \<open>strtoul\<close>), the decimal printer used for \<open>%u\<close>
  and \<open>%d\<close>, and the generic list lemmas the components share.

  A byte is an Isabelle \<^typ>\<open>char\<close> (eight bits). A C string is a list of bytes without its
  terminating nul; the contents of a buffer are a list of bytes of the buffer's size, and
  \<open>c_str\<close> reads the string a buffer holds.
\<close>

type_synonym byte = char
type_synonym bytes = "char list"
type_synonym u8 = "8 word"
type_synonym u16 = "16 word"
type_synonym u32 = "32 word"

abbreviation NUL :: byte where
  "NUL \<equiv> CHR 0x00"

text \<open>The collections the components' proofs draw on.\<close>

named_theorems wire_simps \<open>byte order and wire layout\<close>
named_theorems cstring_simps \<open>C string functions\<close>

section \<open>C strings\<close>

definition c_str :: "bytes \<Rightarrow> string" where
  "c_str buf = takeWhile (\<lambda>c. c \<noteq> NUL) buf"

definition no_nul :: "string \<Rightarrow> bool" where
  "no_nul s \<longleftrightarrow> NUL \<notin> set s"

lemma c_str_no_nul [simp]: "no_nul (c_str buf)"
  by (auto simp: no_nul_def c_str_def dest: set_takeWhileD)

lemma c_str_id [simp, cstring_simps]: "no_nul s \<Longrightarrow> c_str s = s"
  by (auto simp: no_nul_def c_str_def takeWhile_eq_all_conv)

lemma c_str_terminated [simp, cstring_simps]: "no_nul s \<Longrightarrow> c_str (s @ NUL # junk) = s"
  by (auto simp: no_nul_def c_str_def takeWhile_append)

lemma c_str_append_no_nul: "no_nul s \<Longrightarrow> c_str (s @ t) = s @ c_str t"
  by (auto simp: no_nul_def c_str_def takeWhile_append)

lemma length_c_str_le: "length (c_str buf) \<le> length buf"
  by (simp add: c_str_def length_takeWhile_le)

lemma no_nul_simps [simp, cstring_simps]:
  "no_nul []" "no_nul (c # s) \<longleftrightarrow> c \<noteq> NUL \<and> no_nul s"
  "no_nul (s @ t) \<longleftrightarrow> no_nul s \<and> no_nul t"
  by (auto simp: no_nul_def)

lemma no_nul_take: "no_nul s \<Longrightarrow> no_nul (take n s)"
  by (auto simp: no_nul_def dest: in_set_takeD)

lemma no_nul_drop: "no_nul s \<Longrightarrow> no_nul (drop n s)"
  by (auto simp: no_nul_def dest: in_set_dropD)

lemma no_nul_concat: "no_nul (concat ss) \<longleftrightarrow> (\<forall>s \<in> set ss. no_nul s)"
  by (auto simp: no_nul_def)

text \<open>\<open>strchr\<close>: the suffix that starts at the first occurrence, if there is one.\<close>

definition c_strchr :: "string \<Rightarrow> byte \<Rightarrow> string option" where
  "c_strchr s c = (let r = dropWhile (\<lambda>x. x \<noteq> c) s in if r = [] then None else Some r)"

lemma c_strchr_None [simp]: "c_strchr s c = None \<longleftrightarrow> c \<notin> set s"
  by (auto simp: c_strchr_def Let_def)

lemma c_strchr_Some: "c_strchr s c = Some r \<Longrightarrow> \<exists>p q. s = p @ c # q \<and> r = c # q \<and> c \<notin> set p"
proof -
  assume "c_strchr s c = Some r"
  then have r: "r = dropWhile (\<lambda>x. x \<noteq> c) s" "r \<noteq> []"
    by (auto simp: c_strchr_def Let_def split: if_splits)
  then obtain q where q: "r = c # q"
    by (metis (mono_tags, lifting) hd_dropWhile list.exhaust_sel)
  have "s = takeWhile (\<lambda>x. x \<noteq> c) s @ r" by (simp add: r(1))
  moreover have "c \<notin> set (takeWhile (\<lambda>x. x \<noteq> c) s)" by (auto dest: set_takeWhileD)
  ultimately show ?thesis using q by blast
qed

lemma c_strchr_append: "c \<notin> set p \<Longrightarrow> c_strchr (p @ c # q) c = Some (c # q)"
  by (auto simp: c_strchr_def Let_def dropWhile_append)

text \<open>\<open>strstr\<close>: the suffix that starts at the first occurrence of a nonempty needle.\<close>

fun c_strstr :: "string \<Rightarrow> string \<Rightarrow> string option" where
  "c_strstr [] needle = (if needle = [] then Some [] else None)"
| "c_strstr (c # s) needle =
     (if take (length needle) (c # s) = needle then Some (c # s) else c_strstr s needle)"

lemma c_strstr_Some: "c_strstr s needle = Some r \<Longrightarrow> \<exists>p q. s = p @ r \<and> r = needle @ q"
proof (induction s)
  case Nil
  then show ?case by (auto split: if_splits)
next
  case (Cons c s)
  show ?case
  proof (cases "take (length needle) (c # s) = needle")
    case True
    with Cons.prems have "r = c # s" by simp
    with True show ?thesis by (metis append_Nil append_take_drop_id)
  next
    case False
    with Cons show ?thesis by (metis append_Cons c_strstr.simps(2))
  qed
qed

section \<open>Digits and numbers\<close>

definition c_isdigit :: "byte \<Rightarrow> bool" where
  "c_isdigit c \<longleftrightarrow> 48 \<le> (of_char c :: nat) \<and> (of_char c :: nat) \<le> 57"

definition c_isspace :: "byte \<Rightarrow> bool" where
  "c_isspace c \<longleftrightarrow> (of_char c :: nat) = 32 \<or> 9 \<le> (of_char c :: nat) \<and> (of_char c :: nat) \<le> 13"

definition digit_val :: "byte \<Rightarrow> nat" where
  "digit_val c = of_char c - 48"

definition digits_val :: "string \<Rightarrow> nat" where
  "digits_val ds = foldl (\<lambda>a c. 10 * a + digit_val c) 0 ds"

text \<open>
  The common front end of \<open>strtol\<close> and \<open>strtoul\<close> in base ten: white space, an optional sign,
  digits. The result is the sign, the digits and the rest; \<open>None\<close> when there is no digit (the C
  functions then leave the end pointer at the start of the string and return 0).
\<close>

definition scan_int :: "string \<Rightarrow> (bool \<times> string \<times> string) option" where
  "scan_int s =
     (let s1 = dropWhile c_isspace s;
          neg = (case s1 of c # _ \<Rightarrow> c = CHR ''-'' | [] \<Rightarrow> False);
          s2 = (case s1 of c # t \<Rightarrow> if c = CHR ''-'' \<or> c = CHR ''+'' then t else s1 | [] \<Rightarrow> s1);
          ds = takeWhile c_isdigit s2
      in if ds = [] then None else Some (neg, ds, dropWhile c_isdigit s2))"

text \<open>\<open>strtol (s, &end, 10)\<close> with a 64-bit \<open>long\<close>: the value (saturated, with \<open>ERANGE\<close> flagged) and
  the text from \<open>end\<close> on.\<close>

definition c_strtol :: "string \<Rightarrow> int \<times> bool \<times> string" where
  "c_strtol s =
     (case scan_int s of None \<Rightarrow> (0, False, s)
      | Some (neg, ds, rest) \<Rightarrow>
          (let v = (if neg then - int (digits_val ds) else int (digits_val ds))
           in if v > 2 ^ 63 - 1 then (2 ^ 63 - 1, True, rest)
              else if v < - (2 ^ 63) then (- (2 ^ 63), True, rest)
              else (v, False, rest)))"

text \<open>\<open>strtoul (s, &end, 10)\<close> with a 64-bit \<open>unsigned long\<close>: a minus sign negates modulo
  \<open>2 ^ 64\<close>, and a value out of range saturates.\<close>

definition c_strtoul :: "string \<Rightarrow> nat \<times> string" where
  "c_strtoul s =
     (case scan_int s of None \<Rightarrow> (0, s)
      | Some (neg, ds, rest) \<Rightarrow>
          (let v = digits_val ds
           in if v \<ge> 2 ^ 64 then (2 ^ 64 - 1, rest)
              else if neg then ((2 ^ 64 - v) mod 2 ^ 64, rest) else (v, rest)))"

text \<open>\<open>atoi\<close>, as \<open>(int) strtol (s, NULL, 10)\<close>: the low 32 bits of the \<open>long\<close>, read as signed.\<close>

definition c_atoi :: "string \<Rightarrow> int" where
  "c_atoi s = sint (word_of_int (fst (c_strtol s)) :: u32)"

lemma c_isdigit_NUL [simp]: "\<not> c_isdigit NUL"
  by (simp add: c_isdigit_def)

lemma c_isdigit_sign: "c_isdigit c \<Longrightarrow> c \<noteq> CHR ''-'' \<and> c \<noteq> CHR ''+'' \<and> c \<noteq> CHR '':'' \<and> c \<noteq> CHR ''.''"
  by (auto simp: c_isdigit_def)

lemma c_isdigit_not_space: "c_isdigit c \<Longrightarrow> \<not> c_isspace c"
  by (auto simp: c_isdigit_def c_isspace_def)

lemma digit_val_less: "c_isdigit c \<Longrightarrow> digit_val c < 10"
  by (auto simp: c_isdigit_def digit_val_def)

lemma digits_val_Nil [simp]: "digits_val [] = 0"
  by (simp add: digits_val_def)

lemma digits_val_snoc [simp]: "digits_val (ds @ [c]) = 10 * digits_val ds + digit_val c"
  by (simp add: digits_val_def)

lemma scan_int_digits:
  assumes "ds \<noteq> []" and "\<forall>c \<in> set ds. c_isdigit c" and "rest = [] \<or> \<not> c_isdigit (hd rest)"
  shows "scan_int (ds @ rest) = Some (False, ds, rest)"
proof -
  obtain c t where ct: "ds = c # t" using assms(1) by (cases ds) auto
  have c: "c_isdigit c" using assms(2) ct by simp
  have sp: "dropWhile c_isspace (ds @ rest) = ds @ rest"
    using ct c c_isdigit_not_space by simp
  have tw: "takeWhile c_isdigit (ds @ rest) = ds"
    using assms(2,3) by (cases rest) (auto simp: takeWhile_append)
  have dw: "dropWhile c_isdigit (ds @ rest) = rest"
    using assms(2,3) by (cases rest) (auto simp: dropWhile_append)
  have s2: "(case ds @ rest of c # t \<Rightarrow> if c = CHR ''-'' \<or> c = CHR ''+'' then t else ds @ rest
             | [] \<Rightarrow> ds @ rest) = ds @ rest"
    using ct c_isdigit_sign[OF c] by simp
  have neg: "(case ds @ rest of c # _ \<Rightarrow> c = CHR ''-'' | [] \<Rightarrow> False) = False"
    using ct c_isdigit_sign[OF c] by simp
  show ?thesis unfolding scan_int_def Let_def sp s2 neg tw dw using assms(1) by simp
qed

section \<open>Printing numbers\<close>

definition digit_char :: "nat \<Rightarrow> byte" where
  "digit_char d = char_of (48 + d)"

fun show_nat :: "nat \<Rightarrow> string" where
  "show_nat n = (if n < 10 then [digit_char n] else show_nat (n div 10) @ [digit_char (n mod 10)])"

declare show_nat.simps [simp del]

definition show_int :: "int \<Rightarrow> string" where
  "show_int i = (if i < 0 then CHR ''-'' # show_nat (nat (- i)) else show_nat (nat i))"

lemma digit_char_isdigit: "d < 10 \<Longrightarrow> c_isdigit (digit_char d)"
  by (simp add: c_isdigit_def digit_char_def)

lemma digit_val_char [simp]: "d < 10 \<Longrightarrow> digit_val (digit_char d) = d"
  by (simp add: digit_val_def digit_char_def)

lemma show_nat_nonempty [simp]: "show_nat n \<noteq> []"
  by (subst show_nat.simps) simp

lemma show_nat_digits: "\<forall>c \<in> set (show_nat n). c_isdigit c"
proof (induction n rule: show_nat.induct)
  case (1 n)
  show ?case
  proof (cases "n < 10")
    case True
    then show ?thesis by (subst show_nat.simps) (simp add: digit_char_isdigit)
  next
    case False
    with 1 have "\<forall>c \<in> set (show_nat (n div 10)). c_isdigit c" by simp
    with False show ?thesis by (subst show_nat.simps) (auto simp: digit_char_isdigit)
  qed
qed

lemma digits_val_show_nat [simp]: "digits_val (show_nat n) = n"
proof (induction n rule: show_nat.induct)
  case (1 n)
  show ?case
  proof (cases "n < 10")
    case True
    then show ?thesis by (subst show_nat.simps) (simp add: digits_val_def)
  next
    case False
    with 1 have "digits_val (show_nat (n div 10)) = n div 10" by simp
    with False show ?thesis by (subst show_nat.simps) simp
  qed
qed

lemma show_nat_no_nul [simp]: "no_nul (show_nat n)"
  using show_nat_digits[of n] by (auto simp: no_nul_def)

lemma show_nat_length: "0 < k \<Longrightarrow> n < 10 ^ k \<Longrightarrow> length (show_nat n) \<le> k"
proof (induction n arbitrary: k rule: show_nat.induct)
  case (1 n)
  show ?case
  proof (cases "n < 10")
    case True
    with 1(2) show ?thesis by (subst show_nat.simps) simp
  next
    case False
    with 1(2,3) obtain j where j: "k = Suc j" "0 < j"
      by (cases k; cases "k - 1") auto
    have "n div 10 < 10 ^ j"
      using 1(3) j(1) by (simp add: less_mult_imp_div_less mult.commute)
    with 1(1)[OF False j(2)] have "length (show_nat (n div 10)) \<le> j" by simp
    with False j(1) show ?thesis by (subst show_nat.simps) simp
  qed
qed

section \<open>Memory\<close>

text \<open>
  Writing bytes at an offset of a buffer, and reading the string that starts at a buffer's
  first byte. \<open>None\<close> is the undefined behaviour of C: a write past the end of the buffer, or
  a \<open>strlen\<close> that finds no nul.
\<close>

definition mem_write :: "bytes \<Rightarrow> nat \<Rightarrow> bytes \<Rightarrow> bytes option" where
  "mem_write buf off bs =
     (if off + length bs \<le> length buf
      then Some (take off buf @ bs @ drop (off + length bs) buf) else None)"

definition c_strlen :: "bytes \<Rightarrow> nat option" where
  "c_strlen buf = (if NUL \<in> set buf then Some (length (c_str buf)) else None)"

lemma mem_write_Some_length: "mem_write buf off bs = Some buf' \<Longrightarrow> length buf' = length buf"
  by (auto simp: mem_write_def split: if_splits)

lemma mem_write_0: "length bs \<le> length buf \<Longrightarrow> mem_write buf 0 bs = Some (bs @ drop (length bs) buf)"
  by (simp add: mem_write_def)

lemma mem_write_append:
  "length bs \<le> length r \<Longrightarrow> mem_write (p @ r) (length p) bs = Some (p @ bs @ drop (length bs) r)"
  by (simp add: mem_write_def)

lemma c_strlen_Some: "c_strlen buf = Some n \<Longrightarrow> \<exists>s r. buf = s @ NUL # r \<and> no_nul s \<and> n = length s"
proof -
  assume "c_strlen buf = Some n"
  then have "NUL \<in> set buf" "n = length (c_str buf)"
    by (auto simp: c_strlen_def split: if_splits)
  moreover obtain p q where "buf = p @ NUL # q" "NUL \<notin> set p"
    using \<open>NUL \<in> set buf\<close> by (meson split_list_first)
  ultimately show ?thesis by (auto simp: no_nul_def)
qed

lemma c_strlen_terminated [simp, cstring_simps]: "no_nul s \<Longrightarrow> c_strlen (s @ NUL # r) = Some (length s)"
  by (auto simp: c_strlen_def)

section \<open>Lists\<close>

lemma takeWhile_take_stable:
  "takeWhile P (take n xs @ ys) = takeWhile P (take n xs @ zs)"
  if "\<exists>x \<in> set (take n xs). \<not> P x"
  using that by (metis takeWhile_append1)

lemma nth_or_default_append: "i < length xs \<Longrightarrow> (xs @ ys) ! i = xs ! i"
  by (simp add: nth_append)

end
