(* ===== verification/Machine.thy ===== *)
theory Machine
  imports Prelude
begin

text \<open>
  The machine the program runs on: the byte order of the host, the layout of 16 and 32 bit
  integers in memory, and the conversions \<open>htons\<close>, \<open>ntohs\<close>, \<open>htonl\<close>, \<open>ntohl\<close>. The program is
  portable, so the byte order is a parameter of every definition that depends on it; the
  lemmas show that what reaches the wire does not depend on it.
\<close>

datatype endian = Little | Big

text \<open>Error numbers and address families, as the program uses them by name.\<close>

datatype errno = EOK | EINTR | EAGAIN | EINVAL | EPIPE | ETIMEDOUT | EAFNOSUPPORT
  | EPROTONOSUPPORT | EINPROGRESS | ENOSPC | ENOMEM | EEXIST | EISDIR | EOTHER nat

datatype family = AF_UNSPEC | AF_INET | AF_INET6 | AF_OTHER nat

section \<open>Numbers as base-256 digits\<close>

definition cat2 :: "nat \<Rightarrow> nat \<Rightarrow> nat" where
  "cat2 a b = 256 * a + b"

definition cat4 :: "nat \<Rightarrow> nat \<Rightarrow> nat \<Rightarrow> nat \<Rightarrow> nat" where
  "cat4 a b c d = cat2 (cat2 (cat2 a b) c) d"

lemma cat2_div_mod: "b < 256 \<Longrightarrow> cat2 a b div 256 = a" "b < 256 \<Longrightarrow> cat2 a b mod 256 = b"
  by (auto simp: cat2_def)

lemma cat2_split [simp]: "cat2 (n div 256) (n mod 256) = n"
  by (simp add: cat2_def)

lemma cat2_less: "a < 256 \<Longrightarrow> b < 256 \<Longrightarrow> cat2 a b < 65536"
  by (simp add: cat2_def)

lemma cat4_less: "a < 256 \<Longrightarrow> b < 256 \<Longrightarrow> c < 256 \<Longrightarrow> d < 256 \<Longrightarrow> cat4 a b c d < 4294967296"
  by (simp add: cat4_def cat2_def)

lemma cat4_digits:
  assumes "b < 256" "c < 256" "d < 256"
  shows "cat4 a b c d div 256 div 256 div 256 = a" "cat4 a b c d div 256 div 256 mod 256 = b"
    "cat4 a b c d div 256 mod 256 = c" "cat4 a b c d mod 256 = d"
  using assms by (simp_all add: cat4_def cat2_div_mod)

lemma cat4_split [simp]:
  "cat4 (n div 256 div 256 div 256) (n div 256 div 256 mod 256) (n div 256 mod 256) (n mod 256) = n"
  by (simp only: cat4_def cat2_split)

lemma unat_u8_less: "unat (w :: u8) < 256"
  using unsigned_less[where 'a = nat, of w] by simp

lemma unat_u16_less: "unat (w :: u16) < 65536"
  using unsigned_less[where 'a = nat, of w] by simp

lemma unat_u32_less: "unat (w :: u32) < 4294967296"
  using unsigned_less[where 'a = nat, of w] by simp

lemma unat_of_nat_u16: "n < 65536 \<Longrightarrow> unat (of_nat n :: u16) = n"
  by (simp add: unat_of_nat)

lemma unat_of_nat_u32: "n < 4294967296 \<Longrightarrow> unat (of_nat n :: u32) = n"
  by (simp add: unat_of_nat)

section \<open>Sixteen bits\<close>

definition be16 :: "u16 \<Rightarrow> bytes" where
  "be16 w = [char_of (unat w div 256), char_of (unat w mod 256)]"

definition de16 :: "bytes \<Rightarrow> u16" where
  "de16 bs = of_nat (cat2 (of_char (bs ! 0)) (of_char (bs ! 1)))"

fun mem16 :: "endian \<Rightarrow> u16 \<Rightarrow> bytes" where
  "mem16 Big w = be16 w"
| "mem16 Little w = rev (be16 w)"

fun load16 :: "endian \<Rightarrow> bytes \<Rightarrow> u16" where
  "load16 Big bs = de16 bs"
| "load16 Little bs = de16 (rev (take 2 bs))"

text \<open>A conversion swaps the bytes on a little-endian host and is the identity on a big-endian one.\<close>

fun htons :: "endian \<Rightarrow> u16 \<Rightarrow> u16" where
  "htons Big w = w"
| "htons Little w = de16 (rev (be16 w))"

definition ntohs :: "endian \<Rightarrow> u16 \<Rightarrow> u16" where
  "ntohs e w = htons e w"

lemma length_be16 [simp]: "length (be16 w) = 2"
  by (simp add: be16_def)

lemma length_mem16 [simp]: "length (mem16 e w) = 2"
  by (cases e) auto

lemma unat_de16: "unat (de16 (a # b # r)) = cat2 (of_char a) (of_char b)"
  using cat2_less[of "of_char a" "of_char b"] by (simp add: de16_def unat_of_nat_u16)

lemma be16_de16 [simp]: "be16 (de16 (a # b # r)) = [a, b]"
  by (simp add: be16_def unat_de16 cat2_div_mod)

lemma de16_be16 [simp, wire_simps]: "de16 (be16 w @ rest) = w"
proof -
  have "unat w div 256 < 256"
    using unat_u16_less[of w] by (simp add: less_mult_imp_div_less)
  then have "unat (de16 (be16 w @ rest)) = unat w"
    by (simp add: be16_def unat_de16)
  then show ?thesis by (simp only: word_unat_eq_iff)
qed

lemma de16_be16' [simp, wire_simps]: "de16 (be16 w) = w"
  using de16_be16[of w "[]"] by simp

lemma be16_cases: obtains a b where "be16 w = [a, b]"
  by (simp add: be16_def)

lemma mem16_htons [simp, wire_simps]: "mem16 e (htons e w) = be16 w"
proof (cases e)
  case Little
  obtain a b where "be16 w = [a, b]" by (rule be16_cases)
  then show ?thesis using Little by simp
qed simp

lemma ntohs_htons [simp, wire_simps]: "ntohs e (htons e w) = w"
proof (cases e)
  case Little
  obtain a b where w: "be16 w = [a, b]" by (rule be16_cases)
  have "de16 [a, b] = w" using de16_be16'[of w] w by simp
  then show ?thesis using Little w by (simp add: ntohs_def)
qed (simp add: ntohs_def)

lemma ntohs_load16 [simp, wire_simps]: "ntohs e (load16 e (a # b # r)) = de16 (a # b # r)"
proof (cases e)
  case Little
  then show ?thesis by (simp add: ntohs_def) (simp add: de16_def)
qed (simp add: ntohs_def)

section \<open>Thirty-two bits\<close>

definition be32 :: "u32 \<Rightarrow> bytes" where
  "be32 w = [char_of (unat w div 256 div 256 div 256), char_of (unat w div 256 div 256 mod 256),
             char_of (unat w div 256 mod 256), char_of (unat w mod 256)]"

definition de32 :: "bytes \<Rightarrow> u32" where
  "de32 bs = of_nat (cat4 (of_char (bs ! 0)) (of_char (bs ! 1)) (of_char (bs ! 2)) (of_char (bs ! 3)))"

fun mem32 :: "endian \<Rightarrow> u32 \<Rightarrow> bytes" where
  "mem32 Big w = be32 w"
| "mem32 Little w = rev (be32 w)"

fun load32 :: "endian \<Rightarrow> bytes \<Rightarrow> u32" where
  "load32 Big bs = de32 bs"
| "load32 Little bs = de32 (rev (take 4 bs))"

fun htonl :: "endian \<Rightarrow> u32 \<Rightarrow> u32" where
  "htonl Big w = w"
| "htonl Little w = de32 (rev (be32 w))"

definition ntohl :: "endian \<Rightarrow> u32 \<Rightarrow> u32" where
  "ntohl e w = htonl e w"

lemma length_be32 [simp]: "length (be32 w) = 4"
  by (simp add: be32_def)

lemma length_mem32 [simp]: "length (mem32 e w) = 4"
  by (cases e) auto

lemma unat_de32: "unat (de32 (a # b # c # d # r)) = cat4 (of_char a) (of_char b) (of_char c) (of_char d)"
  using cat4_less[of "of_char a" "of_char b" "of_char c" "of_char d"]
  by (simp add: de32_def unat_of_nat_u32)

lemma be32_de32 [simp]: "be32 (de32 (a # b # c # d # r)) = [a, b, c, d]"
  by (simp only: be32_def unat_de32 cat4_digits nat_of_char_less_256 char_of_char)

lemma de32_be32 [simp, wire_simps]: "de32 (be32 w @ rest) = w"
proof -
  have "unat w div 256 div 256 div 256 < 256"
    using unat_u32_less[of w] by (simp add: less_mult_imp_div_less)
  then have "unat (de32 (be32 w @ rest)) = unat w"
    by (simp add: be32_def unat_de32 del: div_mult2_eq)
  then show ?thesis by (simp only: word_unat_eq_iff)
qed

lemma de32_be32' [simp, wire_simps]: "de32 (be32 w) = w"
  using de32_be32[of w "[]"] by simp

lemma be32_cases: obtains a b c d where "be32 w = [a, b, c, d]"
  by (simp add: be32_def)

lemma mem32_htonl [simp, wire_simps]: "mem32 e (htonl e w) = be32 w"
proof (cases e)
  case Little
  obtain a b c d where "be32 w = [a, b, c, d]" by (rule be32_cases)
  then show ?thesis using Little by simp
qed simp

lemma ntohl_htonl [simp, wire_simps]: "ntohl e (htonl e w) = w"
proof (cases e)
  case Little
  obtain a b c d where w: "be32 w = [a, b, c, d]" by (rule be32_cases)
  have "de32 [a, b, c, d] = w" using de32_be32'[of w] w by simp
  then show ?thesis using Little w by (simp add: ntohl_def)
qed (simp add: ntohl_def)

lemma htonl_inject [simp]: "htonl e a = htonl e b \<longleftrightarrow> a = b"
  by (metis ntohl_htonl)

lemma htons_inject [simp]: "htons e a = htons e b \<longleftrightarrow> a = b"
  by (metis ntohs_htons)

end
