(* ===== verification/Strl.thy ===== *)
theory Strl
  imports Prelude
begin

text \<open>
  The replacements for missing C library functions that handle strings and memory:
  \<open>portable/strlcpy.c\<close>, \<open>portable/strlcat.c\<close>, \<open>portable/strndup.c\<close> and
  \<open>portable/reallocarray.c\<close>. A destination is the whole buffer the pointer leads to; a write
  past its end is the result \<open>None\<close>, so the lemmas show under which conditions the functions
  stay inside it.
\<close>

section \<open>strlcpy\<close>

definition strlcpy :: "bytes \<Rightarrow> string \<Rightarrow> nat \<Rightarrow> (bytes \<times> nat) option" where
  "strlcpy dst src sz =
     (let len = length src
      in if sz > 0
         then (let copy = (if len \<ge> sz then sz - 1 else len)
               in case mem_write dst 0 (take copy src) of None \<Rightarrow> None
                  | Some dst1 \<Rightarrow>
                      (case mem_write dst1 copy [NUL] of None \<Rightarrow> None
                       | Some dst2 \<Rightarrow> Some (dst2, len)))
         else Some (dst, len))"

section \<open>strlcat\<close>

definition strlcat :: "bytes \<Rightarrow> string \<Rightarrow> nat \<Rightarrow> (bytes \<times> nat) option" where
  "strlcat dst src sz =
     (case c_strlen dst of None \<Rightarrow> None
      | Some used \<Rightarrow>
          (let len = length src
           in if sz > 0 \<and> used < sz - 1
              then (let copy = (if len \<ge> sz - used then sz - used - 1 else len)
                    in case mem_write dst used (take copy src) of None \<Rightarrow> None
                       | Some dst1 \<Rightarrow>
                           (case mem_write dst1 (used + copy) [NUL] of None \<Rightarrow> None
                            | Some dst2 \<Rightarrow> Some (dst2, used + len)))
              else Some (dst, used + len)))"

section \<open>strndup\<close>

text \<open>
  The source is the memory from \<open>s\<close> on (\<open>None\<close> for a null pointer), which need not be
  nul-terminated; \<open>strndup_scan\<close> is the loop over \<open>p\<close>, and reading past the memory is \<open>None\<close>.
  \<open>malloc\<close> succeeds or not according to the parameter.
\<close>

datatype strndup_result = SD_null_EINVAL | SD_no_memory | SD_copy bytes

fun strndup_scan :: "bytes \<Rightarrow> nat \<Rightarrow> nat option" where
  "strndup_scan mem 0 = Some 0"
| "strndup_scan [] (Suc n) = None"
| "strndup_scan (c # mem) (Suc n) =
     (if c = NUL then Some 0 else map_option Suc (strndup_scan mem n))"

definition strndup :: "(nat \<Rightarrow> bool) \<Rightarrow> bytes option \<Rightarrow> nat \<Rightarrow> strndup_result option" where
  "strndup malloc_ok s n =
     (case s of None \<Rightarrow> Some SD_null_EINVAL
      | Some mem \<Rightarrow>
          (case strndup_scan mem n of None \<Rightarrow> None
           | Some len \<Rightarrow>
               if malloc_ok (len + 1) then Some (SD_copy (take len mem @ [NUL]))
               else Some SD_no_memory))"

section \<open>reallocarray\<close>

text \<open>
  With a 64-bit \<open>size_t\<close>. The result is the byte count that is handed to \<open>realloc\<close>, computed
  with the wrap-around of the multiplication, or \<open>None\<close> for the \<open>ENOMEM\<close> return.
\<close>

definition CHECK_THRESHOLD :: nat where
  "CHECK_THRESHOLD = 2 ^ (8 * 4)"

definition SIZE_MAX :: nat where
  "SIZE_MAX = 2 ^ 64 - 1"

definition reallocarray :: "nat \<Rightarrow> nat \<Rightarrow> nat option" where
  "reallocarray nmemb sz =
     (if (nmemb \<ge> CHECK_THRESHOLD \<or> sz \<ge> CHECK_THRESHOLD)
         \<and> nmemb > 0 \<and> SIZE_MAX div nmemb \<le> sz
      then None
      else Some ((nmemb * sz) mod 2 ^ 64))"

section \<open>Correctness\<close>

lemma strlcpy_fits:
  assumes "0 < sz" "sz \<le> length dst"
  shows "strlcpy dst src sz =
    Some (take (sz - 1) src @ NUL # drop (Suc (min (length src) (sz - 1))) dst, length src)"
proof -
  define copy where "copy = (if length src \<ge> sz then sz - 1 else length src)"
  have copy: "copy = min (length src) (sz - Suc 0)" using assms by (auto simp: copy_def)
  have tk: "take copy src = take (sz - 1) src" "length (take copy src) = copy"
    by (auto simp: copy min_def)
  have "copy < length dst" using assms copy by linarith
  then have w1: "mem_write dst 0 (take copy src) = Some (take copy src @ drop copy dst)"
    using tk(2) mem_write_0[of "take copy src" dst] by simp
  have "mem_write (take copy src @ drop copy dst) copy [NUL] =
      Some (take copy src @ NUL # drop (Suc copy) dst)"
    using mem_write_append[of "[NUL]" "drop copy dst" "take copy src"] tk(2) \<open>copy < length dst\<close>
    by simp
  with w1 show ?thesis using assms(1)
    by (simp add: strlcpy_def Let_def copy_def[symmetric] tk(1)[simplified] copy[symmetric])
qed

text \<open>\<open>strlcpy\<close> with any size: nothing is written when it is 0.\<close>

lemma strlcpy_any:
  assumes "sz \<le> length dst"
  shows "strlcpy dst src sz =
    Some (if sz = 0 then dst else take (sz - 1) src @ NUL # drop (Suc (min (length src) (sz - 1))) dst, length src)"
  using assms strlcpy_fits[of sz dst src] by (simp add: strlcpy_def)

text \<open>
  \<open>strlcat\<close> with any size: a string that already takes all of it is left alone. Otherwise the nul of
  the string is overwritten with as much of the source as there is room for, and the bytes behind
  the new nul are those that were there.
\<close>

lemma strlcat_any:
  assumes dst: "dst = s @ NUL # r" "no_nul s" and "sz \<le> length dst"
  shows "strlcat dst src sz =
    Some (if sz \<le> length s then dst
          else s @ take (sz - 1 - length s) src @ NUL # drop (min (length src) (sz - 1 - length s)) r,
          length s + length src)"
proof (cases "length s < sz - 1")
  case False
  then have "sz \<le> length s \<or> sz - 1 - length s = 0" by simp
  then show ?thesis using assms False by (auto simp: strlcat_def)
next
  case True
  define copy where "copy = (if length src \<ge> sz - length s then sz - length s - 1 else length src)"
  have copy: "take copy src = take (sz - 1 - length s) src" "length (take copy src) = copy"
    "copy = min (length src) (sz - 1 - length s)"
    using True by (auto simp: copy_def)
  have le: "length s + copy < sz" using True by (auto simp: copy_def)
  let ?t = "NUL # r"
  have w1: "mem_write dst (length s) (take copy src) = Some (s @ take copy src @ drop copy ?t)"
    unfolding dst(1) using mem_write_append[of "take copy src" ?t s] copy(2) le assms by simp
  have w2: "mem_write (s @ take copy src @ drop copy ?t) (length s + copy) [NUL] =
      Some (s @ take copy src @ NUL # drop copy r)"
    using mem_write_append[of "[NUL]" "drop copy ?t" "s @ take copy src"] copy(2) le assms(3)
    by (simp add: dst(1) drop_Suc tl_drop)
  have "strlcat dst src sz = Some (s @ take copy src @ NUL # drop copy r, length s + length src)"
    using w1 w2 True le dst by (simp add: strlcat_def Let_def copy_def[symmetric])
  then show ?thesis using copy(1,3) True dst(1) by simp
qed

lemma strndup_scan_c_str:
  "strndup_scan mem n = Some len \<Longrightarrow> take len mem = c_str (take n mem) \<and> len = length (c_str (take n mem))"
  by (induction mem n arbitrary: len rule: strndup_scan.induct)
    (auto simp: c_str_def split: if_splits)

lemma strndup_scan_defined: "n \<le> length mem \<or> NUL \<in> set mem \<Longrightarrow> \<exists>len. strndup_scan mem n = Some len"
  by (induction mem n rule: strndup_scan.induct) auto

lemma reallocarray_exact:
  assumes "reallocarray nmemb sz = Some k"
  shows "k = nmemb * sz \<and> nmemb * sz \<le> SIZE_MAX"
proof -
  have "nmemb * sz < 2 ^ 64"
  proof (cases "nmemb \<ge> CHECK_THRESHOLD \<or> sz \<ge> CHECK_THRESHOLD")
    case True
    with assms have "nmemb = 0 \<or> sz < SIZE_MAX div nmemb"
      by (auto simp: reallocarray_def split: if_splits)
    then show ?thesis
    proof
      assume "sz < SIZE_MAX div nmemb"
      then have "nmemb * sz \<le> nmemb * (SIZE_MAX div nmemb)" by simp
      also have "\<dots> \<le> SIZE_MAX" by simp
      finally show ?thesis by (simp add: SIZE_MAX_def)
    qed simp
  next
    case False
    then have "nmemb \<le> 2 ^ 32 - 1" "sz \<le> 2 ^ 32 - 1" by (auto simp: CHECK_THRESHOLD_def)
    then have "nmemb * sz \<le> (2 ^ 32 - 1) * (2 ^ 32 - 1)" by (rule mult_le_mono)
    then show ?thesis by simp
  qed
  then show ?thesis using assms
    by (auto simp: reallocarray_def SIZE_MAX_def split: if_splits)
qed

end
