(* ===== verification/Vector.thy ===== *)
theory Vector
  imports Strl "HOL-Library.Monad_Syntax"
begin

text \<open>
  The counted string tables of \<open>util/vector.c\<close>, in their two forms: a \<open>vector\<close> owns copies of
  its strings, a \<open>cvector\<close> holds pointers that belong to somebody else. The table is modelled
  slot by slot, so that a write past the allocation, a read of an uninitialised slot and the
  second \<open>free\<close> of a string are visible: they are the result \<open>None\<close>, as is the abort of a
  failed \<open>assert\<close>. Memory exhaustion ends the program in \<open>util/xmalloc.c\<close> and does not occur
  here. The lemmas show that the operations refine lists, keep the invariant and are never
  \<open>None\<close> on a valid table.
\<close>

section \<open>The table\<close>

datatype 'p slot = Null | Uninit | Dangling | Ptr 'p

record 'p vec =
  v_count :: nat
  v_allocated :: nat
  v_strings :: "'p slot list"

fun is_ptr :: "'p slot \<Rightarrow> bool" where
  "is_ptr (Ptr _) = True"
| "is_ptr _ = False"

fun slot_ptr :: "'p slot \<Rightarrow> 'p option" where
  "slot_ptr (Ptr p) = Some p"
| "slot_ptr _ = None"

definition put_slot :: "'p slot list \<Rightarrow> nat \<Rightarrow> 'p slot \<Rightarrow> 'p slot list option" where
  "put_slot ss i s = (if i < length ss then Some (ss[i := s]) else None)"

definition get_slot :: "'p slot list \<Rightarrow> nat \<Rightarrow> 'p option" where
  "get_slot ss i = (if i < length ss then slot_ptr (ss ! i) else None)"

text \<open>\<open>free\<close> of every slot from \<open>lo\<close> up to \<open>hi\<close>: freeing \<open>NULL\<close> does nothing, freeing a live
  string leaves a dangling pointer, anything else is undefined.\<close>

fun free_slot :: "'p slot \<Rightarrow> 'p slot option" where
  "free_slot (Ptr _) = Some Dangling"
| "free_slot Null = Some Null"
| "free_slot _ = None"

fun free_slots :: "'p slot list \<Rightarrow> 'p slot list option" where
  "free_slots [] = Some []"
| "free_slots (s # ss) = do { t \<leftarrow> free_slot s; ts \<leftarrow> free_slots ss; Some (t # ts) }"

definition free_range :: "nat \<Rightarrow> nat \<Rightarrow> 'p slot list \<Rightarrow> 'p slot list option" where
  "free_range lo hi ss =
     (if hi \<le> length ss
      then do { m \<leftarrow> free_slots (drop lo (take hi ss)); Some (take lo ss @ m @ drop hi ss) }
      else None)"

text \<open>\<open>xreallocarray\<close> keeps the common prefix; what it adds is uninitialised.\<close>

definition xrealloc_slots :: "'p slot list \<Rightarrow> nat \<Rightarrow> 'p slot list" where
  "xrealloc_slots ss n = take n ss @ replicate (n - length ss) Uninit"

section \<open>Operations\<close>

definition vector_new :: "string vec" where
  "vector_new = \<lparr>v_count = 0, v_allocated = 1, v_strings = [Null]\<rparr>"

definition cvector_new :: "'p vec" where
  "cvector_new = \<lparr>v_count = 0, v_allocated = 1, v_strings = [Null]\<rparr>"

definition vector_resize :: "string vec \<Rightarrow> nat \<Rightarrow> string vec option" where
  "vector_resize v sz = do {
     v \<leftarrow> (if v_count v > sz
           then do { ss \<leftarrow> free_range sz (v_count v) (v_strings v);
                     Some (v\<lparr>v_strings := ss, v_count := sz\<rparr>) }
           else Some v);
     let sz = (if sz = 0 then 1 else sz);
     Some (v\<lparr>v_strings := xrealloc_slots (v_strings v) sz, v_allocated := sz\<rparr>) }"

definition cvector_resize :: "'p vec \<Rightarrow> nat \<Rightarrow> 'p vec" where
  "cvector_resize v sz =
     (let v = (if v_count v > sz then v\<lparr>v_count := sz\<rparr> else v);
          sz = (if sz = 0 then 1 else sz)
      in v\<lparr>v_strings := xrealloc_slots (v_strings v) sz, v_allocated := sz\<rparr>)"

definition vector_add :: "string vec \<Rightarrow> string \<Rightarrow> string vec option" where
  "vector_add v s = do {
     let nxt = v_count v;
     v \<leftarrow> (if v_count v = v_allocated v then vector_resize v (v_allocated v + 1) else Some v);
     ss \<leftarrow> put_slot (v_strings v) nxt (Ptr (c_str s));
     Some (v\<lparr>v_strings := ss, v_count := v_count v + 1\<rparr>) }"

definition cvector_add :: "'p vec \<Rightarrow> 'p \<Rightarrow> 'p vec option" where
  "cvector_add v p = do {
     let nxt = v_count v;
     let v = (if v_count v = v_allocated v then cvector_resize v (v_allocated v + 1) else v);
     ss \<leftarrow> put_slot (v_strings v) nxt (Ptr p);
     Some (v\<lparr>v_strings := ss, v_count := v_count v + 1\<rparr>) }"

definition vector_addn :: "string vec \<Rightarrow> string \<Rightarrow> nat \<Rightarrow> string vec option" where
  "vector_addn v s len = do {
     let nxt = v_count v;
     v \<leftarrow> (if v_count v = v_allocated v then vector_resize v (v_allocated v + 1) else Some v);
     ss \<leftarrow> put_slot (v_strings v) nxt (Ptr (c_str (take len s)));
     Some (v\<lparr>v_strings := ss, v_count := v_count v + 1\<rparr>) }"

definition vector_clear :: "string vec \<Rightarrow> string vec option" where
  "vector_clear v = do {
     ss \<leftarrow> free_range 0 (v_count v) (v_strings v);
     Some (v\<lparr>v_strings := ss, v_count := 0\<rparr>) }"

definition cvector_clear :: "'p vec \<Rightarrow> 'p vec" where
  "cvector_clear v = v\<lparr>v_count := 0\<rparr>"

text \<open>\<open>vector_free\<close> gives the strings that are still live when the table itself is freed: the
  memory it leaks. The pointer may be null.\<close>

definition vector_free :: "string vec option \<Rightarrow> string list option" where
  "vector_free vo =
     (case vo of None \<Rightarrow> Some []
      | Some v \<Rightarrow> do { v \<leftarrow> vector_clear v; Some (List.map_filter slot_ptr (v_strings v)) })"

definition vector_reuse :: "string vec option \<Rightarrow> string vec option" where
  "vector_reuse vo = (case vo of None \<Rightarrow> Some vector_new | Some v \<Rightarrow> vector_clear v)"

definition cvector_reuse :: "'p vec option \<Rightarrow> 'p vec" where
  "cvector_reuse vo = (case vo of None \<Rightarrow> cvector_new | Some v \<Rightarrow> cvector_clear v)"

section \<open>Invariant and abstraction\<close>

definition cvec_inv :: "'p vec \<Rightarrow> bool" where
  "cvec_inv v \<longleftrightarrow> v_allocated v = length (v_strings v) \<and> 0 < v_allocated v
     \<and> v_count v \<le> v_allocated v \<and> list_all is_ptr (take (v_count v) (v_strings v))"

text \<open>A vector also owns nothing outside the counted part: no live string is out of reach.\<close>

definition vec_inv :: "string vec \<Rightarrow> bool" where
  "vec_inv v \<longleftrightarrow> cvec_inv v \<and> list_all (\<lambda>s. \<not> is_ptr s) (drop (v_count v) (v_strings v))"

definition vec_items :: "'p vec \<Rightarrow> 'p list" where
  "vec_items v = List.map_filter slot_ptr (take (v_count v) (v_strings v))"

lemma map_filter_ptrs [simp]: "List.map_filter slot_ptr (map Ptr xs) = xs"
  by (induction xs) (auto simp: List.map_filter_simps)

lemma map_filter_no_ptrs: "list_all (\<lambda>s. \<not> is_ptr s) ss \<Longrightarrow> List.map_filter slot_ptr ss = []"
proof (induction ss)
  case (Cons s ss)
  then show ?case by (cases s) (auto simp: List.map_filter_simps)
qed (simp add: List.map_filter_simps)

lemma ptrs_map: "list_all is_ptr ss \<Longrightarrow> ss = map Ptr (List.map_filter slot_ptr ss)"
proof (induction ss)
  case (Cons s ss)
  then show ?case by (cases s) (auto simp: List.map_filter_simps)
qed (simp add: List.map_filter_simps)

text \<open>The shape of a valid table: its items, then slots that do not count.\<close>

lemma cvec_inv_shape:
  "cvec_inv v \<longleftrightarrow> (\<exists>xs rest. v = \<lparr>v_count = length xs, v_allocated = length xs + length rest,
      v_strings = map Ptr xs @ rest\<rparr> \<and> (xs \<noteq> [] \<or> rest \<noteq> []))" (is "_ \<longleftrightarrow> ?S v")
proof
  assume inv: "cvec_inv v"
  define xs where "xs = List.map_filter slot_ptr (take (v_count v) (v_strings v))"
  define rest where "rest = drop (v_count v) (v_strings v)"
  have t: "take (v_count v) (v_strings v) = map Ptr xs"
    unfolding xs_def using inv by (intro ptrs_map) (simp add: cvec_inv_def)
  then have "v_strings v = map Ptr xs @ rest"
    unfolding rest_def by (metis append_take_drop_id)
  moreover have "length xs = v_count v"
    using arg_cong[OF t, of length] inv by (auto simp: cvec_inv_def)
  ultimately show "?S v" using inv
    by (intro exI[of _ xs] exI[of _ rest]) (auto simp: cvec_inv_def)
next
  assume "?S v"
  then show "cvec_inv v" by (auto simp: cvec_inv_def list_all_iff)
qed

definition vec_of :: "'p list \<Rightarrow> 'p slot list \<Rightarrow> 'p vec" where
  "vec_of xs rest = \<lparr>v_count = length xs, v_allocated = length xs + length rest,
      v_strings = map Ptr xs @ rest\<rparr>"

lemma vec_of_sel [simp]:
  "v_count (vec_of xs rest) = length xs" "v_allocated (vec_of xs rest) = length xs + length rest"
  "v_strings (vec_of xs rest) = map Ptr xs @ rest"
  by (simp_all add: vec_of_def)

lemma vec_items_of [simp]: "vec_items (vec_of xs rest) = xs"
  by (simp add: vec_items_def)

lemma cvec_inv_of [simp]: "cvec_inv (vec_of xs rest) \<longleftrightarrow> xs \<noteq> [] \<or> rest \<noteq> []"
  by (auto simp: cvec_inv_def list_all_iff)

lemma vec_inv_of [simp]:
  "vec_inv (vec_of xs rest) \<longleftrightarrow> (xs \<noteq> [] \<or> rest \<noteq> []) \<and> list_all (\<lambda>s. \<not> is_ptr s) rest"
  by (auto simp: vec_inv_def)

lemma cvec_cases [consumes 1]:
  assumes "cvec_inv v" obtains xs rest where "v = vec_of xs rest" "xs \<noteq> [] \<or> rest \<noteq> []"
  using assms unfolding cvec_inv_shape vec_of_def by blast

lemma vec_cases [consumes 1]:
  assumes "vec_inv v" obtains xs rest where "v = vec_of xs rest" "xs \<noteq> [] \<or> rest \<noteq> []"
    "list_all (\<lambda>s. \<not> is_ptr s) rest"
proof -
  have "cvec_inv v" using assms by (simp add: vec_inv_def)
  then obtain xs rest where "v = vec_of xs rest" "xs \<noteq> [] \<or> rest \<noteq> []" by (rule cvec_cases)
  then show thesis using that assms by simp
qed

lemma vec_eqI:
  "v_count v = length xs \<Longrightarrow> v_allocated v = length xs + length rest \<Longrightarrow>
     v_strings v = map Ptr xs @ rest \<Longrightarrow> v = vec_of xs rest"
  by (cases v) (simp add: vec_of_def)


section \<open>Every operation keeps the invariant and refines a list operation\<close>

lemma free_slots_ptrs [simp]: "free_slots (map Ptr xs) = Some (replicate (length xs) Dangling)"
  by (induction xs) auto

lemma free_range_ptrs:
  "lo \<le> length xs \<Longrightarrow> free_range lo (length xs) (map Ptr xs @ rest) =
     Some (map Ptr (take lo xs) @ replicate (length xs - lo) Dangling @ rest)"
  by (simp add: free_range_def take_map drop_map flip: map_append)

lemma put_slot_next:
  "rest \<noteq> [] \<Longrightarrow> put_slot (map Ptr xs @ rest) (length xs) (Ptr x) = Some (map Ptr (xs @ [x]) @ tl rest)"
  by (cases rest) (auto simp: put_slot_def list_update_append)

lemma length_xrealloc_slots [simp]: "length (xrealloc_slots ss n) = n"
  by (simp add: xrealloc_slots_def)

lemma vec_inv_cvec_inv: "vec_inv v \<Longrightarrow> cvec_inv v"
  by (simp add: vec_inv_def)

lemma vector_new_vec_of: "vector_new = vec_of [] [Null]"
  by (simp add: vector_new_def vec_of_def)

lemma cvector_new_vec_of: "cvector_new = vec_of [] [Null]"
  by (simp add: cvector_new_def vec_of_def)

lemma vector_resize_vec_of:
  assumes "xs \<noteq> [] \<or> rest \<noteq> []" "list_all (\<lambda>s. \<not> is_ptr s) rest"
  shows "\<exists>rest'. vector_resize (vec_of xs rest) n = Some (vec_of (take n xs) rest')
    \<and> list_all (\<lambda>s. \<not> is_ptr s) rest' \<and> length (take n xs) + length rest' = max 1 n"
proof (cases "length xs > n")
  case True
  define rest' :: "string slot list" where "rest' = (if n = 0 then [Dangling] else [])"
  have fr: "free_range n (length xs) (map Ptr xs @ rest) =
      Some (map Ptr (take n xs) @ replicate (length xs - n) Dangling @ rest)"
    using True by (intro free_range_ptrs) simp
  have "xrealloc_slots (map Ptr (take n xs) @ replicate (length xs - n) Dangling @ rest)
      (if n = 0 then 1 else n) = map Ptr (take n xs) @ rest'"
    using True by (cases "length xs - n") (auto simp: xrealloc_slots_def rest'_def)
  then have "vector_resize (vec_of xs rest) n = Some (vec_of (take n xs) rest')"
    using True fr by (simp add: vector_resize_def Let_def vec_of_def) (auto simp: rest'_def)
  then show ?thesis using True by (intro exI[of _ rest']) (auto simp: rest'_def)
next
  case False
  define m where "m = (if n = 0 then 1 else n)"
  define rest' where "rest' = take (m - length xs) rest @ replicate (m - (length xs + length rest)) Uninit"
  have "xrealloc_slots (map Ptr xs @ rest) m = map Ptr xs @ rest'"
    using False by (auto simp: xrealloc_slots_def rest'_def m_def)
  moreover have l: "length xs + length rest' = m"
    using False by (auto simp: rest'_def m_def)
  ultimately have "vector_resize (vec_of xs rest) n = Some (vec_of xs rest')"
    using False by (auto simp: vector_resize_def Let_def vec_of_def m_def)
  moreover have "list_all (\<lambda>s. \<not> is_ptr s) rest'"
    using assms(2) by (auto simp: rest'_def list_all_iff dest: in_set_takeD)
  ultimately show ?thesis using False l by (intro exI[of _ rest']) (auto simp: m_def)
qed

lemma cvector_resize_vec_of:
  assumes "xs \<noteq> [] \<or> rest \<noteq> []"
  shows "\<exists>rest'. cvector_resize (vec_of xs rest) n = vec_of (take n xs) rest'
    \<and> length (take n xs) + length rest' = max 1 n"
proof -
  define m where "m = (if n = 0 then 1 else n)"
  define rest' where "rest' = drop (length (take n xs)) (take m (map Ptr xs @ rest))
      @ replicate (m - (length xs + length rest)) Uninit"
  have "take (length (take n xs)) (take m (map Ptr xs @ rest)) = map Ptr (take n xs)"
    by (auto simp: m_def min_def take_map)
  then have t: "xrealloc_slots (map Ptr xs @ rest) m = map Ptr (take n xs) @ rest'"
    unfolding xrealloc_slots_def rest'_def
    by (metis append.assoc append_take_drop_id length_append length_map)
  have l: "length (take n xs) + length rest' = m"
    using arg_cong[OF t, of length] by simp
  have "cvector_resize (vec_of xs rest) n = vec_of (take n xs) rest'"
    using t l by (auto simp: cvector_resize_def Let_def vec_of_def m_def)
  then show ?thesis using l by (intro exI[of _ rest']) (auto simp: m_def)
qed

lemma vector_add_vec_of:
  assumes "xs \<noteq> [] \<or> rest \<noteq> []" "list_all (\<lambda>s. \<not> is_ptr s) rest"
  shows "\<exists>rest'. vector_add (vec_of xs rest) s = Some (vec_of (xs @ [c_str s]) rest')
    \<and> list_all (\<lambda>s. \<not> is_ptr s) rest'"
proof (cases "rest = []")
  case True
  obtain r where r: "vector_resize (vec_of xs []) (length xs + 1) = Some (vec_of xs r)"
    "length r = 1" "list_all (\<lambda>s. \<not> is_ptr s) r"
    using vector_resize_vec_of[of xs "[]" "length xs + 1"] assms True by (auto simp: max_def)
  then obtain x where "r = [x]" by (cases r) auto
  then show ?thesis using True r put_slot_next[of r xs "c_str s"]
    by (intro exI[of _ "[]"]) (simp add: vector_add_def Let_def vec_of_def)
next
  case False
  then obtain x r where "rest = x # r" by (cases rest) auto
  then show ?thesis using assms put_slot_next[of rest xs "c_str s"]
    by (intro exI[of _ r]) (simp add: vector_add_def Let_def vec_of_def)
qed

lemma vector_addn_take: "vector_addn v s n = vector_add v (take n s)"
  by (simp add: vector_addn_def vector_add_def)

lemma cvector_add_vec_of:
  assumes "xs \<noteq> [] \<or> rest \<noteq> []"
  shows "\<exists>rest'. cvector_add (vec_of xs rest) p = Some (vec_of (xs @ [p]) rest')"
proof (cases "rest = []")
  case True
  obtain r where r: "cvector_resize (vec_of xs []) (length xs + 1) = vec_of xs r" "length r = 1"
    using cvector_resize_vec_of[of xs "[]" "length xs + 1"] assms True by (auto simp: max_def)
  then obtain x where "r = [x]" by (cases r) auto
  then show ?thesis using True r put_slot_next[of r xs p]
    by (intro exI[of _ "[]"]) (simp add: cvector_add_def Let_def vec_of_def)
next
  case False
  then obtain x r where "rest = x # r" by (cases rest) auto
  then show ?thesis using assms put_slot_next[of rest xs p]
    by (intro exI[of _ r]) (simp add: cvector_add_def Let_def vec_of_def)
qed

lemma vector_clear_vec_of:
  "vector_clear (vec_of xs rest) = Some (vec_of [] (replicate (length xs) Dangling @ rest))"
  using free_range_ptrs[of 0 xs rest] by (simp add: vector_clear_def vec_of_def)

lemma cvector_clear_vec_of:
  "cvector_clear (vec_of xs rest) = vec_of [] (map Ptr xs @ rest)"
  by (simp add: cvector_clear_def vec_of_def)

lemma vector_clear_ok:
  assumes "vec_inv v"
  shows "\<exists>v'. vector_clear v = Some v' \<and> vec_inv v' \<and> vec_items v' = [] \<and> v_allocated v' = v_allocated v"
  using assms by (cases rule: vec_cases) (auto simp: vector_clear_vec_of list_all_iff)

lemma vector_resize_ok:
  assumes "vec_inv v"
  shows "\<exists>v'. vector_resize v n = Some v' \<and> vec_inv v' \<and> vec_items v' = take n (vec_items v)
    \<and> v_allocated v' = max 1 n"
  using assms
proof (cases rule: vec_cases)
  case (1 xs rest)
  obtain rest' where "vector_resize (vec_of xs rest) n = Some (vec_of (take n xs) rest')"
    "list_all (\<lambda>s. \<not> is_ptr s) rest'" "length (take n xs) + length rest' = max 1 n"
    using vector_resize_vec_of[OF 1(2,3)] by blast
  moreover from this have "take n xs \<noteq> [] \<or> rest' \<noteq> []" by (cases rest') fastforce+
  ultimately show ?thesis using 1(1)
    by (intro exI[of _ "vec_of (take n xs) rest'"]) (simp del: length_take)
qed

lemma vector_add_ok:
  assumes "vec_inv v"
  shows "\<exists>v'. vector_add v s = Some v' \<and> vec_inv v' \<and> vec_items v' = vec_items v @ [c_str s]"
  using assms vector_add_vec_of by (cases rule: vec_cases) fastforce

lemma cvector_add_ok:
  assumes "cvec_inv v"
  shows "\<exists>v'. cvector_add v p = Some v' \<and> cvec_inv v' \<and> vec_items v' = vec_items v @ [p]"
  using assms cvector_add_vec_of by (cases rule: cvec_cases) fastforce

lemma vector_free_no_leak: "vec_inv v \<Longrightarrow> vector_free (Some v) = Some []"
  by (cases v rule: vec_cases)
    (auto simp: vector_free_def vector_clear_vec_of intro!: map_filter_no_ptrs simp: list_all_iff)

lemma vector_reuse_ok:
  assumes "\<And>v. vo = Some v \<Longrightarrow> vec_inv v"
  shows "\<exists>rest. vector_reuse vo = Some (vec_of [] rest) \<and> rest \<noteq> [] \<and> list_all (\<lambda>s. \<not> is_ptr s) rest"
proof (cases vo)
  case None
  then show ?thesis by (auto simp: vector_reuse_def vector_new_vec_of)
next
  case (Some v)
  with assms have "vec_inv v" by blast
  then show ?thesis
  proof (cases rule: vec_cases)
    case (1 xs rest)
    then show ?thesis using Some
      by (intro exI[of _ "replicate (length xs) Dangling @ rest"])
        (auto simp: vector_reuse_def vector_clear_vec_of list_all_iff)
  qed
qed

lemma cvector_reuse_ok:
  assumes "\<And>v. vo = Some v \<Longrightarrow> cvec_inv v"
  shows "\<exists>rest. cvector_reuse vo = vec_of [] rest \<and> rest \<noteq> []"
proof (cases vo)
  case None
  then show ?thesis by (auto simp: cvector_reuse_def cvector_new_vec_of)
next
  case (Some v)
  with assms have "cvec_inv v" by blast
  then show ?thesis
  proof (cases rule: cvec_cases)
    case (1 xs rest)
    then show ?thesis using Some
      by (intro exI[of _ "map Ptr xs @ rest"]) (auto simp: cvector_reuse_def cvector_clear_vec_of)
  qed
qed

section \<open>The interface the clients use\<close>

text \<open>
  What the clients of a table rely on: a fresh table is empty, and adding appends. The loops of
  the clients that only add are \<open>add_all\<close>.
\<close>

fun add_all :: "('t \<Rightarrow> 'a \<Rightarrow> 't option) \<Rightarrow> 't \<Rightarrow> 'a list \<Rightarrow> 't option" where
  "add_all add t [] = Some t"
| "add_all add t (x # xs) = do { t' \<leftarrow> add t x; add_all add t' xs }"

locale string_table =
  fixes tnew :: 't and tadd :: "'t \<Rightarrow> 'a \<Rightarrow> 't option"
    and titems :: "'t \<Rightarrow> 'b list" and stored :: "'a \<Rightarrow> 'b" and tinv :: "'t \<Rightarrow> bool"
  assumes tnew_inv: "tinv tnew" and tnew_items: "titems tnew = []"
    and tadd_appends: "tinv t \<Longrightarrow> \<exists>t'. tadd t x = Some t' \<and> tinv t' \<and> titems t' = titems t @ [stored x]"
begin

lemma add_all_appends:
  "tinv t \<Longrightarrow> \<exists>t'. add_all tadd t xs = Some t' \<and> tinv t' \<and> titems t' = titems t @ map stored xs"
proof (induction xs arbitrary: t)
  case (Cons x xs)
  then obtain t1 where t1: "tadd t x = Some t1" "tinv t1" "titems t1 = titems t @ [stored x]"
    using tadd_appends by blast
  from Cons.IH[OF t1(2)] show ?case using t1 by auto
qed simp

lemma add_all_new: "\<exists>t. add_all tadd tnew xs = Some t \<and> tinv t \<and> titems t = map stored xs"
  using add_all_appends[OF tnew_inv, of xs] by (simp add: tnew_items)

lemma tadd_defined: "tinv t \<Longrightarrow> tadd t x \<noteq> None"
  using tadd_appends[of t x] by auto

lemma tadd_SomeD: "tinv t \<Longrightarrow> tadd t x = Some t' \<Longrightarrow> tinv t' \<and> titems t' = titems t @ [stored x]"
  using tadd_appends[of t x] by auto

end

interpretation vtab: string_table vector_new vector_add vec_items c_str vec_inv
  by unfold_locales (simp_all add: vector_new_vec_of vector_add_ok)

interpretation ctab: string_table cvector_new cvector_add vec_items "\<lambda>p. p" cvec_inv
  by unfold_locales (simp_all add: cvector_new_vec_of cvector_add_ok)

end
