(* ===== verification/VectorSplit.thy ===== *)
theory VectorSplit
  imports Vector
begin

text \<open>
  The second half of \<open>util/vector.c\<close>: splitting a string into a table at one separator or at
  runs of separators, in the copying form (\<open>vector_*\<close>) and in the form that cuts the string in
  place and stores pointers into it (\<open>cvector_*\<close>, a pointer being the offset in the string),
  joining a table with a separator, and running a program with a table as its arguments. The
  specifications are the recursive functions \<open>segments\<close>, \<open>tokens\<close> and \<open>join_with\<close>.
\<close>

section \<open>Splitting at one separator\<close>

definition split_count :: "string \<Rightarrow> byte \<Rightarrow> nat" where
  "split_count s sep =
     (if s = [] then 1 else foldl (\<lambda>n c. if c = sep then n + 1 else n) 1 s)"

text \<open>The loop over \<open>p\<close>: \<open>seg\<close> is the text from \<open>start\<close> to \<open>p\<close>.\<close>

fun split_walk :: "byte \<Rightarrow> string \<Rightarrow> string \<Rightarrow> nat \<Rightarrow> string slot list \<Rightarrow> (string slot list \<times> nat) option" where
  "split_walk sep [] seg i ss = do { ss \<leftarrow> put_slot ss i (Ptr seg); Some (ss, i + 1) }"
| "split_walk sep (c # p) seg i ss =
     (if c = sep then do { ss \<leftarrow> put_slot ss i (Ptr seg); split_walk sep p [] (i + 1) ss }
      else split_walk sep p (seg @ [c]) i ss)"

definition vector_split :: "string \<Rightarrow> byte \<Rightarrow> string vec option \<Rightarrow> string vec option" where
  "vector_split s sep vo = do {
     v \<leftarrow> vector_reuse vo;
     let n = split_count s sep;
     v \<leftarrow> (if v_allocated v < n then vector_resize v n else Some v);
     (ss, i) \<leftarrow> split_walk sep s [] 0 (v_strings v);
     Some (v\<lparr>v_strings := ss, v_count := i\<rparr>) }"

text \<open>
  In place: \<open>pre\<close> is the part of the buffer already walked (separators overwritten), the second
  argument the part ahead, up to the terminating nul; \<open>start\<close> is an offset.
\<close>

fun csplit_walk :: "byte \<Rightarrow> bytes \<Rightarrow> string \<Rightarrow> nat \<Rightarrow> nat \<Rightarrow> nat slot list
    \<Rightarrow> (bytes \<times> nat slot list \<times> nat) option" where
  "csplit_walk sep pre [] start i ss = do { ss \<leftarrow> put_slot ss i (Ptr start); Some (pre @ [NUL], ss, i + 1) }"
| "csplit_walk sep pre (c # p) start i ss =
     (if c = sep then do { ss \<leftarrow> put_slot ss i (Ptr start);
                           csplit_walk sep (pre @ [NUL]) p (length pre + 1) (i + 1) ss }
      else csplit_walk sep (pre @ [c]) p start i ss)"

definition cvector_split :: "string \<Rightarrow> byte \<Rightarrow> nat vec option \<Rightarrow> (bytes \<times> nat vec) option" where
  "cvector_split s sep vo = do {
     let v = cvector_reuse vo;
     let n = split_count s sep;
     let v = (if v_allocated v < n then cvector_resize v n else v);
     (buf, ss, i) \<leftarrow> csplit_walk sep [] s 0 0 (v_strings v);
     Some (buf, v\<lparr>v_strings := ss, v_count := i\<rparr>) }"

section \<open>Splitting at runs of separators\<close>

fun multi_count_walk :: "string \<Rightarrow> byte \<Rightarrow> string \<Rightarrow> nat \<Rightarrow> nat" where
  "multi_count_walk seps prev [] n = (if prev \<in> set seps then n - 1 else n)"
| "multi_count_walk seps prev (c # p) n =
     multi_count_walk seps c p (if c \<in> set seps \<and> prev \<notin> set seps then n + 1 else n)"

definition split_multi_count :: "string \<Rightarrow> string \<Rightarrow> nat" where
  "split_multi_count s seps = (case s of [] \<Rightarrow> 0 | c # p \<Rightarrow> multi_count_walk seps c p 1)"

fun multi_walk :: "string \<Rightarrow> string \<Rightarrow> string \<Rightarrow> nat \<Rightarrow> string slot list \<Rightarrow> (string slot list \<times> nat) option" where
  "multi_walk seps [] seg i ss =
     (if seg \<noteq> [] then do { ss \<leftarrow> put_slot ss i (Ptr seg); Some (ss, i + 1) } else Some (ss, i))"
| "multi_walk seps (c # p) seg i ss =
     (if c \<in> set seps
      then (if seg \<noteq> [] then do { ss \<leftarrow> put_slot ss i (Ptr seg); multi_walk seps p [] (i + 1) ss }
            else multi_walk seps p [] i ss)
      else multi_walk seps p (seg @ [c]) i ss)"

definition vector_split_multi :: "string \<Rightarrow> string \<Rightarrow> string vec option \<Rightarrow> string vec option" where
  "vector_split_multi s seps vo = do {
     v \<leftarrow> vector_reuse vo;
     let n = split_multi_count s seps;
     v \<leftarrow> (if v_allocated v < n then vector_resize v n else Some v);
     (ss, i) \<leftarrow> multi_walk seps s [] 0 (v_strings v);
     Some (v\<lparr>v_strings := ss, v_count := i\<rparr>) }"

fun cmulti_walk :: "string \<Rightarrow> bytes \<Rightarrow> string \<Rightarrow> nat \<Rightarrow> nat \<Rightarrow> nat slot list
    \<Rightarrow> (bytes \<times> nat slot list \<times> nat) option" where
  "cmulti_walk seps pre [] start i ss =
     (if start \<noteq> length pre
      then do { ss \<leftarrow> put_slot ss i (Ptr start); Some (pre @ [NUL], ss, i + 1) }
      else Some (pre @ [NUL], ss, i))"
| "cmulti_walk seps pre (c # p) start i ss =
     (if c \<in> set seps
      then (if start \<noteq> length pre
            then do { ss \<leftarrow> put_slot ss i (Ptr start);
                      cmulti_walk seps (pre @ [NUL]) p (length pre + 1) (i + 1) ss }
            else cmulti_walk seps (pre @ [c]) p (length pre + 1) i ss)
      else cmulti_walk seps (pre @ [c]) p start i ss)"

definition cvector_split_multi :: "string \<Rightarrow> string \<Rightarrow> nat vec option \<Rightarrow> (bytes \<times> nat vec) option" where
  "cvector_split_multi s seps vo = do {
     let v = cvector_reuse vo;
     let n = split_multi_count s seps;
     let v = (if v_allocated v < n then cvector_resize v n else v);
     (buf, ss, i) \<leftarrow> cmulti_walk seps [] s 0 0 (v_strings v);
     Some (buf, v\<lparr>v_strings := ss, v_count := i\<rparr>) }"

definition vector_split_space :: "string \<Rightarrow> string vec option \<Rightarrow> string vec option" where
  "vector_split_space s vo = vector_split_multi s [CHR '' '', CHR 0x09] vo"

definition cvector_split_space :: "string \<Rightarrow> nat vec option \<Rightarrow> (bytes \<times> nat vec) option" where
  "cvector_split_space s vo = cvector_split_multi s [CHR '' '', CHR 0x09] vo"

section \<open>Joining\<close>

text \<open>
  The size loop with its overflow assertions (a failed one is \<open>None\<close>); \<open>slack\<close> is what the
  assertion adds to the length: the separator and the nul in \<open>vector_join\<close>, nothing in
  \<open>cvector_join\<close>.
\<close>

fun join_size :: "nat \<Rightarrow> string list \<Rightarrow> nat \<Rightarrow> nat option" where
  "join_size slack [] sz = Some sz"
| "join_size slack (s # ss) sz =
     (if SIZE_MAX - sz \<ge> length s + slack then join_size slack ss (sz + length s) else None)"

fun join_cat :: "bytes \<Rightarrow> string \<Rightarrow> string list \<Rightarrow> nat \<Rightarrow> bytes option" where
  "join_cat buf sep [] sz = Some buf"
| "join_cat buf sep (s # ss) sz = do {
     (buf, n) \<leftarrow> strlcat buf sep sz;
     (buf, n) \<leftarrow> strlcat buf s sz;
     join_cat buf sep ss sz }"

text \<open>The strings of the table, read slot by slot; then the body both forms share. The product in
  the last assertion is computed with the wrap-around of \<open>size_t\<close>.\<close>

definition vec_read :: "'p vec \<Rightarrow> 'p list option" where
  "vec_read v = those (map (get_slot (v_strings v)) [0..<v_count v])"

definition join_body :: "(nat \<Rightarrow> bytes) \<Rightarrow> nat \<Rightarrow> string list \<Rightarrow> string \<Rightarrow> bytes option" where
  "join_body xmalloc slack items sep =
     (case items of [] \<Rightarrow> Some [NUL]
      | first # others \<Rightarrow> do {
          sz \<leftarrow> join_size slack items 0;
          let seps = ((length items - 1) * length sep + 1) mod 2 ^ 64;
          sz \<leftarrow> (if SIZE_MAX - sz \<ge> seps then Some (sz + seps) else None);
          (buf, n) \<leftarrow> strlcpy (xmalloc sz) first sz;
          join_cat buf sep others sz })"

definition vector_join :: "(nat \<Rightarrow> bytes) \<Rightarrow> string vec \<Rightarrow> string \<Rightarrow> bytes option" where
  "vector_join xmalloc v sep = do {
     items \<leftarrow> vec_read v;
     join_body xmalloc (length sep + 1) items sep }"

text \<open>A \<open>cvector\<close> of pointers; \<open>deref\<close> gives the string a pointer leads to.\<close>

definition cvector_join :: "(nat \<Rightarrow> bytes) \<Rightarrow> ('p \<Rightarrow> string) \<Rightarrow> 'p vec \<Rightarrow> string \<Rightarrow> bytes option" where
  "cvector_join xmalloc deref v sep = do {
     items \<leftarrow> vec_read v;
     join_body xmalloc 0 (map deref items) sep }"

section \<open>Running a program\<close>

text \<open>\<open>execv\<close> reads its argument array up to the null pointer; \<open>None\<close> when it meets anything
  that is not a live pointer before.\<close>

fun read_argv :: "'p slot list \<Rightarrow> 'p list option" where
  "read_argv [] = None"
| "read_argv (Null # ss) = Some []"
| "read_argv (Ptr p # ss) = map_option (\<lambda>ps. p # ps) (read_argv ss)"
| "read_argv (_ # ss) = None"

definition vector_exec :: "(string \<Rightarrow> string list \<Rightarrow> int) \<Rightarrow> string \<Rightarrow> string vec \<Rightarrow> (int \<times> string vec) option" where
  "vector_exec execv path v = do {
     v \<leftarrow> (if v_allocated v = v_count v then vector_resize v (v_count v + 1) else Some v);
     ss \<leftarrow> put_slot (v_strings v) (v_count v) Null;
     let v = v\<lparr>v_strings := ss\<rparr>;
     argv \<leftarrow> read_argv (v_strings v);
     Some (execv path argv, v) }"

definition cvector_exec :: "(string \<Rightarrow> 'p list \<Rightarrow> int) \<Rightarrow> string \<Rightarrow> 'p vec \<Rightarrow> (int \<times> 'p vec) option" where
  "cvector_exec execv path v = do {
     let v = (if v_allocated v = v_count v then cvector_resize v (v_count v + 1) else v);
     ss \<leftarrow> put_slot (v_strings v) (v_count v) Null;
     let v = v\<lparr>v_strings := ss\<rparr>;
     argv \<leftarrow> read_argv (v_strings v);
     Some (execv path argv, v) }"

section \<open>Specifications\<close>

fun segments :: "byte \<Rightarrow> string \<Rightarrow> string list" where
  "segments sep [] = [[]]"
| "segments sep (c # s) =
     (if c = sep then [] # segments sep s
      else (c # hd (segments sep s)) # tl (segments sep s))"

function tokens :: "string \<Rightarrow> string \<Rightarrow> string list" where
  "tokens seps [] = []"
| "tokens seps (c # s) =
     (if c \<in> set seps then tokens seps s
      else (c # takeWhile (\<lambda>x. x \<notin> set seps) s) # tokens seps (dropWhile (\<lambda>x. x \<notin> set seps) s))"
  by pat_completeness auto
termination
  by (relation "measure (\<lambda>(seps, s). length s)") (auto simp: le_imp_less_Suc length_dropWhile_le)

fun join_with :: "string \<Rightarrow> string list \<Rightarrow> string" where
  "join_with sep [] = []"
| "join_with sep [s] = s"
| "join_with sep (s # t # ss) = s @ sep @ join_with sep (t # ss)"


section \<open>The specifications are what they should be\<close>

lemma segments_nonempty [simp]: "segments sep s \<noteq> []" "[] \<noteq> segments sep s"
  by (cases "(sep, s)" rule: segments.cases; auto)+

lemma length_segments: "length (segments sep s) = Suc (count_list s sep)"
  by (induction s) auto

lemma join_with_Cons: "ss \<noteq> [] \<Longrightarrow> join_with sep (s # ss) = s @ sep @ join_with sep ss"
  by (cases ss) auto

lemma join_with_concat: "join_with sep (s # ss) = s @ concat (map (\<lambda>t. sep @ t) ss)"
  by (induction ss arbitrary: s) (auto simp: join_with_Cons)

lemma join_segments: "join_with [sep] (segments sep s) = s"
proof (induction s)
  case (Cons c s)
  obtain h t where ht: "segments sep s = h # t" by (cases "segments sep s") auto
  show ?case using Cons ht by (cases t) (auto simp: join_with_Cons)
qed simp

lemma segments_no_sep: "\<forall>x \<in> set (segments sep s). sep \<notin> set x"
proof (induction s)
  case (Cons c s)
  then show ?case by (cases "segments sep s") auto
qed simp

lemma segments_prefix: "sep \<notin> set p \<Longrightarrow> segments sep (p @ s) = (p @ hd (segments sep s)) # tl (segments sep s)"
  by (induction p) auto

lemma segments_join:
  "ss \<noteq> [] \<Longrightarrow> \<forall>x \<in> set ss. sep \<notin> set x \<Longrightarrow> segments sep (join_with [sep] ss) = ss"
proof (induction ss)
  case (Cons x ss)
  then show ?case
    using segments_prefix[of sep x "[]"] segments_prefix[of sep x "sep # join_with [sep] ss"]
    by (cases "ss = []") (auto simp: join_with_Cons)
qed simp

lemma segments_no_nul: "no_nul s \<Longrightarrow> \<forall>x \<in> set (segments sep s). no_nul x"
proof (induction s)
  case (Cons c s)
  then show ?case by (cases "segments sep s") auto
qed simp

lemma tokens_nonempty: "x \<in> set (tokens seps s) \<Longrightarrow> x \<noteq> [] \<and> set x \<inter> set seps = {}"
proof (induction seps s rule: tokens.induct)
  case (2 seps c s)
  then show ?case by (cases "c \<in> set seps") (auto dest: set_takeWhileD)
qed simp

lemma concat_tokens: "concat (tokens seps s) = filter (\<lambda>c. c \<notin> set seps) s"
proof (induction seps s rule: tokens.induct)
  case (2 seps c s)
  show ?case
  proof (cases "c \<in> set seps")
    case False
    let ?P = "\<lambda>x. x \<notin> set seps"
    have "filter ?P s = filter ?P (takeWhile ?P s) @ filter ?P (dropWhile ?P s)"
      by (metis filter_append takeWhile_dropWhile_id)
    also have "filter ?P (takeWhile ?P s) = takeWhile ?P s"
      by (rule filter_True) (auto dest: set_takeWhileD)
    finally show ?thesis using 2(2)[OF False] False by simp
  qed (use 2 in simp)
qed simp

section \<open>Sizing and walking agree\<close>

lemma foldl_count: "foldl (\<lambda>n c. if c = sep then n + 1 else n) n s = n + count_list s sep"
  by (induction s arbitrary: n) auto

lemma split_count_segments: "split_count s sep = length (segments sep s)"
  unfolding split_count_def length_segments foldl_count by simp

lemma split_walk_ok:
  "length (segments sep p) \<le> length rest \<Longrightarrow>
   split_walk sep p seg (length xs) (map Ptr xs @ rest) =
     Some (map Ptr (xs @ (seg @ hd (segments sep p)) # tl (segments sep p))
             @ drop (length (segments sep p)) rest,
           length xs + length (segments sep p))"
proof (induction p arbitrary: seg xs rest)
  case Nil
  then show ?case using put_slot_next[of rest xs seg] by (cases rest) auto
next
  case (Cons c p)
  show ?case
  proof (cases "c = sep")
    case True
    then obtain r rest' where rest: "rest = r # rest'" using Cons.prems by (cases rest) auto
    have "split_walk sep p [] (length (xs @ [seg])) (map Ptr (xs @ [seg]) @ rest') =
      Some (map Ptr ((xs @ [seg]) @ ([] @ hd (segments sep p)) # tl (segments sep p))
             @ drop (length (segments sep p)) rest',
           length (xs @ [seg]) + length (segments sep p))"
      using Cons.prems True rest by (intro Cons.IH) simp
    then show ?thesis using True rest put_slot_next[of rest xs seg] by simp
  next
    case False
    then show ?thesis using Cons.IH[of rest "seg @ [c]" xs] Cons.prems by simp
  qed
qed

lemma multi_count_walk_tokens:
  "1 \<le> n \<Longrightarrow> multi_count_walk seps prev p n =
     (if prev \<in> set seps then n - 1 + length (tokens seps p)
      else n + length (tokens seps (dropWhile (\<lambda>x. x \<notin> set seps) p)))"
  by (induction p arbitrary: prev n) auto

lemma split_multi_count_tokens: "split_multi_count s seps = length (tokens seps s)"
  by (cases s) (auto simp: split_multi_count_def multi_count_walk_tokens)

definition tokens_from :: "string \<Rightarrow> string \<Rightarrow> string \<Rightarrow> string list" where
  "tokens_from seps seg p =
     (if seg = [] then tokens seps p
      else (seg @ takeWhile (\<lambda>x. x \<notin> set seps) p) # tokens seps (dropWhile (\<lambda>x. x \<notin> set seps) p))"

lemma tokens_from_simps [simp]:
  "tokens_from seps [] p = tokens seps p"
  "seg \<noteq> [] \<Longrightarrow> tokens_from seps seg [] = [seg]"
  "c \<in> set seps \<Longrightarrow> seg \<noteq> [] \<Longrightarrow> tokens_from seps seg (c # p) = seg # tokens seps p"
  "c \<notin> set seps \<Longrightarrow> tokens_from seps seg (c # p) = tokens_from seps (seg @ [c]) p"
  by (auto simp: tokens_from_def)

lemma multi_walk_ok:
  "length (tokens_from seps seg p) \<le> length rest \<Longrightarrow>
   multi_walk seps p seg (length xs) (map Ptr xs @ rest) =
     Some (map Ptr (xs @ tokens_from seps seg p) @ drop (length (tokens_from seps seg p)) rest,
           length xs + length (tokens_from seps seg p))"
proof (induction p arbitrary: seg xs rest)
  case Nil
  then show ?case using put_slot_next[of rest xs seg] by (cases rest) auto
next
  case (Cons c p)
  consider (plain) "c \<notin> set seps" | (skip) "c \<in> set seps" "seg = []" | (cut) "c \<in> set seps" "seg \<noteq> []"
    by blast
  then show ?case
  proof cases
    case cut
    then obtain r rest' where rest: "rest = r # rest'" using Cons.prems by (cases rest) auto
    have "multi_walk seps p [] (length (xs @ [seg])) (map Ptr (xs @ [seg]) @ rest') =
      Some (map Ptr ((xs @ [seg]) @ tokens_from seps [] p) @ drop (length (tokens_from seps [] p)) rest',
           length (xs @ [seg]) + length (tokens_from seps [] p))"
      using Cons.prems cut rest by (intro Cons.IH) simp
    then show ?thesis using cut rest put_slot_next[of rest xs seg] by simp
  next
    case plain
    then show ?thesis using Cons.IH[of "seg @ [c]" rest xs] Cons.prems by simp
  next
    case skip
    then show ?thesis using Cons.IH[of "[]" rest xs] Cons.prems by simp
  qed
qed


section \<open>Splitting is correct\<close>

text \<open>A reused or fresh table, made large enough, is empty and has room for \<open>n\<close> items.\<close>

lemma reuse_room:
  assumes "\<And>v. vo = Some v \<Longrightarrow> vec_inv v"
  shows "\<exists>rest. (do { v \<leftarrow> vector_reuse vo; (if v_allocated v < n then vector_resize v n else Some v) })
      = Some (vec_of [] rest) \<and> rest \<noteq> [] \<and> n \<le> length rest \<and> list_all (\<lambda>s. \<not> is_ptr s) rest"
proof -
  obtain r where r: "vector_reuse vo = Some (vec_of [] r)" "r \<noteq> []" "list_all (\<lambda>s. \<not> is_ptr s) r"
    using vector_reuse_ok[OF assms] by blast
  show ?thesis
  proof (cases "length r < n")
    case True
    obtain r' where r': "vector_resize (vec_of [] r) n = Some (vec_of [] r')"
      "list_all (\<lambda>s. \<not> is_ptr s) r'" "length r' = max 1 n"
      using vector_resize_vec_of[of "[]" r n] r by auto
    then have "r' \<noteq> []" by (cases r') auto
    then show ?thesis using r r' True by (intro exI[of _ r']) auto
  qed (use r in auto)
qed

lemma creuse_room:
  assumes "\<And>v. vo = Some v \<Longrightarrow> cvec_inv v"
  shows "\<exists>rest. (let v = cvector_reuse vo in if v_allocated v < n then cvector_resize v n else v)
      = vec_of [] rest \<and> rest \<noteq> [] \<and> n \<le> length rest"
proof -
  obtain r where r: "cvector_reuse vo = vec_of [] r" "r \<noteq> []"
    using cvector_reuse_ok[OF assms] by blast
  show ?thesis
  proof (cases "length r < n")
    case True
    obtain r' where r': "cvector_resize (vec_of [] r) n = vec_of [] r'" "length r' = max 1 n"
      using cvector_resize_vec_of[of "[]" r n] r by auto
    then have "r' \<noteq> []" by (cases r') auto
    then show ?thesis using r r' True by (intro exI[of _ r']) (auto simp: Let_def)
  qed (use r in auto)
qed

lemma list_all_drop: "list_all P xs \<Longrightarrow> list_all P (drop n xs)"
  by (auto simp: list_all_iff dest: in_set_dropD)

lemma vector_split_ok:
  assumes "\<And>v. vo = Some v \<Longrightarrow> vec_inv v"
  shows "\<exists>v'. vector_split s sep vo = Some v' \<and> vec_inv v' \<and> vec_items v' = segments sep s"
proof -
  obtain rest where rest: "(do { v \<leftarrow> vector_reuse vo;
       (if v_allocated v < split_count s sep then vector_resize v (split_count s sep) else Some v) })
      = Some (vec_of [] rest)" "split_count s sep \<le> length rest" "list_all (\<lambda>s. \<not> is_ptr s) rest"
    using reuse_room[OF assms] by blast
  let ?segs = "segments sep s" and ?r = "drop (length (segments sep s)) rest"
  have "split_walk sep s [] 0 rest = Some (map Ptr ?segs @ ?r, length ?segs)"
    using split_walk_ok[of sep s rest "[]" "[]"] rest(2) by (simp add: split_count_segments)
  then have "vector_split s sep vo = Some (vec_of ?segs ?r)"
    using rest(1,2) by (auto simp: vector_split_def Let_def bind_eq_Some_conv split_count_segments
        intro!: vec_eqI)
  then show ?thesis using rest(3) by (auto simp: list_all_drop)
qed

lemma vector_split_multi_ok:
  assumes "\<And>v. vo = Some v \<Longrightarrow> vec_inv v"
  shows "\<exists>v'. vector_split_multi s seps vo = Some v' \<and> vec_inv v' \<and> vec_items v' = tokens seps s"
proof -
  obtain rest where rest: "(do { v \<leftarrow> vector_reuse vo;
       (if v_allocated v < split_multi_count s seps then vector_resize v (split_multi_count s seps)
        else Some v) }) = Some (vec_of [] rest)"
      "rest \<noteq> []" "split_multi_count s seps \<le> length rest" "list_all (\<lambda>s. \<not> is_ptr s) rest"
    using reuse_room[OF assms] by blast
  let ?toks = "tokens seps s" and ?r = "drop (length (tokens seps s)) rest"
  have "multi_walk seps s [] 0 rest = Some (map Ptr ?toks @ ?r, length ?toks)"
    using multi_walk_ok[of seps "[]" s rest "[]"] rest(3) by (simp add: split_multi_count_tokens)
  then have "vector_split_multi s seps vo = Some (vec_of ?toks ?r)"
    using rest(1,3) by (auto simp: vector_split_multi_def Let_def bind_eq_Some_conv
        split_multi_count_tokens intro!: vec_eqI)
  then show ?thesis using rest(2,4) by (cases ?toks) (auto simp: list_all_drop)
qed

section \<open>Splitting in place\<close>

text \<open>The strings that the pointers of a table lead to in a buffer.\<close>

definition deref_at :: "bytes \<Rightarrow> nat \<Rightarrow> string" where
  "deref_at buf p = c_str (drop p buf)"

lemma deref_cut: "start \<le> length pre \<Longrightarrow> no_nul (drop start pre) \<Longrightarrow>
    deref_at (pre @ NUL # t) start = drop start pre"
  by (simp add: deref_at_def)

lemma csplit_walk_ok:
  assumes "start \<le> length pre" "no_nul (drop start pre)" "no_nul p"
    "length (segments sep p) \<le> length rest"
  shows "\<exists>buf offs. csplit_walk sep pre p start (length xs) (map Ptr xs @ rest) =
      Some (buf, map Ptr (xs @ offs) @ drop (length offs) rest, length xs + length offs)
    \<and> (\<exists>t. buf = pre @ t \<and> length t = Suc (length p))
    \<and> map (deref_at buf) offs = (drop start pre @ hd (segments sep p)) # tl (segments sep p)"
  using assms
proof (induction p arbitrary: pre start xs rest)
  case Nil
  then show ?case using put_slot_next[of rest xs start] deref_cut[of start pre "[]"]
    by (intro exI[of _ "pre @ [NUL]"] exI[of _ "[start]"]) (cases rest; auto)
next
  case (Cons c p)
  show ?case
  proof (cases "c = sep")
    case True
    then obtain r rest' where rest: "rest = r # rest'" using Cons.prems by (cases rest) auto
    obtain buf offs t where IH: "csplit_walk sep (pre @ [NUL]) p (length (pre @ [NUL]))
        (length (xs @ [start])) (map Ptr (xs @ [start]) @ rest') =
      Some (buf, map Ptr ((xs @ [start]) @ offs) @ drop (length offs) rest', length (xs @ [start]) + length offs)"
      "buf = (pre @ [NUL]) @ t" "length t = Suc (length p)"
      "map (deref_at buf) offs = (drop (length (pre @ [NUL])) (pre @ [NUL]) @ hd (segments sep p)) # tl (segments sep p)"
      using Cons.IH[of "length (pre @ [NUL])" "pre @ [NUL]" rest' "xs @ [start]"] Cons.prems True rest
      by auto
    then show ?thesis using True rest put_slot_next[of rest xs start] deref_cut[of start pre t] Cons.prems
      by (intro exI[of _ buf] exI[of _ "start # offs"]) auto
  next
    case False
    have "start \<le> length (pre @ [c])" "no_nul (drop start (pre @ [c]))" "no_nul p"
      "length (segments sep p) \<le> length rest"
      using Cons.prems False by auto
    from Cons.IH[OF this, of xs]
    obtain buf offs t where IH: "csplit_walk sep (pre @ [c]) p start (length xs) (map Ptr xs @ rest) =
      Some (buf, map Ptr (xs @ offs) @ drop (length offs) rest, length xs + length offs)"
      "buf = (pre @ [c]) @ t" "length t = Suc (length p)"
      "map (deref_at buf) offs = (drop start (pre @ [c]) @ hd (segments sep p)) # tl (segments sep p)"
      by (elim exE conjE) (rule that)
    then show ?thesis using False Cons.prems
      by (intro exI[of _ buf] exI[of _ offs]) auto
  qed
qed

lemma cvector_split_ok:
  assumes "\<And>v. vo = Some v \<Longrightarrow> cvec_inv v" "no_nul s"
  shows "\<exists>buf v'. cvector_split s sep vo = Some (buf, v') \<and> cvec_inv v' \<and> length buf = Suc (length s)
    \<and> map (deref_at buf) (vec_items v') = segments sep s"
proof -
  obtain rest where rest: "(let v = cvector_reuse vo in
      if v_allocated v < split_count s sep then cvector_resize v (split_count s sep) else v)
      = vec_of [] rest" "split_count s sep \<le> length rest"
    using creuse_room[of vo "split_count s sep"] assms(1) by blast
  obtain buf offs t where w: "csplit_walk sep [] s 0 0 rest =
      Some (buf, map Ptr offs @ drop (length offs) rest, length offs)"
      "length buf = Suc (length s)" "map (deref_at buf) offs = segments sep s"
    using csplit_walk_ok[of 0 "[]" s sep rest "[]"] rest(2) assms(2)
    by (auto simp: split_count_segments)
  have l: "length offs = length (segments sep s)" using w(3) by (metis length_map)
  have "cvector_split s sep vo = Some (buf, vec_of offs (drop (length offs) rest))"
    using rest w(1) l by (auto simp: cvector_split_def Let_def split_count_segments intro!: vec_eqI)
  then show ?thesis using w l by (cases offs) auto
qed

lemma cmulti_walk_ok:
  assumes "start \<le> length pre" "no_nul (drop start pre)" "no_nul p"
    "length (tokens_from seps (drop start pre) p) \<le> length rest"
  shows "\<exists>buf offs. cmulti_walk seps pre p start (length xs) (map Ptr xs @ rest) =
      Some (buf, map Ptr (xs @ offs) @ drop (length offs) rest, length xs + length offs)
    \<and> (\<exists>t. buf = pre @ t \<and> length t = Suc (length p))
    \<and> map (deref_at buf) offs = tokens_from seps (drop start pre) p"
  using assms
proof (induction p arbitrary: pre start xs rest)
  case Nil
  show ?case
  proof (cases "start = length pre")
    case True
    then show ?thesis by (intro exI[of _ "pre @ [NUL]"] exI[of _ "[]"]) auto
  next
    case False
    then show ?thesis using Nil put_slot_next[of rest xs start] deref_cut[of start pre "[]"]
      by (intro exI[of _ "pre @ [NUL]"] exI[of _ "[start]"]) (cases rest; auto)
  qed
next
  case (Cons c p)
  consider (plain) "c \<notin> set seps" | (skip) "c \<in> set seps" "start = length pre"
    | (cut) "c \<in> set seps" "start \<noteq> length pre" by blast
  then show ?case
  proof cases
    case cut
    then have seg: "drop start pre \<noteq> []" using Cons.prems by simp
    then obtain r rest' where rest: "rest = r # rest'" using Cons.prems cut by (cases rest) auto
    obtain buf offs t where IH: "cmulti_walk seps (pre @ [NUL]) p (length (pre @ [NUL]))
        (length (xs @ [start])) (map Ptr (xs @ [start]) @ rest') =
      Some (buf, map Ptr ((xs @ [start]) @ offs) @ drop (length offs) rest', length (xs @ [start]) + length offs)"
      "buf = (pre @ [NUL]) @ t" "length t = Suc (length p)"
      "map (deref_at buf) offs = tokens_from seps (drop (length (pre @ [NUL])) (pre @ [NUL])) p"
      using Cons.IH[of "length (pre @ [NUL])" "pre @ [NUL]" rest' "xs @ [start]"] Cons.prems cut seg rest
      by auto
    then show ?thesis using cut seg rest put_slot_next[of rest xs start] deref_cut[of start pre t] Cons.prems
      by (intro exI[of _ buf] exI[of _ "start # offs"]) auto
  next
    case plain
    have "start \<le> length (pre @ [c])" "no_nul (drop start (pre @ [c]))" "no_nul p"
      "length (tokens_from seps (drop start (pre @ [c])) p) \<le> length rest"
      using Cons.prems plain by (cases "drop start pre = []"; auto simp: tokens_from_def)+
    from Cons.IH[OF this, of xs]
    obtain buf offs t where IH: "cmulti_walk seps (pre @ [c]) p start (length xs) (map Ptr xs @ rest) =
      Some (buf, map Ptr (xs @ offs) @ drop (length offs) rest, length xs + length offs)"
      "buf = (pre @ [c]) @ t" "length t = Suc (length p)"
      "map (deref_at buf) offs = tokens_from seps (drop start (pre @ [c])) p"
      by (elim exE conjE) (rule that)
    then show ?thesis using plain Cons.prems
      by (intro exI[of _ buf] exI[of _ offs]) (cases "drop start pre = []"; auto simp: tokens_from_def)
  next
    case skip
    obtain buf offs t where IH: "cmulti_walk seps (pre @ [c]) p (length (pre @ [c])) (length xs) (map Ptr xs @ rest) =
      Some (buf, map Ptr (xs @ offs) @ drop (length offs) rest, length xs + length offs)"
      "buf = (pre @ [c]) @ t" "length t = Suc (length p)"
      "map (deref_at buf) offs = tokens_from seps (drop (length (pre @ [c])) (pre @ [c])) p"
      using Cons.IH[of "length (pre @ [c])" "pre @ [c]" rest xs] Cons.prems skip by auto
    then show ?thesis using skip Cons.prems
      by (intro exI[of _ buf] exI[of _ offs]) auto
  qed
qed

lemma cvector_split_multi_ok:
  assumes "\<And>v. vo = Some v \<Longrightarrow> cvec_inv v" "no_nul s"
  shows "\<exists>buf v'. cvector_split_multi s seps vo = Some (buf, v') \<and> cvec_inv v' \<and> length buf = Suc (length s)
    \<and> map (deref_at buf) (vec_items v') = tokens seps s"
proof -
  obtain rest where rest: "(let v = cvector_reuse vo in
      if v_allocated v < split_multi_count s seps then cvector_resize v (split_multi_count s seps) else v)
      = vec_of [] rest" "rest \<noteq> []" "split_multi_count s seps \<le> length rest"
    using creuse_room[OF assms(1)] by blast
  obtain buf offs t where w: "cmulti_walk seps [] s 0 0 rest =
      Some (buf, map Ptr offs @ drop (length offs) rest, length offs)"
      "length buf = Suc (length s)" "map (deref_at buf) offs = tokens seps s"
    using cmulti_walk_ok[of 0 "[]" s seps rest "[]"] rest(3) assms(2)
    by (auto simp: split_multi_count_tokens)
  have l: "length offs = length (tokens seps s)" using w(3) by (metis length_map)
  have "cvector_split_multi s seps vo = Some (buf, vec_of offs (drop (length offs) rest))"
    using rest w(1) l by (auto simp: cvector_split_multi_def Let_def split_multi_count_tokens intro!: vec_eqI)
  then show ?thesis using w l rest(2) by (cases offs) auto
qed


section \<open>Joining and running are correct\<close>

lemma those_map_Some: "(\<And>x. x \<in> set xs \<Longrightarrow> f x = Some (g x)) \<Longrightarrow> those (map f xs) = Some (map g xs)"
  by (induction xs) auto

lemma vec_read_vec_of [simp]: "vec_read (vec_of xs rest) = Some xs"
proof -
  have "those (map (get_slot (map Ptr xs @ rest)) [0..<length xs]) = Some (map (\<lambda>i. xs ! i) [0..<length xs])"
    by (rule those_map_Some) (auto simp: get_slot_def nth_append)
  then show ?thesis by (simp add: vec_read_def map_nth)
qed

lemma vec_read_items: "cvec_inv v \<Longrightarrow> vec_read v = Some (vec_items v)"
  by (cases v rule: cvec_cases) auto

lemma strlcat_room:
  assumes "no_nul s" "length s + length src < sz" "sz = length (s @ NUL # r)"
  shows "\<exists>r'. strlcat (s @ NUL # r) src sz = Some ((s @ src) @ NUL # r', length s + length src)
    \<and> length ((s @ src) @ NUL # r') = sz"
  using strlcat_any[of "s @ NUL # r" s r sz src] assms by auto

lemma join_cat_ok:
  assumes "no_nul s" "no_nul sep" "\<forall>x \<in> set ss. no_nul x" "sz = length (s @ NUL # r)"
    "length (s @ concat (map (\<lambda>t. sep @ t) ss)) < sz"
  shows "\<exists>r'. join_cat (s @ NUL # r) sep ss sz = Some (s @ concat (map (\<lambda>t. sep @ t) ss) @ NUL # r')
    \<and> length (s @ concat (map (\<lambda>t. sep @ t) ss) @ NUL # r') = sz"
  using assms
proof (induction ss arbitrary: s r)
  case (Cons x ss)
  obtain r1 where r1: "strlcat (s @ NUL # r) sep sz = Some ((s @ sep) @ NUL # r1, length s + length sep)"
      "length ((s @ sep) @ NUL # r1) = sz"
    using strlcat_room[of s sep sz r] Cons.prems by auto
  have "no_nul (s @ sep)" "length (s @ sep) + length x < sz" "sz = length ((s @ sep) @ NUL # r1)"
    using Cons.prems r1 by auto
  from strlcat_room[OF this] obtain r2 where
    r2: "strlcat ((s @ sep) @ NUL # r1) x sz = Some (((s @ sep) @ x) @ NUL # r2, length (s @ sep) + length x)"
      "length (((s @ sep) @ x) @ NUL # r2) = sz"
    by blast
  obtain r' where "join_cat (((s @ sep) @ x) @ NUL # r2) sep ss sz =
      Some (((s @ sep) @ x) @ concat (map (\<lambda>t. sep @ t) ss) @ NUL # r')"
      "length (((s @ sep) @ x) @ concat (map (\<lambda>t. sep @ t) ss) @ NUL # r') = sz"
    using Cons.IH[of "(s @ sep) @ x" r2] Cons.prems r2(2) by auto
  then show ?case using r1(1) r2(1) by (intro exI[of _ r']) simp
qed auto

lemma join_size_ok:
  "sz + sum_list (map length ss) + slack \<le> SIZE_MAX \<Longrightarrow>
    join_size slack ss sz = Some (sz + sum_list (map length ss))"
  by (induction ss arbitrary: sz) auto

lemma join_with_length:
  "length (join_with sep (s # ss)) = sum_list (map length (s # ss)) + length ss * length sep"
  by (induction ss arbitrary: s) (auto simp: join_with_Cons)

lemma join_body_ok:
  assumes malloc: "\<And>n. length (xmalloc n) = n"
    and "no_nul sep" "\<forall>x \<in> set items. no_nul x"
    and room: "length (join_with sep items) + slack < SIZE_MAX"
  shows "join_body xmalloc slack items sep = Some (join_with sep items @ [NUL])"
proof (cases items)
  case Nil
  then show ?thesis by (simp add: join_body_def)
next
  case (Cons a ss)
  define total where "total = length (join_with sep items)"
  have total: "total = sum_list (map length items) + length ss * length sep"
    unfolding total_def Cons join_with_length by simp
  have js: "join_size slack items 0 = Some (sum_list (map length items))"
    using join_size_ok[of 0 items slack] room total by (simp add: total_def)
  have sm: "length ss * length sep + 1 < 2 ^ 64"
    "SIZE_MAX - sum_list (map length items) \<ge> length ss * length sep + 1"
    using room total by (auto simp: total_def SIZE_MAX_def)
  have cat: "join_with sep items = a @ concat (map (\<lambda>t. sep @ t) ss)"
    unfolding Cons by (rule join_with_concat)
  then have "length a < total + 1" by (simp add: total_def)
  then have cp: "strlcpy (xmalloc (total + 1)) a (total + 1) =
      Some (a @ NUL # drop (Suc (length a)) (xmalloc (total + 1)), length a)"
    using strlcpy_fits[of "total + 1" "xmalloc (total + 1)" a] malloc by (simp add: min_def)
  obtain r' where r': "join_cat (a @ NUL # drop (Suc (length a)) (xmalloc (total + 1))) sep ss (total + 1) =
      Some (a @ concat (map (\<lambda>t. sep @ t) ss) @ NUL # r')"
      "length (a @ concat (map (\<lambda>t. sep @ t) ss) @ NUL # r') = total + 1"
    using join_cat_ok[of a sep ss "total + 1" "drop (Suc (length a)) (xmalloc (total + 1))"]
      assms(2,3) Cons malloc \<open>length a < total + 1\<close> cat by (auto simp: total_def)
  then have "r' = []" using cat by (simp add: total_def)
  then show ?thesis
    using js sm cp r'(1) cat total by (simp add: join_body_def Let_def Cons)
qed

lemma vector_join_ok:
  assumes "vec_inv v" "\<And>n. length (xmalloc n) = n" "no_nul sep" "\<forall>x \<in> set (vec_items v). no_nul x"
    "length (join_with sep (vec_items v)) + length sep + 1 < SIZE_MAX"
  shows "vector_join xmalloc v sep = Some (join_with sep (vec_items v) @ [NUL])"
  using join_body_ok[OF assms(2-4), of "length sep + 1"] assms(5) vec_read_items[OF vec_inv_cvec_inv[OF assms(1)]]
  by (simp add: vector_join_def)

lemma cvector_join_ok:
  assumes "cvec_inv v" "\<And>n. length (xmalloc n) = n" "no_nul sep"
    "\<forall>p \<in> set (vec_items v). no_nul (deref p)"
    "length (join_with sep (map deref (vec_items v))) < SIZE_MAX"
  shows "cvector_join xmalloc deref v sep = Some (join_with sep (map deref (vec_items v)) @ [NUL])"
  using join_body_ok[OF assms(2,3), of "map deref (vec_items v)" 0] assms(4,5) vec_read_items[OF assms(1)]
  by (simp add: cvector_join_def)

lemma read_argv_ptrs: "read_argv (map Ptr xs @ Null # rest) = Some xs"
  by (induction xs) auto

lemma put_slot_end: "rest \<noteq> [] \<Longrightarrow> put_slot (map Ptr xs @ rest) (length xs) s = Some (map Ptr xs @ s # tl rest)"
  by (cases rest) (auto simp: put_slot_def list_update_append)

lemma vector_exec_ok:
  assumes "vec_inv v"
  shows "\<exists>v'. vector_exec execv path v = Some (execv path (vec_items v), v')
    \<and> vec_inv v' \<and> vec_items v' = vec_items v"
proof -
  obtain xs rest where v: "v = vec_of xs rest" "xs \<noteq> [] \<or> rest \<noteq> []" "list_all (\<lambda>s. \<not> is_ptr s) rest"
    using assms by (rule vec_cases)
  have "\<exists>r. (if v_allocated v = v_count v then vector_resize v (v_count v + 1) else Some v) = Some (vec_of xs r)
      \<and> r \<noteq> [] \<and> list_all (\<lambda>s. \<not> is_ptr s) r"
  proof (cases "rest = []")
    case True
    obtain r where "vector_resize (vec_of xs rest) (length xs + 1) = Some (vec_of xs r)"
      "list_all (\<lambda>s. \<not> is_ptr s) r" "length r = 1"
      using vector_resize_vec_of[OF v(2,3), of "length xs + 1"] by auto
    then show ?thesis using v True by auto
  qed (use v in auto)
  then obtain r where r: "(if v_allocated v = v_count v then vector_resize v (v_count v + 1) else Some v)
      = Some (vec_of xs r)" "r \<noteq> []" "list_all (\<lambda>s. \<not> is_ptr s) r" by blast
  have "vector_exec execv path v = Some (execv path xs, vec_of xs (Null # tl r))"
    using r put_slot_end[of r xs Null]
    by (cases r) (auto simp: vector_exec_def Let_def read_argv_ptrs intro!: vec_eqI)
  moreover have "vec_inv (vec_of xs (Null # tl r))" using r by (cases r) auto
  ultimately show ?thesis using v(1) by auto
qed

lemma cvector_exec_ok:
  assumes "cvec_inv v"
  shows "\<exists>v'. cvector_exec execv path v = Some (execv path (vec_items v), v')
    \<and> cvec_inv v' \<and> vec_items v' = vec_items v"
proof -
  obtain xs rest where v: "v = vec_of xs rest" "xs \<noteq> [] \<or> rest \<noteq> []"
    using assms by (rule cvec_cases)
  have "\<exists>r. (if v_allocated v = v_count v then cvector_resize v (v_count v + 1) else v) = vec_of xs r
      \<and> r \<noteq> []"
  proof (cases "rest = []")
    case True
    obtain r where "cvector_resize (vec_of xs rest) (length xs + 1) = vec_of xs r" "length r = 1"
      using cvector_resize_vec_of[OF v(2), of "length xs + 1"] by auto
    then show ?thesis using v True by auto
  qed (use v in auto)
  then obtain r where r: "(if v_allocated v = v_count v then cvector_resize v (v_count v + 1) else v)
      = vec_of xs r" "r \<noteq> []" by blast
  have "cvector_exec execv path v = Some (execv path xs, vec_of xs (Null # tl r))"
    using r put_slot_end[of r xs Null]
    by (cases r) (auto simp: cvector_exec_def Let_def read_argv_ptrs intro!: vec_eqI)
  then show ?thesis using v(1) by auto
qed

end
