(* ===== verification/Inet.thy ===== *)
theory Inet
  imports Machine VectorSplit
begin

text \<open>
  IPv4 addresses as text: \<open>portable/inet_aton.c\<close>, \<open>portable/inet_ntoa.c\<close> and
  \<open>portable/inet_ntop.c\<close>. The arithmetic of \<open>inet_aton\<close> is in \<open>unsigned long\<close>, whose width
  differs between platforms; it is the type argument of the model. The specification
  \<open>aton_spec\<close> reads the parts between the periods as unbounded numbers. The lemmas show that
  the code meets it when \<open>unsigned long\<close> is wider than 32 bits, and does not at 32 bits.
\<close>

unbundle bit_operations_syntax

section \<open>inet\_aton\<close>

text \<open>The \<open>switch\<close> over the digit characters.\<close>

text \<open>The switch over the digit: no case is \<open>None\<close>.\<close>

definition aton_digit :: "byte \<Rightarrow> nat option" where
  "aton_digit = map_of (zip ''0123456789'' [0..<10] @ zip ''ABCDEF'' [10..<16] @ zip ''abcdef'' [10..<16])"

text \<open>One part: the loop over its digits, up to a period or the end. \<open>None\<close> is \<open>return 0\<close>.\<close>

fun aton_segment :: "nat \<Rightarrow> 'l::len word \<Rightarrow> string \<Rightarrow> ('l word \<times> string) option" where
  "aton_segment base octet [] = Some (octet, [])"
| "aton_segment base octet (c # p) =
     (if c = CHR ''.'' then Some (octet, c # p)
      else if octet > 0xffffffff div of_nat base then None
      else (case aton_digit c of None \<Rightarrow> None
            | Some i \<Rightarrow> if i \<ge> base then None
                        else aton_segment base (octet * of_nat base + of_nat i) p))"

lemma aton_segment_rest: "aton_segment base octet p = Some (v, r) \<Longrightarrow> length r \<le> length p"
  by (induction base octet p rule: aton_segment.induct) (auto split: if_splits option.splits)

definition aton_base :: "string \<Rightarrow> nat \<times> string" where
  "aton_base p =
     (case p of CHR ''0'' # q \<Rightarrow>
        (case q of CHR ''x'' # r \<Rightarrow> (16, r) | _ \<Rightarrow> (8, q))
      | _ \<Rightarrow> (10, p))"

lemma aton_base_length: "length (snd (aton_base p)) \<le> length p"
  by (auto simp: aton_base_def split: list.splits char.splits bool.splits)

text \<open>The loop over the parts; the accumulator holds \<open>octet[0..part-1]\<close>.\<close>

function aton_parts :: "string \<Rightarrow> 'l::len word list \<Rightarrow> 'l word list option" where
  "aton_parts [] octets = Some octets"
| "aton_parts (c # p) octets =
     (if length octets > 3 then None
      else (let (base, q) = aton_base (c # p)
            in if (case q of d # _ \<Rightarrow> d = CHR ''.'' | [] \<Rightarrow> False) \<and> base \<noteq> 8 then None
               else (case aton_segment base 0 q of None \<Rightarrow> None
                     | Some (octet, r) \<Rightarrow>
                         (case r of [] \<Rightarrow> Some (octets @ [octet])
                          | _ # r' \<Rightarrow> if r' = [] then None
                                      else aton_parts r' (octets @ [octet])))))"
  by pat_completeness auto
termination
proof (relation "measure (\<lambda>(p, octets). length p)", goal_cases)
  case (2 c p octets)
  then show ?case
    using aton_base_length[of "c # p"] by (cases "aton_base (c # p)") (auto dest!: aton_segment_rest)
qed simp

fun aton_build :: "nat \<Rightarrow> 'l::len word list \<Rightarrow> 'l word \<Rightarrow> 'l word option" where
  "aton_build i [] address = None"
| "aton_build i [octet] address =
     (if octet > drop_bit (i * 8) 0xffffffff then None else Some (address OR octet))"
| "aton_build i (octet # octets) address =
     (if octet > 0xff then None
      else aton_build (i + 1) octets (address OR push_bit (8 * (3 - i)) octet))"

definition inet_aton :: "'l::len itself \<Rightarrow> endian \<Rightarrow> string option \<Rightarrow> u32 option" where
  "inet_aton ulong e s =
     (case s of None \<Rightarrow> None
      | Some p \<Rightarrow>
          (case aton_parts p ([] :: 'l word list) of None \<Rightarrow> None
           | Some octets \<Rightarrow>
               if octets = [] then None
               else map_option (\<lambda>a. htonl e (ucast a)) (aton_build 0 octets 0)))"

section \<open>inet\_ntoa and inet\_ntop\<close>

definition inet_ntoa :: "endian \<Rightarrow> u32 \<Rightarrow> string" where
  "inet_ntoa e s_addr =
     (let p = mem32 e s_addr
      in show_nat (of_char (p ! 0)) @ ''.'' @ show_nat (of_char (p ! 1)) @ ''.''
         @ show_nat (of_char (p ! 2)) @ ''.'' @ show_nat (of_char (p ! 3)))"

definition INET_ADDRSTRLEN :: nat where
  "INET_ADDRSTRLEN = 16"

definition inet_ntop :: "endian \<Rightarrow> family \<Rightarrow> u32 \<Rightarrow> nat \<Rightarrow> errno + string" where
  "inet_ntop e af src dstsize =
     (if af \<noteq> AF_INET then Inl EAFNOSUPPORT
      else if dstsize < INET_ADDRSTRLEN then Inl ENOSPC
      else (let p = mem32 e src
            in Inr (show_nat (of_char (p ! 0)) @ ''.'' @ show_nat (of_char (p ! 1)) @ ''.''
                    @ show_nat (of_char (p ! 2)) @ ''.'' @ show_nat (of_char (p ! 3)))))"


section \<open>What a part is worth\<close>

text \<open>The value of a digit string in a base, unbounded; \<open>None\<close> if a digit is not one.\<close>

fun num_val :: "nat \<Rightarrow> nat \<Rightarrow> string \<Rightarrow> nat option" where
  "num_val base acc [] = Some acc"
| "num_val base acc (c # s) =
     (case aton_digit c of None \<Rightarrow> None
      | Some d \<Rightarrow> if d < base then num_val base (acc * base + d) s else None)"

definition part_val :: "string \<Rightarrow> nat option" where
  "part_val s = (if s = [] then None else case aton_base s of (base, q) \<Rightarrow> num_val base 0 q)"

abbreviation ADDR_MAX :: nat where
  "ADDR_MAX \<equiv> 0xffffffff"

text \<open>A bare \<open>0x\<close> counts as a number when nothing follows it, and is rejected before a period.\<close>

fun part_vals :: "string list \<Rightarrow> nat list option" where
  "part_vals [] = Some []"
| "part_vals [p] = map_option (\<lambda>v. [v]) (part_val p)"
| "part_vals (p # q # ps) =
     (if p = ''0x'' then None
      else do { v \<leftarrow> part_val p; vs \<leftarrow> part_vals (q # ps); Some (v # vs) })"

text \<open>All parts but the last are single bytes; the last fills what is left of the address.\<close>

fun build_spec :: "nat \<Rightarrow> nat list \<Rightarrow> nat \<Rightarrow> nat option" where
  "build_spec i [] a = None"
| "build_spec i [v] a = (if v < 256 ^ (4 - i) then Some (a + v) else None)"
| "build_spec i (v # vs) a = (if v < 256 then build_spec (i + 1) vs (a + v * 256 ^ (3 - i)) else None)"

definition aton_spec :: "string \<Rightarrow> nat option" where
  "aton_spec s =
     (let ps = segments (CHR ''.'') s
      in if s = [] \<or> length ps > 4 then None
         else (case part_vals ps of None \<Rightarrow> None | Some vs \<Rightarrow> build_spec 0 vs 0))"

section \<open>The code meets the specification\<close>

lemma num_val_mono: "num_val base acc s = Some v \<Longrightarrow> 1 \<le> base \<Longrightarrow> acc \<le> v"
proof (induction base acc s rule: num_val.induct)
  case (2 base acc c s)
  then obtain d where "num_val base (acc * base + d) s = Some v" "d < base" "aton_digit c = Some d"
    by (auto split: option.splits if_splits)
  with 2 have "acc * base + d \<le> v" by blast
  moreover have "acc \<le> acc * base" using 2(3) by simp
  ultimately show ?case by linarith
qed simp

lemma aton_digit_less: "aton_digit c = Some d \<Longrightarrow> d < 16"
  unfolding aton_digit_def by (drule map_of_SomeD) (auto dest!: set_zip_rightD)

lemma aton_base_cases: "fst (aton_base p) \<in> {8, 10, 16}"
  by (auto simp: aton_base_def split: list.splits char.splits bool.splits)

text \<open>
  One step of the digit loop cannot wrap around: the check before the multiplication leaves room
  for the digit when the word is wider than 32 bits.
\<close>

lemma wide_word: "32 < LENGTH('l::len) \<Longrightarrow> (8589934592::nat) \<le> 2 ^ LENGTH('l)"
  using power_increasing[of 33 "LENGTH('l)" "2::nat"] by simp

lemma unat_of_small:
  assumes "32 < LENGTH('l::len)" "n < 8589934592" shows "unat (of_nat n :: 'l word) = n"
proof -
  have "n < 2 ^ LENGTH('l)" using wide_word[OF assms(1)] assms(2) by linarith
  then show ?thesis by (simp only: unat_of_nat mod_less)
qed

lemma unat_ADDR_MAX: "32 < LENGTH('l::len) \<Longrightarrow> unat (0xffffffff :: 'l word) = ADDR_MAX"
  using unat_of_small[of ADDR_MAX] by simp

lemma segment_step:
  fixes octet :: "'l::len word"
  assumes w: "32 < LENGTH('l)" and b: "base \<in> {8, 10, 16}" and d: "d < base"
    and le: "\<not> octet > 0xffffffff div of_nat base"
  shows "unat (octet * of_nat base + of_nat d) = unat octet * base + d"
    and "unat octet * base \<le> ADDR_MAX"
proof -
  note p = wide_word[OF w] and m = unat_ADDR_MAX[OF w]
  have bb: "unat (of_nat base :: 'l word) = base"
    using b by (intro unat_of_small[OF w]) auto
  have "unat octet \<le> unat (0xffffffff div of_nat base :: 'l word)"
    using le by (simp add: not_less word_le_nat_alt)
  then have o: "unat octet \<le> ADDR_MAX div base"
    by (simp only: unat_div m bb)
  then have "unat octet * base \<le> ADDR_MAX div base * base" by (rule mult_right_mono) simp
  then show le2: "unat octet * base \<le> ADDR_MAX"
    using div_times_less_eq_dividend[of ADDR_MAX base] le_trans by blast
  have "d < 16" using b d by auto
  then have lt: "unat octet * base + d < 2 ^ LENGTH('l)" using le2 p by linarith
  have "octet * of_nat base + of_nat d = (of_nat (unat octet * base + d) :: 'l word)" by simp
  then have "unat (octet * of_nat base + of_nat d) = unat (of_nat (unat octet * base + d) :: 'l word)"
    by simp
  also have "\<dots> = unat octet * base + d" using lt by (simp only: unat_of_nat mod_less)
  finally show "unat (octet * of_nat base + of_nat d) = unat octet * base + d" .
qed

lemma segment_stop:
  fixes octet :: "'l::len word"
  assumes w: "32 < LENGTH('l)" and b: "base \<in> {8, 10, 16}"
    and gt: "octet > 0xffffffff div of_nat base"
  shows "ADDR_MAX < unat octet * base"
proof -
  note p = wide_word[OF w] and m = unat_ADDR_MAX[OF w]
  have bb: "unat (of_nat base :: 'l word) = base"
    using b by (intro unat_of_small[OF w]) auto
  have "unat (0xffffffff div of_nat base :: 'l word) < unat octet"
    using gt by (simp add: word_less_nat_alt)
  then have "ADDR_MAX div base < unat octet" by (simp only: unat_div m bb)
  moreover have "0 < base" using b by auto
  ultimately show ?thesis by (simp add: div_less_iff_less_mult)
qed

lemma aton_segment_ok:
  fixes octet :: "'l::len word"
  assumes w: "32 < LENGTH('l)" and b: "base \<in> {8, 10, 16}"
    and "CHR ''.'' \<notin> set seg" "rest = [] \<or> hd rest = CHR ''.''"
  shows "(aton_segment base octet (seg @ rest) = None
       \<and> (\<forall>v. num_val base (unat octet) seg = Some v \<longrightarrow> ADDR_MAX < v))
    \<or> (\<exists>octet'. aton_segment base octet (seg @ rest) = Some (octet', rest)
       \<and> num_val base (unat octet) seg = Some (unat octet'))"
  using assms(3)
proof (induction seg arbitrary: octet)
  case Nil
  then show ?case using assms(4) by (cases rest) auto
next
  case (Cons c seg)
  have b1: "1 \<le> base" using b by auto
  show ?case
  proof (cases "octet > 0xffffffff div of_nat base")
    case True
    have "ADDR_MAX < unat octet * base" by (rule segment_stop[OF w b True])
    then have "\<forall>v. num_val base (unat octet) (c # seg) = Some v \<longrightarrow> ADDR_MAX < v"
      using num_val_mono[OF _ b1] by (fastforce split: option.splits if_splits)
    then show ?thesis using True Cons.prems by auto
  next
    case False
    show ?thesis
    proof (cases "aton_digit c")
      case None
      then show ?thesis using False Cons.prems by auto
    next
      case (Some d)
      show ?thesis
      proof (cases "d < base")
        case False
        then show ?thesis using \<open>\<not> octet > _\<close> Some Cons.prems by auto
      next
        case True
        have "unat (octet * of_nat base + of_nat d) = unat octet * base + d"
          by (rule segment_step(1)[OF w b True \<open>\<not> octet > _\<close>])
        then show ?thesis
          using Cons.IH[of "octet * of_nat base + of_nat d"] \<open>\<not> octet > _\<close> Some True Cons.prems
          by auto
      qed
    qed
  qed
qed


lemma segments_single: "sep \<notin> set seg \<Longrightarrow> segments sep seg = [seg]"
  using segments_prefix[of sep seg "[]"] by simp

lemma segments_cut: "sep \<notin> set seg \<Longrightarrow> segments sep (seg @ sep # r) = seg # segments sep r"
  using segments_prefix[of sep seg "sep # r"] by simp

lemma aton_base_append:
  assumes "seg \<noteq> []" "rest = [] \<or> hd rest = CHR ''.''"
  shows "aton_base (seg @ rest) = (fst (aton_base seg), snd (aton_base seg) @ rest)"
proof -
  obtain c seg' where seg: "seg = c # seg'" using assms(1) by (cases seg) auto
  show ?thesis
  proof (cases "c = CHR ''0''")
    case False
    then show ?thesis unfolding seg aton_base_def by (auto split: char.splits bool.splits)
  next
    case True
    show ?thesis
    proof (cases seg')
      case Nil
      then show ?thesis using assms(2) True seg
        by (cases rest) (auto simp: aton_base_def)
    next
      case (Cons d seg'')
      then show ?thesis using True seg
        by (cases "d = CHR ''x''") (auto simp: aton_base_def split: char.splits bool.splits)
    qed
  qed
qed

lemma aton_base_set: "set (snd (aton_base seg)) \<subseteq> set seg"
  by (auto simp: aton_base_def split: list.splits char.splits bool.splits)

lemma aton_base_dot:
  assumes "seg \<noteq> []" "CHR ''.'' \<notin> set seg"
  shows "snd (aton_base seg) = [] \<and> fst (aton_base seg) \<noteq> 8 \<longleftrightarrow> seg = ''0x''"
  using assms by (auto simp: aton_base_def split: list.splits char.splits bool.splits)

definition too_big :: "nat list \<Rightarrow> bool" where
  "too_big vs \<longleftrightarrow> (\<exists>v \<in> set vs. ADDR_MAX < v)"

definition parts_bad :: "nat \<Rightarrow> string list \<Rightarrow> bool" where
  "parts_bad n ps \<longleftrightarrow> 4 < n + length ps \<or> (\<forall>vs. part_vals ps = Some vs \<longrightarrow> too_big vs)"

lemma split_seg:
  assumes "p \<noteq> []"
  obtains seg rest where "p = seg @ rest" "CHR ''.'' \<notin> set seg" "rest = [] \<or> hd rest = CHR ''.''"
proof (rule that[of "takeWhile (\<lambda>c. c \<noteq> CHR ''.'') p" "dropWhile (\<lambda>c. c \<noteq> CHR ''.'') p"])
  show "dropWhile (\<lambda>c. c \<noteq> CHR ''.'') p = [] \<or> hd (dropWhile (\<lambda>c. c \<noteq> CHR ''.'') p) = CHR ''.''"
    using hd_dropWhile[of "\<lambda>c. c \<noteq> CHR ''.''" p] by blast
qed (auto dest: set_takeWhileD)

lemma parts_bad_Cons:
  "parts_bad (Suc n) qs \<Longrightarrow> qs \<noteq> [] \<Longrightarrow> parts_bad n (p # qs)"
  by (cases qs) (auto simp: parts_bad_def too_big_def split: bind_splits if_splits)

lemma part_val_nonempty: "seg \<noteq> [] \<Longrightarrow> part_val seg = num_val (fst (aton_base seg)) 0 (snd (aton_base seg))"
  by (simp add: part_val_def split_beta)

lemma part_vals_first:
  "part_vals (p # ps) = Some vs \<Longrightarrow> \<exists>v vs'. part_val p = Some v \<and> vs = v # vs'"
  by (cases ps) (auto split: bind_splits if_splits)

lemma aton_parts_ok:
  fixes os :: "'l::len word list"
  assumes w: "32 < LENGTH('l)"
  shows "p \<noteq> [] \<Longrightarrow>
    (aton_parts p os = None \<and> parts_bad (length os) (segments (CHR ''.'') p))
    \<or> (\<exists>os'. aton_parts p os = Some (os @ os') \<and> os' \<noteq> []
         \<and> part_vals (segments (CHR ''.'') p) = Some (map unat os')
         \<and> length os + length (segments (CHR ''.'') p) \<le> 4)"
proof (induction "length p" arbitrary: p os rule: less_induct)
  case less
  obtain seg rest where p: "p = seg @ rest" and nd: "CHR ''.'' \<notin> set seg"
    and r: "rest = [] \<or> hd rest = CHR ''.''"
    by (rule split_seg[OF less.prems])
  obtain c t where ct: "p = c # t" using less.prems by (cases p) auto
  show ?case
  proof (cases "length os > 3")
    case True
    then have "aton_parts p os = None" by (simp add: ct)
    moreover have "length (segments (CHR ''.'') p) \<ge> 1" by (simp add: length_segments)
    ultimately show ?thesis using True by (auto simp: parts_bad_def)
  next
    case False
    note nl = False
    show ?thesis
    proof (cases "seg = []")
      case True
      then obtain t' where "p = CHR ''.'' # t'" using p r less.prems by (cases rest) auto
      moreover have "part_val [] = None" by (simp add: part_val_def)
      moreover have "aton_base p = (10, p)" using \<open>p = CHR ''.'' # t'\<close> by (simp add: aton_base_def)
      ultimately have "aton_parts p os = None" "segments (CHR ''.'') p = [] # segments (CHR ''.'') t'"
        using segments_cut[of "CHR ''.''" "[]" t'] by auto
      then show ?thesis using part_vals_first[of "[]"] \<open>part_val [] = None\<close>
        by (fastforce simp: parts_bad_def)
    next
      case False
      define b where "b = fst (aton_base seg)"
      define q where "q = snd (aton_base seg)"
      have base: "aton_base p = (b, q @ rest)"
        using aton_base_append[OF False r] p by (simp add: b_def q_def)
      have b: "b \<in> {8, 10, 16}" using aton_base_cases[of seg] by (simp add: b_def)
      have qd: "CHR ''.'' \<notin> set q" using nd aton_base_set[of seg] by (auto simp: q_def)
      have pv: "part_val seg = num_val b 0 q" using part_val_nonempty[OF False] by (simp add: b_def q_def)
      have dot: "q = [] \<and> b \<noteq> 8 \<longleftrightarrow> seg = ''0x''" using aton_base_dot[OF False nd] by (simp add: b_def q_def)
      have chk: "(case q @ rest of d # _ \<Rightarrow> d = CHR ''.'' | [] \<Rightarrow> False) \<and> b \<noteq> 8
        \<longleftrightarrow> rest \<noteq> [] \<and> seg = ''0x''"
        using dot qd r by (cases q; cases rest) auto
      have eq: "aton_parts p os = (if rest \<noteq> [] \<and> seg = ''0x'' then None
          else (case aton_segment b 0 (q @ rest) of None \<Rightarrow> None
            | Some (octet, r) \<Rightarrow> (case r of [] \<Rightarrow> Some (os @ [octet])
                | _ # r' \<Rightarrow> if r' = [] then None else aton_parts r' (os @ [octet]))))"
        using nl base chk unfolding ct by (simp only: aton_parts.simps Let_def case_prod_conv) auto
      show ?thesis
      proof (cases rest)
        case Nil
        then have sg: "segments (CHR ''.'') p = [seg]" using p segments_single[OF nd] by simp
        from aton_segment_ok[OF w b qd r, of 0] show ?thesis
        proof (elim disjE exE conjE)
          assume 1: "aton_segment b (0 :: 'l word) (q @ rest) = None" "\<forall>v. num_val b (unat (0 :: 'l word)) q = Some v \<longrightarrow> ADDR_MAX < v"
          then have "aton_parts p os = None" using eq by simp
          then show ?thesis using 1 sg pv by (auto simp: parts_bad_def too_big_def)
        next
          fix o' assume "aton_segment b (0 :: 'l word) (q @ rest) = Some (o', rest)" "num_val b (unat (0 :: 'l word)) q = Some (unat o')"
          then show ?thesis using eq sg pv Nil nl by auto
        qed
      next
        case (Cons d t')
        then have d: "d = CHR ''.''" using r by simp
        have sg: "segments (CHR ''.'') p = seg # segments (CHR ''.'') t'"
          using p Cons d segments_cut[OF nd, of t'] by simp
        obtain s1 ss where s1: "segments (CHR ''.'') t' = s1 # ss"
          by (cases "segments (CHR ''.'') t'") auto
        show ?thesis
        proof (cases "seg = ''0x''")
          case True
          then show ?thesis using eq Cons sg s1 by (auto simp: parts_bad_def)
        next
          case False
          from aton_segment_ok[OF w b qd r, of 0] show ?thesis
          proof (elim disjE exE conjE)
            assume 1: "aton_segment b (0 :: 'l word) (q @ rest) = None" "\<forall>v. num_val b (unat (0 :: 'l word)) q = Some v \<longrightarrow> ADDR_MAX < v"
            then show ?thesis using eq sg s1 pv False
              by (auto simp: parts_bad_def too_big_def split: bind_splits)
          next
            fix o' assume 2: "aton_segment b (0 :: 'l word) (q @ rest) = Some (o', rest)" "num_val b (unat (0 :: 'l word)) q = Some (unat o')"
            show ?thesis
            proof (cases "t' = []")
              case True
              then have "segments (CHR ''.'') p = [seg, []]" using sg segments_single[of "CHR ''.''" "[]"] by simp
              then show ?thesis using eq 2 Cons True False by (auto simp: parts_bad_def part_val_def split: bind_splits)
            next
              case False
              have eq2: "aton_parts p os = aton_parts t' (os @ [o'])"
                using eq 2 Cons \<open>seg \<noteq> ''0x''\<close> False by simp
              have lt: "length t' < length p" using p Cons by simp
              from less.hyps[OF lt False, of "os @ [o']"] show ?thesis
                using parts_bad_Cons[of "length os" "segments (CHR ''.'') t'" seg] segments_nonempty(1)[of "CHR ''.''" t']
                  eq2 sg s1 pv 2 \<open>seg \<noteq> ''0x''\<close> by auto
            qed
          qed
        qed
      qed
    qed
  qed
qed

text \<open>Filling the address from the left: the bits written so far and the next byte are disjoint.\<close>

lemma or_add_push:
  fixes a b :: "'l::len word"
  assumes "2 ^ k dvd unat a" "unat b < 2 ^ k"
  shows "unat (a OR b) = unat a + unat b"
proof -
  have "unat a AND mask k = 0" using assms(1) by (simp add: take_bit_eq_mask[symmetric] take_bit_eq_0_iff)
  moreover have "unat b AND mask k = unat b" using assms(2) by (simp add: take_bit_eq_mask[symmetric] take_bit_nat_eq_self)
  ultimately have "unat a AND unat b = 0"
    by (metis and.assoc and.commute and_zero_eq)
  then have "unat a + unat b = unat a OR unat b"
    by (intro disjunctive_add) (metis bit_and_iff bit_0_eq bot_apply bot_bool_def)
  then show ?thesis by (simp add: unsigned_or_eq)
qed

lemma part_vals_length: "part_vals ps = Some vs \<Longrightarrow> length vs = length ps"
  by (induction ps arbitrary: vs rule: part_vals.induct) (auto split: bind_splits if_splits)

lemma too_big_build: "too_big vs \<Longrightarrow> build_spec i vs a = None"
proof (induction i vs a rule: build_spec.induct)
  case (2 i v a)
  have "(256::nat) ^ (4 - i) \<le> 256 ^ 4" by (rule power_increasing) auto
  with 2 show ?case by (auto simp: too_big_def)
qed (auto simp: too_big_def)

lemma build_ok:
  fixes a :: "'l::len word"
  assumes w: "32 < LENGTH('l)"
  shows "i + length os \<le> 4 \<Longrightarrow> 2 ^ (8 * (4 - i)) dvd unat a \<Longrightarrow> unat a + 2 ^ (8 * (4 - i)) \<le> 2 ^ 32 \<Longrightarrow>
    map_option unat (aton_build i os a) = build_spec i (map unat os) (unat a)
    \<and> (\<forall>r. aton_build i os a = Some r \<longrightarrow> unat r < 2 ^ 32)"
proof (induction i os a rule: aton_build.induct)
  case (1 i a)
  then show ?case by simp
next
  case (2 i o' a)
  have i: "i \<in> {0, 1, 2, 3}" using 2(1) by auto
  have "unat (drop_bit (i * 8) 0xffffffff :: 'l word) = 256 ^ (4 - i) - 1"
    using i by (auto simp only: unat_drop_bit_eq unat_ADDR_MAX[OF w]) (simp_all add: drop_bit_eq_div)
  then have c: "o' > drop_bit (i * 8) 0xffffffff \<longleftrightarrow> \<not> unat o' < 2 ^ (8 * (4 - i))"
    using i by (auto simp only: word_less_nat_alt) auto
  have p: "(256::nat) ^ (4 - i) = 2 ^ (8 * (4 - i))" by (simp add: power_mult)
  show ?case
  proof (cases "unat o' < 2 ^ (8 * (4 - i))")
    case True
    then show ?thesis using c p or_add_push[OF 2(2) True] 2(3) by (simp del: power_mult)
  next
    case False
    then show ?thesis using c p by simp
  qed
next
  case (3 i o' q qs a)
  have i: "i \<in> {0, 1, 2}" using 3(2) by auto
  have c: "o' > 0xff \<longleftrightarrow> \<not> unat o' < 256"
  proof -
    have "unat (0xff :: 'l word) = 255" using unat_of_small[OF w, of 255] by simp
    then show ?thesis by (simp only: word_less_nat_alt) auto
  qed
  show ?case
  proof (cases "unat o' < 256")
    case False
    then show ?thesis using c by simp
  next
    case True
    define k where "k = 8 * (3 - i)"
    have k: "8 * (4 - i) = k + 8" "8 * (4 - (i + 1)) = k" "k \<le> 24" using i by (auto simp: k_def)
    have lt: "unat o' * 2 ^ k < 2 ^ (k + 8)" using True by (simp add: power_add)
    moreover have "(2::nat) ^ (k + 8) \<le> 4294967296"
      using power_increasing[of "k + 8" 32 "2::nat"] k(3) by simp
    ultimately have "unat o' * 2 ^ k < 2 ^ LENGTH('l)" using wide_word[OF w] by linarith
    then have ps: "unat (push_bit k o') = unat o' * 2 ^ k"
      by (simp only: unsigned_push_bit_eq) (simp add: push_bit_eq_mult take_bit_nat_eq_self)
    have "unat (a OR push_bit k o') = unat a + unat o' * 2 ^ k"
      using or_add_push[of "k + 8" a "push_bit k o'"] 3(3) k(1) ps lt by simp
    moreover have "2 ^ k dvd unat a" using 3(3) k(1) by (metis dvd_mult_left power_add)
    moreover have "unat a + unat o' * 2 ^ k + 2 ^ k \<le> 2 ^ 32"
    proof -
      have "unat o' * 2 ^ k + 2 ^ k = (unat o' + 1) * 2 ^ k" by simp
      also have "\<dots> \<le> 256 * 2 ^ k" using True by (intro mult_right_mono) auto
      finally have "unat o' * 2 ^ k + 2 ^ k \<le> 2 ^ k * 256" by (simp only: mult.commute)
      moreover have "unat a + 2 ^ k * 256 \<le> 2 ^ 32" using 3(4) k(1) by (simp add: power_add)
      ultimately show ?thesis by linarith
    qed
    moreover have "(256::nat) ^ (3 - i) = 2 ^ k" by (simp add: k_def power_mult)
    ultimately show ?thesis using True c 3(1) 3(2) k by (simp add: k_def)
  qed
qed

lemma inet_aton_ok:
  assumes "32 < LENGTH('l::len)"
  shows "map_option (\<lambda>a. unat (ntohl e a)) (inet_aton TYPE('l) e (Some s)) = aton_spec s"
proof (cases "s = []")
  case True
  then show ?thesis by (simp add: inet_aton_def aton_spec_def)
next
  case False
  from aton_parts_ok[OF assms False, of "[]"] show ?thesis
  proof (elim disjE exE conjE)
    assume "aton_parts s ([] :: 'l word list) = None" "parts_bad (length ([] :: 'l word list)) (segments (CHR ''.'') s)"
    then show ?thesis using False too_big_build
      by (auto simp: inet_aton_def aton_spec_def parts_bad_def Let_def split: option.splits)
  next
    fix os' :: "'l word list"
    assume *: "aton_parts s [] = Some ([] @ os')" "os' \<noteq> []"
      "part_vals (segments (CHR ''.'') s) = Some (map unat os')"
      "length ([] :: 'l word list) + length (segments (CHR ''.'') s) \<le> 4"
    have len: "length os' \<le> 4" using *(3,4) part_vals_length by fastforce
    have b: "map_option unat (aton_build 0 os' 0) = build_spec 0 (map unat os') 0"
       "\<forall>r. aton_build 0 os' 0 = Some r \<longrightarrow> unat r < 2 ^ 32"
      using build_ok[OF assms, of 0 os' 0] len by auto
    have "unat (ucast r :: u32) = unat r" if "aton_build 0 os' 0 = Some r" for r :: "'l word"
      using b(2) that by (simp add: unsigned_ucast_eq take_bit_nat_eq_self)
    then show ?thesis using * b False
      by (cases "aton_build 0 os' 0") (auto simp: inet_aton_def aton_spec_def)
  qed
qed

section \<open>Printing and reading back\<close>

lemma aton_digit_table: "\<forall>n \<in> set [48..<58]. aton_digit (char_of n) = Some (digit_val (char_of n))"
  by code_simp

lemma aton_digit_isdigit:
  assumes "c_isdigit c" shows "aton_digit c = Some (digit_val c)"
proof -
  have "(of_char c :: nat) \<in> set [48..<58]"
    using assms unfolding c_isdigit_def set_upt atLeastLessThan_iff by linarith
  then show ?thesis using aton_digit_table by fastforce
qed

lemma num_val_digits:
  "\<forall>c \<in> set ds. c_isdigit c \<Longrightarrow> num_val 10 acc ds = Some (foldl (\<lambda>a c. 10 * a + digit_val c) acc ds)"
  by (induction ds arbitrary: acc) (auto simp: aton_digit_isdigit digit_val_less mult.commute)

lemma digit_char_0: "digit_char 0 = CHR ''0''"
  by code_simp

lemma show_nat_zero_head: "hd (show_nat n) = CHR ''0'' \<Longrightarrow> n = 0"
proof (induction n rule: show_nat.induct)
  case (1 n)
  show ?case
  proof (cases "n < 10")
    case True
    then have "digit_val (hd (show_nat n)) = n" by (simp add: show_nat.simps[of n])
    then show ?thesis using 1(2) by (simp add: digit_val_def)
  next
    case False
    then have "n div 10 = 0" using 1 by (simp add: show_nat.simps[of n])
    then show ?thesis using False by auto
  qed
qed

lemma aton_base_decimal: "c \<noteq> CHR ''0'' \<Longrightarrow> aton_base (c # t) = (10, c # t)"
  unfolding aton_base_def by (auto split: char.splits bool.splits)

lemma part_val_show_nat: "part_val (show_nat n) = Some n"
proof (cases "n = 0")
  case True
  moreover have "show_nat 0 = ''0''" by code_simp
  moreover have "part_val ''0'' = Some 0" by code_simp
  ultimately show ?thesis by simp
next
  case False
  obtain c t where ct: "show_nat n = c # t" using show_nat_nonempty[of n] by (cases "show_nat n") auto
  then have "c \<noteq> CHR ''0''" using show_nat_zero_head[of n] False by auto
  then have "aton_base (show_nat n) = (10, show_nat n)" unfolding ct by (rule aton_base_decimal)
  then show ?thesis using num_val_digits[OF show_nat_digits, of 0 n] digits_val_show_nat[of n]
    by (simp add: part_val_def digits_val_def)
qed

lemma show_nat_no_dot: "CHR ''.'' \<notin> set (show_nat n)" "show_nat n \<noteq> ''0x''"
proof -
  show "CHR ''.'' \<notin> set (show_nat n)" using show_nat_digits[of n] c_isdigit_sign by blast
  have "CHR ''x'' \<notin> set (show_nat n)" using show_nat_digits[of n] by (auto simp: c_isdigit_def)
  then show "show_nat n \<noteq> ''0x''" by auto
qed

lemma ntoa_be: "inet_ntoa e (htonl e a) =
   show_nat (unat a div 256 div 256 div 256) @ ''.'' @ show_nat (unat a div 256 div 256 mod 256) @ ''.''
   @ show_nat (unat a div 256 mod 256) @ ''.'' @ show_nat (unat a mod 256)"
proof -
  have "unat a div 256 div 256 div 256 < 256"
    using unat_u32_less[of a] by (simp add: less_mult_imp_div_less)
  then show ?thesis by (simp add: inet_ntoa_def be32_def del: div_mult2_eq)
qed

lemma build_quad:
  "v1 < 256 \<Longrightarrow> v2 < 256 \<Longrightarrow> v3 < 256 \<Longrightarrow> v4 < 256 \<Longrightarrow>
   build_spec 0 [v1, v2, v3, v4] 0 = Some (cat4 v1 v2 v3 v4)"
  by (simp add: cat4_def cat2_def)

lemma aton_spec_quad:
  assumes "v1 < 256" "v2 < 256" "v3 < 256" "v4 < 256"
  shows "aton_spec (show_nat v1 @ ''.'' @ show_nat v2 @ ''.'' @ show_nat v3 @ ''.'' @ show_nat v4)
    = Some (cat4 v1 v2 v3 v4)"
proof -
  have "segments (CHR ''.'') (show_nat v1 @ ''.'' @ show_nat v2 @ ''.'' @ show_nat v3 @ ''.'' @ show_nat v4)
    = [show_nat v1, show_nat v2, show_nat v3, show_nat v4]"
    by (simp add: segments_cut segments_single show_nat_no_dot)
  then show ?thesis unfolding aton_spec_def Let_def
    by (simp add: show_nat_no_dot part_val_show_nat build_quad[OF assms] del: build_spec.simps)
qed

lemma aton_spec_ntoa: "aton_spec (inet_ntoa e (htonl e a)) = Some (unat a)"
proof -
  have "unat a div 256 div 256 div 256 < 256"
    using unat_u32_less[of a] by (simp add: less_mult_imp_div_less)
  from aton_spec_quad[OF this, of "unat a div 256 div 256 mod 256" "unat a div 256 mod 256" "unat a mod 256"]
  show ?thesis unfolding ntoa_be by (simp only: cat4_split mod_less_divisor zero_less_numeral)
qed

lemma ntoa_length: "length (inet_ntoa e a) < INET_ADDRSTRLEN"
proof -
  have 3: "length (show_nat (of_char c)) \<le> 3" for c
    using show_nat_length[of 3 "of_char c"] nat_of_char_less_256[of c] by simp
  show ?thesis
    using 3[of "mem32 e a ! 0"] 3[of "mem32 e a ! 1"] 3[of "mem32 e a ! 2"] 3[of "mem32 e a ! 3"]
    by (simp add: inet_ntoa_def INET_ADDRSTRLEN_def Let_def)
qed

lemma htonl_ntohl [simp]: "htonl e (ntohl e w) = w"
  by (metis ntohl_def ntohl_htonl)

lemma aton_ntoa: "inet_aton TYPE(64) e (Some (inet_ntoa e a)) = Some a"
proof -
  obtain b where b: "a = htonl e b" using htonl_ntohl by metis
  have "map_option (\<lambda>a. unat (ntohl e a)) (inet_aton TYPE(64) e (Some (inet_ntoa e a))) = Some (unat b)"
    using inet_aton_ok[where 'l = 64, of e "inet_ntoa e a"] aton_spec_ntoa[of e b] b by simp
  then obtain c where c: "inet_aton TYPE(64) e (Some (inet_ntoa e a)) = Some c" "unat (ntohl e c) = unat b" by auto
  then have "ntohl e c = b" by (simp only: word_unat_eq_iff)
  then show ?thesis using c(1) b htonl_ntohl by metis
qed

end
