(* ===== verification/Os.thy ===== *)
theory Os
  imports Inet "HOL-Library.Monad_Syntax"
begin

text \<open>
  The world outside the program. Every system call, and every call of a C library function whose
  code is not in the repository and whose answer depends on the machine, is a value of type
  \<open>call\<close>; a \<open>kernel\<close> answers it with a \<open>ret\<close>, which may depend on everything that was called and
  answered before. The state of a running program holds that history and \<open>errno\<close>; the statics of
  the server extend it. Nothing is assumed of a kernel: what a theorem needs is a hypothesis.
\<close>

section \<open>Addresses\<close>

text \<open>Address and port are as in the C structs: 32 and 16 bits in network byte order.\<close>

datatype sockaddr = SIn (sin_addr: u32) (sin_port: u16)
  | SIn6 (sin6_addr: bytes) (sin6_port: u16)
  | SOther (sa_other: nat)

fun sa_family :: "sockaddr \<Rightarrow> family" where
  "sa_family (SIn _ _) = AF_INET"
| "sa_family (SIn6 _ _) = AF_INET6"
| "sa_family (SOther f) = AF_OTHER f"

datatype socktype = SOCK_STREAM | SOCK_DGRAM | SOCK_ANY

record addrinfo =
  ai_family :: family
  ai_socktype :: socktype
  ai_protocol :: nat
  ai_addr :: sockaddr

section \<open>Messages\<close>

text \<open>
  A report is the call of \<open>notice\<close>, \<open>warn\<close>, \<open>syswarn\<close>, \<open>die\<close> or \<open>sysdie\<close>: the format string as the
  source has it, and its arguments.
\<close>

datatype level = Notice | Warn | Syswarn | Die | Sysdie

datatype msg_arg = MStr string | MNum int

section \<open>Calls and answers\<close>

datatype access_mode = F_OK | X_OK

datatype sockopt = SO_REUSEADDR | IPV6_V6ONLY | IP_FREEBIND

datatype signal = SIGHUP | SIGINT | SIGTERM | SIGKILL | SIGSTOP

record utmp_entry =
  ut_user_process :: bool
  ut_line :: string
  ut_host :: string
  ut_user :: bytes

text \<open>Sockets and descriptors; reading and writing; names; files and the clock; processes.\<close>

datatype sock_call =
    CSocket family socktype nat
  | CBind int sockaddr
  | CConnect int sockaddr
  | CClose int
  | CSetsockopt int sockopt
  | CGetsockerr int
  | CAccept int
  | CGetFlags bool int
  | CSetFlags bool int nat

datatype io_call =
    CSelectRead int "int list" "int option"
  | CSelectWrite int "int list" "int option"
  | CRead int nat
  | CWrite int bytes
  | CPwrite int bytes nat
  | CWritev int "bytes list"
  | CSend int bytes
  | CSendto int bytes sockaddr nat
  | CRecvfrom int nat

datatype name_call =
    CGetaddrinfo "string option" "string option" nat family socktype
  | CGetservbyname string string
  | CGetservbyport u16 string
  | CGethostbyname string
  | CGethostbyaddr u32

datatype file_call =
    CAccess string access_mode
  | CChdir string
  | CStatvfs string
  | CStat string
  | CUtmp
  | CTime
  | CReadFile string
  | CWritePid string
  | CUnlink string

datatype proc_call =
    CPipe
  | CFork
  | CFdopen int
  | CFclose int
  | CWaitpid nat int
  | CKill int int
  | CFgets int nat

datatype init_call =
    CSdListen
  | CSdNotify string
  | CRaise signal
  | CSigaction signal bool
  | CDaemon

datatype call = CReport level string "msg_arg list"
  | Sock sock_call | Io io_call | Name name_call | File file_call | Proc proc_call | Init init_call

datatype ret =
    RErr errno
  | ROk
  | RNum int
  | RData bytes
  | RFrom bytes sockaddr nat
  | RFds "int list"
  | RAddrs "addrinfo list"
  | RStat int nat
  | RVfs nat nat
  | RUsers "utmp_entry list"
  | RPair nat nat
  | RExited int
  | RSignaled nat
  | RHost u32
  | RPort u16

type_synonym history = "(call \<times> ret) list"
type_synonym kernel = "history \<Rightarrow> call \<Rightarrow> ret"

text \<open>The state of the program as far as the outside is concerned; the newest call comes first.\<close>

record sys =
  trace :: history
  err :: errno

definition perform :: "kernel \<Rightarrow> call \<Rightarrow> 'z sys_scheme \<Rightarrow> ret \<times> 'z sys_scheme" where
  "perform k c s =
     (let r = k (trace s) c
      in (r, s\<lparr>trace := (c, r) # trace s, err := (case r of RErr e \<Rightarrow> e | _ \<Rightarrow> err s)\<rparr>))"

definition set_errno :: "errno \<Rightarrow> 'z sys_scheme \<Rightarrow> 'z sys_scheme" where
  "set_errno e s = s\<lparr>err := e\<rparr>"

definition report :: "level \<Rightarrow> string \<Rightarrow> msg_arg list \<Rightarrow> 'z sys_scheme \<Rightarrow> 'z sys_scheme" where
  "report l fmt args s = s\<lparr>trace := (CReport l fmt args, ROk) # trace s\<rparr>"

section \<open>Reading an answer\<close>

text \<open>
  What C sees of an answer. A call that the kernel fails, or answers with something the call
  cannot return, is a failure: \<open>-1\<close>, \<open>NULL\<close> or no data.
\<close>

text \<open>A call that returns 0 or -1.\<close>

definition status_of :: "ret \<Rightarrow> int" where
  "status_of r = (if r = ROk then 0 else -1)"

text \<open>A call that returns a descriptor or another number that is not negative, or -1.\<close>

definition num_of :: "ret \<Rightarrow> int" where
  "num_of r = (case r of RNum n \<Rightarrow> if 0 \<le> n then n else -1 | _ \<Rightarrow> -1)"

text \<open>Reads and writes never move more than they were asked to.\<close>

definition read_of :: "nat \<Rightarrow> ret \<Rightarrow> bytes option" where
  "read_of n r = (case r of RData d \<Rightarrow> Some (take n d) | _ \<Rightarrow> None)"

definition written_of :: "nat \<Rightarrow> ret \<Rightarrow> nat option" where
  "written_of n r = (case r of RNum m \<Rightarrow> if 0 \<le> m then Some (min n (nat m)) else None | _ \<Rightarrow> None)"

text \<open>
  \<open>select\<close> reports descriptors of the set it was given that are below \<open>nfds\<close>; \<open>None\<close> is -1, and the
  length of the list is the count it returns.
\<close>

definition ready_of :: "int \<Rightarrow> int list \<Rightarrow> ret \<Rightarrow> int list option" where
  "ready_of nfds fds r =
     (case r of RFds l \<Rightarrow> Some (filter (\<lambda>f. f \<in> set fds \<and> f < nfds) l) | _ \<Rightarrow> None)"

text \<open>\<open>getaddrinfo\<close> returns 0 and a list, or an \<open>EAI\<close> code, which is not 0.\<close>

definition gai_of :: "ret \<Rightarrow> int \<times> addrinfo list" where
  "gai_of r = (case r of RAddrs l \<Rightarrow> (0, l) | RNum e \<Rightarrow> (if e = 0 then -1 else e, []) | _ \<Rightarrow> (-1, []))"

definition AI_NUMERICSERV :: nat where
  "AI_NUMERICSERV = 1024"

definition AI_PASSIVE :: nat where
  "AI_PASSIVE = 1"

definition AI_ADDRCONFIG :: nat where
  "AI_ADDRCONFIG = 32"

definition INVALID_SOCKET :: int where
  "INVALID_SOCKET = -1"

section \<open>The calls, as functions\<close>

definition sys_socket :: "kernel \<Rightarrow> family \<Rightarrow> socktype \<Rightarrow> nat \<Rightarrow> 'z sys_scheme \<Rightarrow> int \<times> 'z sys_scheme" where
  "sys_socket k fam ty protocol s = (let (r, s) = perform k (Sock (CSocket fam ty protocol)) s in (num_of r, s))"

definition sys_bind :: "kernel \<Rightarrow> int \<Rightarrow> sockaddr \<Rightarrow> 'z sys_scheme \<Rightarrow> int \<times> 'z sys_scheme" where
  "sys_bind k fd a s = (let (r, s) = perform k (Sock (CBind fd a)) s in (status_of r, s))"

definition sys_connect :: "kernel \<Rightarrow> int \<Rightarrow> sockaddr \<Rightarrow> 'z sys_scheme \<Rightarrow> int \<times> 'z sys_scheme" where
  "sys_connect k fd a s = (let (r, s) = perform k (Sock (CConnect fd a)) s in (status_of r, s))"

definition sys_close :: "kernel \<Rightarrow> int \<Rightarrow> 'z sys_scheme \<Rightarrow> 'z sys_scheme" where
  "sys_close k fd s = snd (perform k (Sock (CClose fd)) s)"

definition sys_setsockopt :: "kernel \<Rightarrow> int \<Rightarrow> sockopt \<Rightarrow> 'z sys_scheme \<Rightarrow> int \<times> 'z sys_scheme" where
  "sys_setsockopt k fd opt s = (let (r, s) = perform k (Sock (CSetsockopt fd opt)) s in (status_of r, s))"

definition sys_select_read ::
  "kernel \<Rightarrow> int \<Rightarrow> int list \<Rightarrow> int option \<Rightarrow> 'z sys_scheme \<Rightarrow> int list option \<times> 'z sys_scheme" where
  "sys_select_read k nfds fds tv s =
     (let (r, s) = perform k (Io (CSelectRead nfds fds tv)) s in (ready_of nfds fds r, s))"

definition sys_select_write ::
  "kernel \<Rightarrow> int \<Rightarrow> int list \<Rightarrow> int option \<Rightarrow> 'z sys_scheme \<Rightarrow> int list option \<times> 'z sys_scheme" where
  "sys_select_write k nfds fds tv s =
     (let (r, s) = perform k (Io (CSelectWrite nfds fds tv)) s in (ready_of nfds fds r, s))"

definition sys_read :: "kernel \<Rightarrow> int \<Rightarrow> nat \<Rightarrow> 'z sys_scheme \<Rightarrow> bytes option \<times> 'z sys_scheme" where
  "sys_read k fd n s = (let (r, s) = perform k (Io (CRead fd n)) s in (read_of n r, s))"

definition sys_write :: "kernel \<Rightarrow> int \<Rightarrow> bytes \<Rightarrow> 'z sys_scheme \<Rightarrow> nat option \<times> 'z sys_scheme" where
  "sys_write k fd d s = (let (r, s) = perform k (Io (CWrite fd d)) s in (written_of (length d) r, s))"

definition sys_time :: "kernel \<Rightarrow> 'z sys_scheme \<Rightarrow> int \<times> 'z sys_scheme" where
  "sys_time k s = (let (r, s) = perform k (File CTime) s in (case r of RNum t \<Rightarrow> t | _ \<Rightarrow> -1, s))"

definition sys_getaddrinfo ::
  "kernel \<Rightarrow> string option \<Rightarrow> string option \<Rightarrow> nat \<Rightarrow> family \<Rightarrow> socktype \<Rightarrow> 'z sys_scheme
    \<Rightarrow> (int \<times> addrinfo list) \<times> 'z sys_scheme" where
  "sys_getaddrinfo k node service flags fam ty s =
     (let (r, s) = perform k (Name (CGetaddrinfo node service flags fam ty)) s in (gai_of r, s))"

definition sys_access :: "kernel \<Rightarrow> string \<Rightarrow> access_mode \<Rightarrow> 'z sys_scheme \<Rightarrow> bool \<times> 'z sys_scheme" where
  "sys_access k path mode s = (let (r, s) = perform k (File (CAccess path mode)) s in (r = ROk, s))"

lemmas sys_defs = sys_socket_def sys_bind_def sys_connect_def sys_close_def sys_setsockopt_def
  sys_select_read_def sys_select_write_def sys_read_def sys_write_def sys_time_def
  sys_getaddrinfo_def sys_access_def

section \<open>Calls in the history\<close>

definition calls :: "'z sys_scheme \<Rightarrow> call list" where
  "calls s = map fst (trace s)"

text \<open>The state reached from another one by making calls: the older history is its tail.\<close>

definition extends :: "'z sys_scheme \<Rightarrow> 'z sys_scheme \<Rightarrow> bool" where
  "extends s s' \<longleftrightarrow> (\<exists>new. trace s' = new @ trace s)"

lemma perform_trace [simp]: "trace (snd (perform k c s)) = (c, k (trace s) c) # trace s"
  by (simp add: perform_def Let_def)

lemma perform_fst [simp]: "fst (perform k c s) = k (trace s) c"
  by (simp add: perform_def Let_def)

lemma perform_more [simp]: "more (snd (perform k c s)) = more s"
  by (simp add: perform_def Let_def)

lemma report_simps [simp]:
  "trace (report l f a s) = (CReport l f a, ROk) # trace s" "err (report l f a s) = err s"
  "more (report l f a s) = more s"
  by (simp_all add: report_def)

lemma set_errno_simps [simp]:
  "trace (set_errno e s) = trace s" "err (set_errno e s) = e" "more (set_errno e s) = more s"
  by (simp_all add: set_errno_def)

lemma read_of_length: "read_of n r = Some d \<Longrightarrow> length d \<le> n"
  by (auto simp: read_of_def split: ret.splits)

lemma written_of_le: "written_of n r = Some m \<Longrightarrow> m \<le> n"
  by (auto simp: written_of_def split: ret.splits if_splits)

end
