(* ===== verification/Fdflag.thy ===== *)
theory Fdflag
  imports Os
begin

text \<open>
  \<open>util/fdflag.c\<close>: setting and clearing the close-on-exec and non-blocking flags of a descriptor,
  keeping the flags that are already set. A kernel's answer to \<open>F_GETFD\<close> and \<open>F_GETFL\<close> is the flag
  word; the constants are those of Linux.
\<close>

unbundle bit_operations_syntax

definition FD_CLOEXEC :: u32 where
  "FD_CLOEXEC = 1"

definition O_NONBLOCK :: u32 where
  "O_NONBLOCK = 0x800"

text \<open>\<open>fcntl\<close> with \<open>F_GETFD\<close> (for \<open>True\<close>) or \<open>F_GETFL\<close>, and with \<open>F_SETFD\<close> or \<open>F_SETFL\<close>.\<close>

definition sys_getflags :: "kernel \<Rightarrow> bool \<Rightarrow> int \<Rightarrow> 'z sys_scheme \<Rightarrow> int \<times> 'z sys_scheme" where
  "sys_getflags k fdflags fd s = (let (r, s) = perform k (Sock (CGetFlags fdflags fd)) s in (num_of r, s))"

definition sys_setflags :: "kernel \<Rightarrow> bool \<Rightarrow> int \<Rightarrow> u32 \<Rightarrow> 'z sys_scheme \<Rightarrow> int \<times> 'z sys_scheme" where
  "sys_setflags k fdflags fd mode s =
     (let (r, s) = perform k (Sock (CSetFlags fdflags fd (unat mode))) s in (status_of r, s))"

definition fdflag_close_exec :: "kernel \<Rightarrow> int \<Rightarrow> bool \<Rightarrow> 'z sys_scheme \<Rightarrow> bool \<times> 'z sys_scheme" where
  "fdflag_close_exec k fd flag s =
     (let (oflag, s) = sys_getflags k True fd s
      in if oflag < 0 then (False, s)
         else (let mode = (if flag then word_of_int oflag OR FD_CLOEXEC
                           else word_of_int oflag AND NOT FD_CLOEXEC);
                   (r, s) = sys_setflags k True fd mode s
               in (r = 0, s)))"

definition fdflag_nonblocking :: "kernel \<Rightarrow> int \<Rightarrow> bool \<Rightarrow> 'z sys_scheme \<Rightarrow> bool \<times> 'z sys_scheme" where
  "fdflag_nonblocking k fd flag s =
     (let (mode, s) = sys_getflags k False fd s
      in if mode < 0 then (False, s)
         else (let mode = (if flag then word_of_int mode OR O_NONBLOCK
                           else word_of_int mode AND NOT O_NONBLOCK);
                   (r, s) = sys_setflags k False fd mode s
               in (r = 0, s)))"

text \<open>
  What a successful call stored: the bit of the flag is as asked, and every other bit is as the
  kernel reported it.
\<close>

lemma flag_word:
  fixes w :: u32
  shows "bit (if flag then w OR push_bit n 1 else w AND NOT (push_bit n 1)) i \<longleftrightarrow>
         i < 32 \<and> (if i = n then flag else bit w i)"
  by (auto simp: bit_or_iff bit_and_iff bit_not_iff bit_exp_iff dest: bit_imp_le_length)

lemma FD_CLOEXEC_bit: "FD_CLOEXEC = push_bit 0 1" and O_NONBLOCK_bit: "O_NONBLOCK = push_bit 11 1"
  by (simp_all add: FD_CLOEXEC_def O_NONBLOCK_def push_bit_eq_mult)

lemma fdflag_close_exec_ok:
  assumes "fdflag_close_exec k fd flag s = (True, s')"
  shows "\<exists>old (new :: u32). trace s' = (Sock (CSetFlags True fd (unat new)), ROk)
      # (Sock (CGetFlags True fd), RNum old) # trace s
    \<and> (\<forall>i < 32. bit new i \<longleftrightarrow> (if i = 0 then flag else bit (word_of_int old :: u32) i))"
proof -
  obtain r1 s1 where 1: "perform k (Sock (CGetFlags True fd)) s = (r1, s1)" by fastforce
  obtain old where old: "r1 = RNum old" "0 \<le> old"
    using assms 1 by (auto simp: fdflag_close_exec_def sys_getflags_def num_of_def split: ret.splits if_splits)
  define new :: u32 where
    "new = (if flag then word_of_int old OR push_bit 0 1 else word_of_int old AND NOT (push_bit 0 1))"
  obtain r2 where 2: "perform k (Sock (CSetFlags True fd (unat new))) s1 = (r2, s')" "r2 = ROk"
    using assms 1 old
    by (auto simp: fdflag_close_exec_def sys_getflags_def sys_setflags_def num_of_def Let_def split_beta
        status_of_def FD_CLOEXEC_bit new_def prod_eq_iff split: if_splits)
  have "trace s' = (Sock (CSetFlags True fd (unat new)), ROk) # (Sock (CGetFlags True fd), RNum old) # trace s"
    using 1 2 old by (auto simp: perform_def Let_def)
  moreover have "\<forall>i < 32. bit new i \<longleftrightarrow> (if i = 0 then flag else bit (word_of_int old :: u32) i)"
    unfolding new_def flag_word by simp
  ultimately show ?thesis by blast
qed

lemma fdflag_nonblocking_ok:
  assumes "fdflag_nonblocking k fd flag s = (True, s')"
  shows "\<exists>old (new :: u32). trace s' = (Sock (CSetFlags False fd (unat new)), ROk)
      # (Sock (CGetFlags False fd), RNum old) # trace s
    \<and> (\<forall>i < 32. bit new i \<longleftrightarrow> (if i = 11 then flag else bit (word_of_int old :: u32) i))"
proof -
  obtain r1 s1 where 1: "perform k (Sock (CGetFlags False fd)) s = (r1, s1)" by fastforce
  obtain old where old: "r1 = RNum old" "0 \<le> old"
    using assms 1 by (auto simp: fdflag_nonblocking_def sys_getflags_def num_of_def split: ret.splits if_splits)
  define new :: u32 where
    "new = (if flag then word_of_int old OR push_bit 11 1 else word_of_int old AND NOT (push_bit 11 1))"
  obtain r2 where 2: "perform k (Sock (CSetFlags False fd (unat new))) s1 = (r2, s')" "r2 = ROk"
    using assms 1 old
    by (auto simp: fdflag_nonblocking_def sys_getflags_def sys_setflags_def num_of_def Let_def split_beta
        status_of_def O_NONBLOCK_bit new_def prod_eq_iff split: if_splits)
  have "trace s' = (Sock (CSetFlags False fd (unat new)), ROk) # (Sock (CGetFlags False fd), RNum old) # trace s"
    using 1 2 old by (auto simp: perform_def Let_def)
  moreover have "\<forall>i < 32. bit new i \<longleftrightarrow> (if i = 11 then flag else bit (word_of_int old :: u32) i)"
    unfolding new_def flag_word by simp
  ultimately show ?thesis by blast
qed

end
