(* ===== verification/Xwrite.thy ===== *)
theory Xwrite
  imports Os
begin

text \<open>
  \<open>util/xwrite.c\<close>: writes that retry until everything is written, no progress is made ten times
  in a row, or an error other than \<open>EINTR\<close> occurs. The loops of \<open>xwrite\<close> and \<open>xpwrite\<close> satisfy one
  recursion equation, stated as the locale \<open>progress_loop\<close>; \<open>xwritev\<close> has two loops of its own.
\<close>

section \<open>xwrite and xpwrite\<close>

function xwrite_loop :: "kernel \<Rightarrow> int \<Rightarrow> bytes \<Rightarrow> nat \<Rightarrow> nat \<Rightarrow> 'z sys_scheme \<Rightarrow> nat \<times> 'z sys_scheme" where
  "xwrite_loop k fd buffer tot tries s =
     (if tot < length buffer then
        (if tries + 1 > 10 then (tot, s)
         else (let (r, s') = perform k (Io (CWrite fd (drop tot buffer))) s
               in case written_of (length buffer - tot) r of
                    None \<Rightarrow> if err s' \<noteq> EINTR then (tot, s')
                            else xwrite_loop k fd buffer tot (tries + 1) s'
                  | Some n \<Rightarrow> xwrite_loop k fd buffer (tot + n) (if n > 0 then 0 else tries + 1) s'))
      else (tot, s))"
  by pat_completeness auto
termination
  by (relation "measures [\<lambda>(k, fd, buffer, tot, tries, s). length buffer - tot,
                          \<lambda>(k, fd, buffer, tot, tries, s). 11 - tries]")
     (auto split: if_splits dest: written_of_le)

declare xwrite_loop.simps [simp del]

definition xwrite :: "kernel \<Rightarrow> int \<Rightarrow> bytes \<Rightarrow> 'z sys_scheme \<Rightarrow> int \<times> 'z sys_scheme" where
  "xwrite k fd buffer s =
     (if length buffer = 0 then (0, s)
      else (let (tot, s) = xwrite_loop k fd buffer 0 0 s
            in (if tot < length buffer then -1 else int tot, s)))"

function xpwrite_loop ::
  "kernel \<Rightarrow> int \<Rightarrow> bytes \<Rightarrow> nat \<Rightarrow> nat \<Rightarrow> nat \<Rightarrow> 'z sys_scheme \<Rightarrow> nat \<times> 'z sys_scheme" where
  "xpwrite_loop k fd buffer offset tot tries s =
     (if tot < length buffer then
        (if tries + 1 > 10 then (tot, s)
         else (let (r, s') = perform k (Io (CPwrite fd (drop tot buffer) (offset + tot))) s
               in case written_of (length buffer - tot) r of
                    None \<Rightarrow> if err s' \<noteq> EINTR then (tot, s')
                            else xpwrite_loop k fd buffer offset tot (tries + 1) s'
                  | Some n \<Rightarrow> xpwrite_loop k fd buffer offset (tot + n) (if n > 0 then 0 else tries + 1) s'))
      else (tot, s))"
  by pat_completeness auto
termination
  by (relation "measures [\<lambda>(k, fd, buffer, offset, tot, tries, s). length buffer - tot,
                          \<lambda>(k, fd, buffer, offset, tot, tries, s). 11 - tries]")
     (auto split: if_splits dest: written_of_le)

declare xpwrite_loop.simps [simp del]

definition xpwrite :: "kernel \<Rightarrow> int \<Rightarrow> bytes \<Rightarrow> nat \<Rightarrow> 'z sys_scheme \<Rightarrow> int \<times> 'z sys_scheme" where
  "xpwrite k fd buffer offset s =
     (if length buffer = 0 then (0, s)
      else (let (tot, s) = xpwrite_loop k fd buffer offset 0 0 s
            in (if tot < length buffer then -1 else int tot, s)))"

text \<open>
  The recursion the two loops share: \<open>attempt tot s\<close> is one call that offers everything from
  \<open>tot\<close> on.
\<close>

locale progress_loop =
  fixes loop :: "nat \<Rightarrow> nat \<Rightarrow> 'z sys_scheme \<Rightarrow> nat \<times> 'z sys_scheme"
    and attempt :: "nat \<Rightarrow> 'z sys_scheme \<Rightarrow> nat option \<times> 'z sys_scheme"
    and sz :: nat
  assumes loop_eq: "loop tot tries s =
      (if tot < sz then
         (if tries + 1 > 10 then (tot, s)
          else (case attempt tot s of
                  (None, s') \<Rightarrow> if err s' \<noteq> EINTR then (tot, s') else loop tot (tries + 1) s'
                | (Some n, s') \<Rightarrow> loop (tot + n) (if n > 0 then 0 else tries + 1) s'))
       else (tot, s))"
    and attempt_le: "tot < sz \<Longrightarrow> attempt tot s = (Some n, s') \<Longrightarrow> tot + n \<le> sz"
    and attempt_one: "length (trace (snd (attempt tot s))) = Suc (length (trace s))"
begin

text \<open>Whatever one attempt preserves, the loop preserves.\<close>

lemma loop_inv:
  assumes step: "\<And>t s n s'. I t s \<Longrightarrow> t < sz \<Longrightarrow> attempt t s = (Some n, s') \<Longrightarrow> I (t + n) s'"
    and stay: "\<And>t s s'. I t s \<Longrightarrow> t < sz \<Longrightarrow> attempt t s = (None, s') \<Longrightarrow> I t s'"
  shows "I tot s \<Longrightarrow> tot \<le> sz \<Longrightarrow> loop tot tries s = (t', s') \<Longrightarrow> I t' s' \<and> t' \<le> sz"
proof (induction "(sz - tot, 11 - tries)" arbitrary: tot tries s
       rule: wf_induct_rule[OF wf_lex_prod[OF wf_less wf_less]])
  case (1 tot tries s)
  show ?case
  proof (cases "tot < sz \<and> tries + 1 \<le> 10")
    case False
    then show ?thesis using 1(2,3,4) by (subst (asm) loop_eq) (auto split: if_splits)
  next
    case True
    obtain r s1 where at: "attempt tot s = (r, s1)" by fastforce
    show ?thesis
    proof (cases r)
      case None
      show ?thesis
      proof (cases "err s1 = EINTR")
        case True
        then have "loop tot (tries + 1) s1 = (t', s')"
          using 1(4) \<open>tot < sz \<and> _\<close> at None by (subst (asm) loop_eq) simp
        then show ?thesis
          using 1(1)[of tot "tries + 1" s1] 1(3) stay[OF 1(2)] at None \<open>tot < sz \<and> _\<close>
            diff_less_mono2[of tries "tries + 1" 11] by simp
      next
        case False
        then have "loop tot tries s = (tot, s1)" using at None \<open>tot < sz \<and> _\<close> by (subst loop_eq) simp
        then show ?thesis using 1(3,4) at None \<open>tot < sz \<and> _\<close> stay[OF 1(2)] by simp
      qed
    next
      case (Some n)
      then have lp: "loop (tot + n) (if n > 0 then 0 else tries + 1) s1 = (t', s')"
        using 1(4) True at by (subst (asm) loop_eq) simp
      have "tot + n \<le> sz" using attempt_le at Some True by blast
      then show ?thesis
        using 1(1)[OF _ step[OF 1(2), of n s1] _ lp] at Some True
          diff_less_mono2[of tot "tot + n" sz] by (cases "n = 0") auto
    qed
  qed
qed

text \<open>The loop makes at most ten calls for each byte still to be written.\<close>

lemma loop_calls:
  "tot < sz \<Longrightarrow> tries \<le> 10 \<Longrightarrow>
   length (trace (snd (loop tot tries s))) + tries \<le> length (trace s) + 10 * (sz - tot)"
proof (induction "(sz - tot, 11 - tries)" arbitrary: tot tries s
       rule: wf_induct_rule[OF wf_lex_prod[OF wf_less wf_less]])
  case (1 tot tries s)
  show ?case
  proof (cases "tries + 1 \<le> 10")
    case False
    then have "loop tot tries s = (tot, s)" using 1(2) by (subst loop_eq) simp
    then show ?thesis using 1(2,3) by simp
  next
    case True
    obtain r s1 where at: "attempt tot s = (r, s1)" by fastforce
    have tr: "length (trace s1) = Suc (length (trace s))" using attempt_one[of tot s] at by simp
    show ?thesis
    proof (cases r)
      case None
      show ?thesis
      proof (cases "err s1 = EINTR")
        case True
        then have "loop tot tries s = loop tot (tries + 1) s1"
          using 1(2) \<open>tries + 1 \<le> 10\<close> at None by (subst loop_eq) simp
        then show ?thesis using 1(1)[of tot "tries + 1" s1] 1(2) \<open>tries + 1 \<le> 10\<close> tr by simp
      next
        case False
        then have "loop tot tries s = (tot, s1)"
          using 1(2) \<open>tries + 1 \<le> 10\<close> at None by (subst loop_eq) simp
        then show ?thesis using tr 1(2) True by simp
      qed
    next
      case (Some n)
      have le: "tot + n \<le> sz" using attempt_le[OF 1(2)] at Some by blast
      have lp: "loop tot tries s = loop (tot + n) (if n > 0 then 0 else tries + 1) s1"
        using 1(2) True at Some by (subst loop_eq) simp
      show ?thesis
      proof (cases "tot + n < sz")
        case True
        then show ?thesis
          using 1(1)[of "tot + n" "if n > 0 then 0 else tries + 1" s1] 1(2) \<open>tries + 1 \<le> 10\<close> tr lp
            diff_less_mono2[of tot "tot + n" sz] by (cases "n = 0") auto
      next
        case False
        then have "loop tot tries s = (tot + n, s1)"
          using lp by (subst (asm) (2) loop_eq) simp
        then show ?thesis using tr 1(2) \<open>tries + 1 \<le> 10\<close> by simp
      qed
    qed
  qed
qed

end

definition write_attempt :: "kernel \<Rightarrow> int \<Rightarrow> bytes \<Rightarrow> nat \<Rightarrow> 'z sys_scheme \<Rightarrow> nat option \<times> 'z sys_scheme" where
  "write_attempt k fd buffer tot s =
     (let (r, s') = perform k (Io (CWrite fd (drop tot buffer))) s
      in (written_of (length buffer - tot) r, s'))"

definition pwrite_attempt ::
  "kernel \<Rightarrow> int \<Rightarrow> bytes \<Rightarrow> nat \<Rightarrow> nat \<Rightarrow> 'z sys_scheme \<Rightarrow> nat option \<times> 'z sys_scheme" where
  "pwrite_attempt k fd buffer offset tot s =
     (let (r, s') = perform k (Io (CPwrite fd (drop tot buffer) (offset + tot))) s
      in (written_of (length buffer - tot) r, s'))"

interpretation wloop: progress_loop "xwrite_loop k fd buffer" "write_attempt k fd buffer" "length buffer"
proof (unfold_locales, goal_cases)
  case (1 tot tries s)
  then show ?case
    by (subst xwrite_loop.simps) (auto simp: write_attempt_def Let_def split_beta split: option.splits)
next
  case (2 tot s n s')
  then show ?case by (auto simp: write_attempt_def Let_def split_beta dest!: written_of_le)
qed (simp add: write_attempt_def split_beta)

interpretation pwloop: progress_loop "xpwrite_loop k fd buffer offset" "pwrite_attempt k fd buffer offset"
  "length buffer"
proof (unfold_locales, goal_cases)
  case (1 tot tries s)
  then show ?case
    by (subst xpwrite_loop.simps) (auto simp: pwrite_attempt_def Let_def split_beta split: option.splits)
next
  case (2 tot s n s')
  then show ?case by (auto simp: pwrite_attempt_def Let_def split_beta dest!: written_of_le)
qed (simp add: pwrite_attempt_def split_beta)

section \<open>xwritev\<close>

text \<open>What is left of an array of segments once \<open>offset\<close> bytes of it are out.\<close>

fun skip_iov :: "nat \<Rightarrow> bytes list \<Rightarrow> bytes list" where
  "skip_iov offset [] = []"
| "skip_iov offset (v # vs) =
     (if offset \<ge> length v then skip_iov (offset - length v) vs else drop offset v # vs)"

text \<open>The first loop: one \<open>writev\<close>, repeated when interrupted. The second result is \<open>status\<close>.\<close>

function writev_first :: "kernel \<Rightarrow> int \<Rightarrow> bytes list \<Rightarrow> nat \<Rightarrow> 'z sys_scheme \<Rightarrow> nat \<times> nat option \<times> 'z sys_scheme" where
  "writev_first k fd iov tries s =
     (if tries + 1 > 10 then (tries + 1, None, s)
      else (let (r, s') = perform k (Io (CWritev fd iov)) s
            in case written_of (length (concat iov)) r of
                 Some n \<Rightarrow> (if n > 0 then 0 else tries + 1, Some n, s')
               | None \<Rightarrow> if err s' = EINTR then writev_first k fd iov (tries + 1) s'
                         else (tries + 1, None, s')))"
  by pat_completeness auto
termination
  by (relation "measure (\<lambda>(k, fd, iov, tries, s). 11 - tries)") auto

declare writev_first.simps [simp del]

text \<open>
  The second loop writes what is left; \<open>tmpiov\<close> is the copy of the array from the first segment
  that is not out, with its start moved, so that \<open>left\<close> is the length of its contents.
\<close>

function writev_rest :: "kernel \<Rightarrow> int \<Rightarrow> bytes list \<Rightarrow> nat \<Rightarrow> nat \<Rightarrow> nat \<Rightarrow> 'z sys_scheme \<Rightarrow> nat \<times> 'z sys_scheme" where
  "writev_rest k fd tmpiov offset left tries s =
     (if tries + 1 > 10 then (left, s)
      else (let tmpiov = skip_iov offset tmpiov;
                (r, s') = perform k (Io (CWritev fd tmpiov)) s
            in case written_of (length (concat tmpiov)) r of
                 Some n \<Rightarrow> if n = 0 then (if left > 0 then writev_rest k fd tmpiov 0 left (tries + 1) s' else (left, s'))
                            else if left - n > 0 then writev_rest k fd tmpiov n (left - n) 0 s' else (left - n, s')
               | None \<Rightarrow> if left > 0 \<and> err s' = EINTR then writev_rest k fd tmpiov 0 left (tries + 1) s'
                         else (left, s')))"
  by pat_completeness auto
termination
  by (relation "measures [\<lambda>(k, fd, tmpiov, offset, left, tries, s). left,
                          \<lambda>(k, fd, tmpiov, offset, left, tries, s). 11 - tries]")
     (auto split: if_splits)

declare writev_rest.simps [simp del]

text \<open>
  \<open>sizeof (struct iovec)\<close> on a 64-bit machine; \<open>alloc_ok\<close> says whether \<open>calloc\<close> succeeds. The total of
  the lengths is a number here: buffers of more than \<open>SSIZE_MAX\<close> bytes together do not exist.
\<close>

definition IOVEC_SIZE :: nat where
  "IOVEC_SIZE = 16"

definition xwritev :: "kernel \<Rightarrow> bool \<Rightarrow> int \<Rightarrow> bytes list \<Rightarrow> int \<Rightarrow> 'z sys_scheme \<Rightarrow> int \<times> 'z sys_scheme" where
  "xwritev k alloc_ok fd iov iovcnt s =
     (if iovcnt = 0 then (0, s)
      else if iovcnt < 0 \<or> iovcnt > int (SIZE_MAX div IOVEC_SIZE) then (-1, set_errno EINVAL s)
      else (let iov = take (nat iovcnt) iov; tot = length (concat iov)
            in if tot = 0 then (0, s)
               else (let (tries, status, s) = writev_first k fd iov 0 s
                     in case status of
                          None \<Rightarrow> (-1, s)
                        | Some n \<Rightarrow>
                            if n = tot then (int tot, s)
                            else if \<not> alloc_ok then (-1, s)
                            else (let (left, s) = writev_rest k fd (skip_iov n iov) 0 (tot - n) tries s
                                  in (if left = 0 then int tot else -1, s)))))"

lemma concat_skip_iov [simp]: "concat (skip_iov n vs) = drop n (concat vs)"
  by (induction n vs rule: skip_iov.induct) auto

section \<open>What has been written\<close>

text \<open>The bytes a stream descriptor has accepted, and the file \<open>pwrite\<close> has built, by the history.\<close>

definition accept_bytes :: "ret \<Rightarrow> bytes \<Rightarrow> bytes" where
  "accept_bytes r d = (case written_of (length d) r of None \<Rightarrow> [] | Some n \<Rightarrow> take n d)"

fun accepted :: "int \<Rightarrow> history \<Rightarrow> bytes" where
  "accepted fd [] = []"
| "accepted fd ((c, r) # h) =
     accepted fd h @
     (case c of Io (CWrite fd' d) \<Rightarrow> if fd' = fd then accept_bytes r d else []
      | Io (CWritev fd' ds) \<Rightarrow> if fd' = fd then accept_bytes r (concat ds) else []
      | _ \<Rightarrow> [])"

fun file_image :: "int \<Rightarrow> history \<Rightarrow> nat \<Rightarrow> byte option" where
  "file_image fd [] pos = None"
| "file_image fd ((c, r) # h) pos =
     (case c of Io (CPwrite fd' d off) \<Rightarrow>
        if fd' = fd \<and> off \<le> pos \<and> pos < off + length (accept_bytes r d)
        then Some (accept_bytes r d ! (pos - off)) else file_image fd h pos
      | _ \<Rightarrow> file_image fd h pos)"

lemma write_attempt_accepted:
  assumes "write_attempt k fd buffer tot s = (r, s')"
  shows "accepted fd (trace s') = accepted fd (trace s) @ take (case r of None \<Rightarrow> 0 | Some n \<Rightarrow> n) (drop tot buffer)"
  using assms by (auto simp: write_attempt_def Let_def split_beta accept_bytes_def split: option.splits)

lemma xwrite_ok:
  assumes "xwrite k fd buffer s = (r, s')"
  shows "\<exists>n \<le> length buffer. accepted fd (trace s') = accepted fd (trace s) @ take n buffer
    \<and> r = (if n = length buffer then int n else -1)"
proof (cases "buffer = []")
  case True
  then show ?thesis using assms by (auto simp: xwrite_def)
next
  case False
  obtain t where lp: "xwrite_loop k fd buffer 0 0 s = (t, s')"
      "r = (if t < length buffer then -1 else int t)"
    using assms False by (cases "xwrite_loop k fd buffer 0 0 s") (auto simp: xwrite_def)
  have "accepted fd (trace s') = accepted fd (trace s) @ take t buffer \<and> t \<le> length buffer"
    by (rule wloop.loop_inv[where I = "\<lambda>t s1. accepted fd (trace s1) = accepted fd (trace s) @ take t buffer", OF _ _ _ _ lp(1)])
       (auto simp: write_attempt_accepted take_add)
  then show ?thesis using lp(2) by (intro exI[of _ t]) auto
qed

lemma xwrite_calls:
  "length (trace (snd (xwrite k fd buffer s))) \<le> length (trace s) + 10 * length buffer"
  using wloop.loop_calls[where tot = 0 and tries = 0, of buffer k fd s]
  by (auto simp: xwrite_def split_beta Let_def)

lemma pwrite_attempt_image:
  assumes "pwrite_attempt k fd buffer offset tot s = (r, s')" "tot \<le> length buffer"
    and "file_image fd (trace s) = (\<lambda>pos. if offset \<le> pos \<and> pos < offset + tot then Some (buffer ! (pos - offset)) else f pos)"
  shows "file_image fd (trace s') =
    (\<lambda>pos. if offset \<le> pos \<and> pos < offset + tot + (case r of None \<Rightarrow> 0 | Some n \<Rightarrow> n)
           then Some (buffer ! (pos - offset)) else f pos)"
proof
  fix pos
  have "\<And>n. r = Some n \<Longrightarrow> tot + n \<le> length buffer"
    using assms(1,2) by (auto simp: pwrite_attempt_def Let_def split_beta dest!: written_of_le)
  then show "file_image fd (trace s') pos =
    (if offset \<le> pos \<and> pos < offset + tot + (case r of None \<Rightarrow> 0 | Some n \<Rightarrow> n)
     then Some (buffer ! (pos - offset)) else f pos)"
    using assms by (auto simp: pwrite_attempt_def Let_def split_beta accept_bytes_def fun_eq_iff min_def
        split: option.splits)
qed

lemma xpwrite_ok:
  assumes "xpwrite k fd buffer offset s = (r, s')"
  shows "\<exists>n \<le> length buffer. r = (if n = length buffer then int n else -1)
    \<and> file_image fd (trace s') = (\<lambda>pos. if offset \<le> pos \<and> pos < offset + n then Some (buffer ! (pos - offset))
                                        else file_image fd (trace s) pos)"
proof (cases "buffer = []")
  case True
  then show ?thesis using assms by (auto simp: xpwrite_def fun_eq_iff)
next
  case False
  obtain t where lp: "xpwrite_loop k fd buffer offset 0 0 s = (t, s')"
      "r = (if t < length buffer then -1 else int t)"
    using assms False by (cases "xpwrite_loop k fd buffer offset 0 0 s") (auto simp: xpwrite_def)
  let ?I = "\<lambda>t s1. t \<le> length buffer \<and> file_image fd (trace s1) = (\<lambda>pos. if offset \<le> pos \<and> pos < offset + t
      then Some (buffer ! (pos - offset)) else file_image fd (trace s) pos)"
  have "?I t s' \<and> t \<le> length buffer"
  proof (rule pwloop.loop_inv[where I = ?I, OF _ _ _ _ lp(1)])
    fix t s1 n s2
    assume *: "?I t s1" "t < length buffer" "pwrite_attempt k fd buffer offset t s1 = (Some n, s2)"
    then show "?I (t + n) s2"
      using pwrite_attempt_image[OF *(3)] pwloop.attempt_le[OF *(2,3)] by (simp add: add.assoc)
  next
    fix t s1 s2
    assume *: "?I t s1" "t < length buffer" "pwrite_attempt k fd buffer offset t s1 = (None, s2)"
    then show "?I t s2" using pwrite_attempt_image[OF *(3)] by simp
  qed (auto simp: fun_eq_iff)
  then show ?thesis using lp(2) by (intro exI[of _ t]) auto
qed

lemma writev_first_ok:
  "writev_first k fd iov tries s = (t, status, s') \<Longrightarrow>
   accepted fd (trace s') = accepted fd (trace s) @ take (case status of None \<Rightarrow> 0 | Some n \<Rightarrow> n) (concat iov)
   \<and> (\<forall>n. status = Some n \<longrightarrow> n \<le> length (concat iov))"
proof (induction k fd iov tries s rule: writev_first.induct)
  case (1 k fd iov tries s)
  show ?case
    using 1(2) 1(1)[OF _ refl prod.collapse]
    by (subst (asm) writev_first.simps)
       (auto simp: split_beta Let_def accept_bytes_def split: if_splits option.splits dest: written_of_le)
qed

lemma writev_rest_ok:
  "writev_rest k fd tmpiov offset left tries s = (left', s') \<Longrightarrow> left = length (concat tmpiov) - offset \<Longrightarrow>
   \<exists>n \<le> left. left' = left - n \<and>
     accepted fd (trace s') = accepted fd (trace s) @ take n (drop offset (concat tmpiov))"
proof (induction k fd tmpiov offset left tries s rule: writev_rest.induct)
  case (1 k fd tmpiov offset left tries s)
  let ?iov = "skip_iov offset tmpiov"
  obtain r s1 where p: "perform k (Io (CWritev fd ?iov)) s = (r, s1)" by fastforce
  have len: "left = length (concat ?iov)" using 1(5) by simp
  have tr: "trace s1 = (Io (CWritev fd ?iov), r) # trace s" using p by (auto simp: perform_def Let_def)
  show ?case
  proof (cases "tries + 1 > 10")
    case True
    then show ?thesis using 1(4) by (subst (asm) writev_rest.simps) (auto intro: exI[of _ 0])
  next
    case False
    show ?thesis
    proof (cases "written_of left r")
      case None
      then have acc: "accepted fd (trace s1) = accepted fd (trace s)" using tr len by (simp add: accept_bytes_def)
      show ?thesis
      proof (cases "left > 0 \<and> err s1 = EINTR")
        case True
        then have "writev_rest k fd ?iov 0 left (tries + 1) s1 = (left', s')"
          using 1(4) False p None len by (subst (asm) writev_rest.simps) (simp add: Let_def)
        from 1(1)[OF False refl p[symmetric] refl _ True this] None len acc show ?thesis by simp
      next
        case False
        then have "left' = left \<and> s' = s1"
          using 1(4) \<open>\<not> tries + 1 > 10\<close> p None len by (subst (asm) writev_rest.simps) (auto simp: Let_def)
        then show ?thesis using acc by (auto intro: exI[of _ 0])
      qed
    next
      case (Some n)
      then have le: "n \<le> left" by (rule written_of_le)
      have acc: "accepted fd (trace s1) = accepted fd (trace s) @ take n (drop offset (concat tmpiov))"
        using tr len Some by (simp add: accept_bytes_def)
      show ?thesis
      proof (cases "n = 0")
        case True
        show ?thesis
        proof (cases "left > 0")
          case left: True
          then have "writev_rest k fd ?iov 0 left (tries + 1) s1 = (left', s')"
            using 1(4) False p Some True len by (subst (asm) writev_rest.simps) (simp add: Let_def)
          from 1(2)[OF False refl p[symmetric] refl _ True left this] Some len acc True show ?thesis by simp
        next
          case left: False
          then have "left' = left \<and> s' = s1"
            using 1(4) False p Some True len by (subst (asm) writev_rest.simps) (auto simp: Let_def)
          then show ?thesis using acc True by (auto intro: exI[of _ 0])
        qed
      next
        case n: False
        show ?thesis
        proof (cases "left - n > 0")
          case left: True
          then have "writev_rest k fd ?iov n (left - n) 0 s1 = (left', s')"
            using 1(4) False p Some n len by (subst (asm) writev_rest.simps) (simp add: Let_def)
          from 1(3)[OF False refl p[symmetric] refl _ n left this] Some len
          obtain m where "m \<le> left - n" "left' = left - n - m"
            "accepted fd (trace s') = accepted fd (trace s1) @ take m (drop n (concat ?iov))" by auto
          then show ?thesis using acc le by (intro exI[of _ "n + m"]) (auto simp: take_add)
        next
          case left: False
          then have "left' = left - n \<and> s' = s1"
            using 1(4) False p Some n len by (subst (asm) writev_rest.simps) (auto simp: Let_def)
          then show ?thesis using acc le by (intro exI[of _ n]) auto
        qed
      qed
    qed
  qed
qed

lemma xwritev_ok:
  assumes "xwritev k alloc_ok fd iov (int (length iov)) s = (r, s')" "length iov \<le> SIZE_MAX div IOVEC_SIZE"
  shows "\<exists>n \<le> length (concat iov). accepted fd (trace s') = accepted fd (trace s) @ take n (concat iov)
    \<and> r \<in> {-1, int (length (concat iov))} \<and> (r \<noteq> -1 \<longrightarrow> n = length (concat iov))"
proof (cases "length (concat iov) = 0")
  case True
  then show ?thesis using assms by (auto simp: xwritev_def Let_def split: if_splits)
next
  case False
  then have iov: "iov \<noteq> []" by auto
  obtain tries status s1 where f: "writev_first k fd iov 0 s = (tries, status, s1)" by (metis prod_cases3)
  have x: "xwritev k alloc_ok fd iov (int (length iov)) s =
    (case status of None \<Rightarrow> (-1, s1)
     | Some n \<Rightarrow> if n = length (concat iov) then (int (length (concat iov)), s1)
         else if \<not> alloc_ok then (-1, s1)
         else (let (left, s) = writev_rest k fd (skip_iov n iov) 0 (length (concat iov) - n) tries s1
               in (if left = 0 then int (length (concat iov)) else -1, s)))"
    using assms(2) f iov False by (cases "\<forall>xs \<in> set iov. xs = []") (auto simp: xwritev_def Let_def)
  note fo = writev_first_ok[OF f]
  show ?thesis
  proof (cases status)
    case None
    then show ?thesis using assms f fo iov False by (auto simp: x intro!: exI[of _ 0])
  next
    case (Some n)
    then have le: "n \<le> length (concat iov)" using fo by simp
    show ?thesis
    proof (cases "n = length (concat iov) \<or> \<not> alloc_ok")
      case True
      then show ?thesis using assms f fo iov False Some le
        by (auto simp: x split: if_splits intro!: exI[of _ n])
    next
      case rest: False
      obtain left s2 where w: "writev_rest k fd (skip_iov n iov) 0 (length (concat iov) - n) tries s1 = (left, s2)"
        by fastforce
      from writev_rest_ok[OF w] obtain m where m: "m \<le> length (concat iov) - n" "left = length (concat iov) - n - m"
        "accepted fd (trace s2) = accepted fd (trace s1) @ take m (drop n (concat iov))" by auto
      have "r = (if left = 0 then int (length (concat iov)) else -1)" "s' = s2"
        using assms f w iov False Some rest by (auto simp: x split: if_splits)
      then show ?thesis using m fo Some le by (intro exI[of _ "n + m"]) (auto simp: take_add)
    qed
  qed
qed

end
