(* ===== verification/Network.thy ===== *)
theory Network
  imports Fdflag Xwrite "HOL-Library.Multiset"
begin

text \<open>
  \<open>util/network.c\<close>, the part that opens sockets: binding, waiting for any of several sockets,
  binding a source address, and connecting to the first address of a list that works. What the
  build and the C library decide is the record \<open>platform\<close>: the byte order, whether the code is
  compiled with IPv6, and the conversions of IPv6 addresses, which the repository does not hold.
\<close>

record platform =
  byte_order :: endian
  have_inet6 :: bool
  inet_pton6 :: "string \<Rightarrow> bytes option"
  inet_ntop6 :: "bytes \<Rightarrow> string"

text \<open>\<open>unsigned long\<close> has 64 bits where the program is built; \<open>inet_aton\<close> is the bundled one.\<close>

definition aton :: "platform \<Rightarrow> string \<Rightarrow> u32 option" where
  "aton pf a = inet_aton TYPE(64) (byte_order pf) (Some a)"

section \<open>Printing an address\<close>

definition V4MAPPED :: bytes where
  "V4MAPPED = replicate 10 NUL @ replicate 2 (CHR 0xFF)"

definition is_v4mapped :: "bytes \<Rightarrow> bool" where
  "is_v4mapped a \<longleftrightarrow> take 12 a = V4MAPPED"

definition INET6_ADDRSTRLEN :: nat where
  "INET6_ADDRSTRLEN = 46"

text \<open>The text written to the buffer of \<open>sz\<close> bytes, or \<open>None\<close> with the error number.\<close>

definition network_sockaddr_sprint :: "platform \<Rightarrow> nat \<Rightarrow> sockaddr \<Rightarrow> errno + string" where
  "network_sockaddr_sprint pf sz addr =
     (case addr of
        SIn6 a _ \<Rightarrow>
          if have_inet6 pf then
            (if is_v4mapped a then inet_ntop (byte_order pf) AF_INET (load32 (byte_order pf) (drop 12 a)) sz
             else if length (inet_ntop6 pf a) < sz then Inr (inet_ntop6 pf a) else Inl ENOSPC)
          else Inl EAFNOSUPPORT
      | SIn a _ \<Rightarrow> inet_ntop (byte_order pf) AF_INET a sz
      | SOther _ \<Rightarrow> Inl EAFNOSUPPORT)"

section \<open>Binding\<close>

definition network_set_reuseaddr :: "kernel \<Rightarrow> int \<Rightarrow> 'z sys_scheme \<Rightarrow> 'z sys_scheme" where
  "network_set_reuseaddr k fd s =
     (let (r, s) = sys_setsockopt k fd SO_REUSEADDR s
      in if r < 0 then report Syswarn ''cannot mark bind address reusable'' [] s else s)"

definition network_set_v6only :: "kernel \<Rightarrow> int \<Rightarrow> 'z sys_scheme \<Rightarrow> 'z sys_scheme" where
  "network_set_v6only k fd s =
     (let (r, s) = sys_setsockopt k fd IPV6_V6ONLY s
      in if r < 0 then report Syswarn ''cannot set IPv6 socket to v6only'' [] s else s)"

definition network_set_freebind :: "kernel \<Rightarrow> int \<Rightarrow> 'z sys_scheme \<Rightarrow> 'z sys_scheme" where
  "network_set_freebind k fd s =
     (let (r, s) = sys_setsockopt k fd IP_FREEBIND s
      in if r < 0 then report Syswarn ''cannot set IPv6 socket to free binding'' [] s else s)"

definition network_bind_ipv4 ::
  "kernel \<Rightarrow> platform \<Rightarrow> socktype \<Rightarrow> string \<Rightarrow> u16 \<Rightarrow> 'z sys_scheme \<Rightarrow> int \<times> 'z sys_scheme" where
  "network_bind_ipv4 k pf ty address port s =
     (let (fd, s) = sys_socket k AF_INET ty 0 s
      in if fd = INVALID_SOCKET then
           (INVALID_SOCKET, report Syswarn ''cannot create IPv4 socket for %s, port %hu''
              [MStr address, MNum (uint port)] s)
         else
           (let s = network_set_reuseaddr k fd s;
                address = (if address = ''any'' \<or> address = ''all'' then ''0.0.0.0'' else address)
            in case aton pf address of
                 None \<Rightarrow>
                   (INVALID_SOCKET, set_errno EINVAL (report Warn ''invalid IPv4 address %s'' [MStr address] s))
               | Some addr \<Rightarrow>
                   (let (r, s) = sys_bind k fd (SIn addr (htons (byte_order pf) port)) s
                    in if r < 0 then
                         (let s = report Syswarn ''cannot bind socket for %s, port %hu''
                                    [MStr address, MNum (uint port)] s
                          in (INVALID_SOCKET, sys_close k fd s))
                       else (fd, s))))"

definition network_bind_ipv6 ::
  "kernel \<Rightarrow> platform \<Rightarrow> socktype \<Rightarrow> string \<Rightarrow> u16 \<Rightarrow> 'z sys_scheme \<Rightarrow> int \<times> 'z sys_scheme" where
  "network_bind_ipv6 k pf ty address port s =
     (if \<not> have_inet6 pf then
        (INVALID_SOCKET, set_errno EPROTONOSUPPORT
           (report Warn ''cannot bind %s, port %hu: IPv6 not supported'' [MStr address, MNum (uint port)] s))
      else
        (let (fd, s) = sys_socket k AF_INET6 ty 0 s
         in if fd = INVALID_SOCKET then
              (INVALID_SOCKET,
               if err s \<noteq> EAFNOSUPPORT \<and> err s \<noteq> EPROTONOSUPPORT
               then report Syswarn ''cannot create IPv6 socket for %s, port %hu'' [MStr address, MNum (uint port)] s
               else s)
            else
              (let s = network_set_reuseaddr k fd s;
                   s = network_set_v6only k fd s;
                   address = (if address = ''any'' \<or> address = ''all'' then ''::'' else address);
                   s = (if address \<noteq> ''::'' then network_set_freebind k fd s else s)
               in case inet_pton6 pf address of
                    None \<Rightarrow>
                      (INVALID_SOCKET, set_errno EINVAL (report Warn ''invalid IPv6 address %s'' [MStr address] s))
                  | Some addr \<Rightarrow>
                      (let (r, s) = sys_bind k fd (SIn6 addr (htons (byte_order pf) port)) s
                       in if r < 0 then
                            (let s = report Syswarn ''cannot bind socket for %s, port %hu''
                                       [MStr address, MNum (uint port)] s
                             in (INVALID_SOCKET, sys_close k fd s))
                          else (fd, s)))))"

text \<open>The loop of \<open>network_bind_all\<close>; the array grows as needed, and \<open>fds\<close> is its used part.\<close>

fun bind_all_loop ::
  "kernel \<Rightarrow> platform \<Rightarrow> socktype \<Rightarrow> u16 \<Rightarrow> addrinfo list \<Rightarrow> string \<Rightarrow> int list \<Rightarrow> 'z sys_scheme
    \<Rightarrow> int list \<times> 'z sys_scheme" where
  "bind_all_loop k pf ty port [] name fds s = (fds, s)"
| "bind_all_loop k pf ty port (a # ais) name fds s =
     (let (name, s) = (case network_sockaddr_sprint pf INET6_ADDRSTRLEN (ai_addr a) of
                         Inr text \<Rightarrow> (text, s) | Inl e \<Rightarrow> (name, set_errno e s))
      in if ai_family a = AF_INET \<or> ai_family a = AF_INET6 then
           (let (fd, s) = (if ai_family a = AF_INET then network_bind_ipv4 k pf ty name port s
                           else network_bind_ipv6 k pf ty name port s)
            in bind_all_loop k pf ty port ais name (if fd \<noteq> INVALID_SOCKET then fds @ [fd] else fds) s)
         else bind_all_loop k pf ty port ais name fds s)"

text \<open>
  The result is the Boolean and the array. \<open>junk\<close> is what the uninitialised \<open>name\<close> holds. When
  \<open>getaddrinfo\<close> fails with a positive code the check \<open>status < 0\<close> lets it pass and \<open>addrs\<close> is read
  uninitialised: \<open>None\<close>.
\<close>

definition network_bind_all ::
  "kernel \<Rightarrow> platform \<Rightarrow> string \<Rightarrow> socktype \<Rightarrow> u16 \<Rightarrow> 'z sys_scheme \<Rightarrow> ((bool \<times> int list) \<times> 'z sys_scheme) option" where
  "network_bind_all k pf junk ty port s =
     (if have_inet6 pf then
        (let service = show_nat (unat port)
         in if length service > 16 then
              Some ((False, []), set_errno EINVAL
                (report Warn ''cannot convert port %hu to string'' [MNum (uint port)] s))
            else
              (let ((status, addrs), s) =
                     sys_getaddrinfo k None (Some service) (AI_PASSIVE + AI_ADDRCONFIG) AF_UNSPEC ty s
               in if status < 0 then
                    Some ((False, []), set_errno EINVAL
                      (report Warn ''getaddrinfo for %s failed: %s'' [MStr service, MNum status] s))
                  else if status > 0 then None
                  else (let (fds, s) = bind_all_loop k pf ty port addrs junk [] s
                        in Some ((fds \<noteq> [], fds), s))))
      else
        (let (fd, s) = network_bind_ipv4 k pf ty ''0.0.0.0'' port s
         in if fd = INVALID_SOCKET then Some ((False, []), s) else Some ((True, [fd]), s)))"

section \<open>Waiting for a message\<close>

definition max_fd :: "int list \<Rightarrow> int" where
  "max_fd fds = foldl (\<lambda>maxfd fd. if fd > maxfd then fd else maxfd) (-1) fds"

definition network_wait_any :: "kernel \<Rightarrow> int list \<Rightarrow> 'z sys_scheme \<Rightarrow> int \<times> 'z sys_scheme" where
  "network_wait_any k fds s =
     (let (ready, s) = sys_select_read k (max_fd fds + 1) fds None s
      in case ready of None \<Rightarrow> (INVALID_SOCKET, s)
         | Some readfds \<Rightarrow>
             (case find (\<lambda>fd. fd \<in> set readfds) fds of
                None \<Rightarrow> (INVALID_SOCKET, s) | Some fd \<Rightarrow> (fd, s)))"

text \<open>The client's address, which \<open>accept\<close> stores, is left to the kernel.\<close>

definition network_accept_any :: "kernel \<Rightarrow> int list \<Rightarrow> 'z sys_scheme \<Rightarrow> int \<times> 'z sys_scheme" where
  "network_accept_any k fds s =
     (let (fd, s) = network_wait_any k fds s
      in if fd = INVALID_SOCKET then (INVALID_SOCKET, s)
         else (let (r, s) = perform k (Sock (CAccept fd)) s in (num_of r, s)))"

section \<open>Connecting\<close>

definition network_source ::
  "kernel \<Rightarrow> platform \<Rightarrow> int \<Rightarrow> family \<Rightarrow> string option \<Rightarrow> 'z sys_scheme \<Rightarrow> bool \<times> 'z sys_scheme" where
  "network_source k pf fd fam source s =
     (case source of None \<Rightarrow> (True, s)
      | Some src \<Rightarrow>
          if src = ''all'' \<or> src = ''any'' then (True, s)
          else if fam = AF_INET then
            (case aton pf src of None \<Rightarrow> (False, set_errno EINVAL s)
             | Some addr \<Rightarrow> (let (r, s) = sys_bind k fd (SIn addr 0) s in (r = 0, s)))
          else if fam = AF_INET6 \<and> have_inet6 pf then
            (case inet_pton6 pf src of None \<Rightarrow> (False, set_errno EINVAL s)
             | Some addr \<Rightarrow> (let (r, s) = sys_bind k fd (SIn6 addr 0) s in (r = 0, s)))
          else (False, set_errno EAFNOSUPPORT s))"

text \<open>The loop of \<open>connect_wait\<close>, which only a signal that never stops coming keeps going.\<close>

partial_function (option) wait_writable ::
  "kernel \<Rightarrow> int \<Rightarrow> int \<Rightarrow> 'z sys_scheme \<Rightarrow> (int list option \<times> 'z sys_scheme) option" where
  "wait_writable k fd timeout s =
     (let rs = sys_select_write k (fd + 1) [fd] (Some timeout) s
      in if fst rs = None \<and> err (snd rs) = EINTR then wait_writable k fd timeout (snd rs) else Some rs)"

definition sys_getsockerr :: "kernel \<Rightarrow> int \<Rightarrow> 'z sys_scheme \<Rightarrow> errno option \<times> 'z sys_scheme" where
  "sys_getsockerr k fd s =
     (let (r, s) = perform k (Sock (CGetsockerr fd)) s
      in (case r of ROk \<Rightarrow> Some EOK | RNum e \<Rightarrow> Some (if e = 0 then EOK else EOTHER (nat e)) | _ \<Rightarrow> None, s))"

definition connect_wait :: "kernel \<Rightarrow> int \<Rightarrow> int \<Rightarrow> 'z sys_scheme \<Rightarrow> (int \<times> 'z sys_scheme) option" where
  "connect_wait k fd timeout s = do {
     (ready, s) \<leftarrow> wait_writable k fd timeout s;
     case ready of
       None \<Rightarrow> Some (-1, s)
     | Some [] \<Rightarrow> Some (-1, set_errno ETIMEDOUT s)
     | Some _ \<Rightarrow>
         (let (e, s) = sys_getsockerr k fd s
          in case e of None \<Rightarrow> Some (-1, s)
             | Some e \<Rightarrow> Some (if e = EOK then 0 else -1, set_errno e s))
   }"

definition connect_one :: "kernel \<Rightarrow> int \<Rightarrow> sockaddr \<Rightarrow> int \<Rightarrow> 'z sys_scheme \<Rightarrow> (int \<times> 'z sys_scheme) option" where
  "connect_one k fd addr timeout s =
     (if timeout = 0 then Some (sys_connect k fd addr s)
      else do {
        let s = snd (fdflag_nonblocking k fd True s);
        let (status, s) = sys_connect k fd addr s;
        (status, s) \<leftarrow> (if status < 0 \<and> err s = EINPROGRESS then connect_wait k fd timeout s
                         else Some (status, s));
        let oerrno = err s;
        let s = snd (fdflag_nonblocking k fd False s);
        Some (status, set_errno oerrno s)
      })"

fun connect_loop ::
  "kernel \<Rightarrow> platform \<Rightarrow> addrinfo list \<Rightarrow> string option \<Rightarrow> int \<Rightarrow> int \<Rightarrow> int \<Rightarrow> 'z sys_scheme
    \<Rightarrow> ((int \<times> int) \<times> 'z sys_scheme) option" where
  "connect_loop k pf [] source timeout fd status s = Some ((fd, status), s)"
| "connect_loop k pf (ai # ais) source timeout fd status s =
     (if status = 0 then Some ((fd, status), s)
      else (let s = (if fd \<noteq> INVALID_SOCKET then sys_close k fd s else s);
                (fd, s) = sys_socket k (ai_family ai) (ai_socktype ai) (ai_protocol ai) s
            in if fd = INVALID_SOCKET then connect_loop k pf ais source timeout fd status s
               else (let (ok, s) = network_source k pf fd (ai_family ai) source s
                     in if \<not> ok then connect_loop k pf ais source timeout fd status s
                        else do {
                          (status, s) \<leftarrow> connect_one k fd (ai_addr ai) timeout s;
                          connect_loop k pf ais source timeout fd status s
                        })))"

definition network_connect ::
  "kernel \<Rightarrow> platform \<Rightarrow> addrinfo list \<Rightarrow> string option \<Rightarrow> int \<Rightarrow> 'z sys_scheme \<Rightarrow> (int \<times> 'z sys_scheme) option" where
  "network_connect k pf ai source timeout s = do {
     ((fd, status), s) \<leftarrow> connect_loop k pf ai source timeout INVALID_SOCKET (-1) s;
     if status = 0 then Some (fd, s)
     else if fd \<noteq> INVALID_SOCKET then Some (INVALID_SOCKET, set_errno (err s) (sys_close k fd s))
     else Some (INVALID_SOCKET, s)
   }"

definition network_connect_host ::
  "kernel \<Rightarrow> platform \<Rightarrow> string \<Rightarrow> u16 \<Rightarrow> string option \<Rightarrow> int \<Rightarrow> 'z sys_scheme \<Rightarrow> (int \<times> 'z sys_scheme) option" where
  "network_connect_host k pf host port source timeout s =
     (let portbuf = show_nat (unat port)
      in if length portbuf > 16 then Some (INVALID_SOCKET, set_errno EINVAL s)
         else (let ((status, ai), s) =
                     sys_getaddrinfo k (Some host) (Some portbuf) 0 AF_UNSPEC SOCK_STREAM s
               in if status \<noteq> 0 then Some (INVALID_SOCKET, s)
                  else network_connect k pf ai source timeout s))"

definition network_client_create ::
  "kernel \<Rightarrow> platform \<Rightarrow> family \<Rightarrow> socktype \<Rightarrow> string option \<Rightarrow> 'z sys_scheme \<Rightarrow> int \<times> 'z sys_scheme" where
  "network_client_create k pf domain ty source s =
     (let (fd, s) = sys_socket k domain ty 0 s
      in if fd = INVALID_SOCKET then (INVALID_SOCKET, s)
         else (let (ok, s) = network_source k pf fd domain source s
               in if \<not> ok then (INVALID_SOCKET, set_errno (err s) (sys_close k fd s)) else (fd, s)))"

section \<open>Descriptors\<close>

text \<open>
  The descriptors the program has opened and not closed, by the history. It is a multiset, so the
  lemmas hold for any kernel, also one that hands out a number twice.
\<close>

fun open_fds :: "history \<Rightarrow> int multiset" where
  "open_fds [] = {#}"
| "open_fds ((c, r) # h) =
     (case c of Sock (CSocket _ _ _) \<Rightarrow> if 0 \<le> num_of r then add_mset (num_of r) (open_fds h) else open_fds h
      | Sock (CAccept _) \<Rightarrow> if 0 \<le> num_of r then add_mset (num_of r) (open_fds h) else open_fds h
      | Sock (CClose fd) \<Rightarrow> open_fds h - {#fd#}
      | _ \<Rightarrow> open_fds h)"

abbreviation fds_in :: "'z sys_scheme \<Rightarrow> int multiset" where
  "fds_in s \<equiv> open_fds (trace s)"

lemma num_of_cases: "num_of r = -1 \<or> 0 \<le> num_of r"
  by (auto simp: num_of_def split: ret.splits)

lemma socket_fds:
  "sys_socket k fam ty pr s = (fd, s') \<Longrightarrow>
   fds_in s' = (if fd = INVALID_SOCKET then fds_in s else add_mset fd (fds_in s))"
  using num_of_cases[of "k (trace s) (Sock (CSocket fam ty pr))"]
  by (auto simp: sys_defs split_beta INVALID_SOCKET_def)

lemma close_fds [simp]: "fds_in (sys_close k fd s) = fds_in s - {#fd#}"
  by (simp add: sys_defs)

lemma bind_fds: "sys_bind k fd a s = (r, s') \<Longrightarrow> fds_in s' = fds_in s"
  by (auto simp: sys_defs split_beta)

lemma connect_fds: "sys_connect k fd a s = (r, s') \<Longrightarrow> fds_in s' = fds_in s"
  by (auto simp: sys_defs split_beta)

lemma setsockopt_fds: "fds_in (snd (sys_setsockopt k fd opt s)) = fds_in s"
  by (auto simp: sys_defs split_beta)

lemma report_fds [simp]: "fds_in (report l f a s) = fds_in s"
  by simp

lemma network_set_fds [simp]:
  "fds_in (network_set_reuseaddr k fd s) = fds_in s"
  "fds_in (network_set_v6only k fd s) = fds_in s"
  "fds_in (network_set_freebind k fd s) = fds_in s"
  by (auto simp: network_set_reuseaddr_def network_set_v6only_def network_set_freebind_def split_beta
      Let_def setsockopt_fds)

lemma nonblocking_fds [simp]: "fds_in (snd (fdflag_nonblocking k fd flag s)) = fds_in s"
  by (auto simp: fdflag_nonblocking_def sys_getflags_def sys_setflags_def split_beta Let_def)

lemma close_exec_fds [simp]: "fds_in (snd (fdflag_close_exec k fd flag s)) = fds_in s"
  by (auto simp: fdflag_close_exec_def sys_getflags_def sys_setflags_def split_beta Let_def)

lemma source_fds: "network_source k pf fd fam source s = (ok, s') \<Longrightarrow> fds_in s' = fds_in s"
  by (auto simp: network_source_def split_beta Let_def sys_defs split: option.splits if_splits)

lemma wait_writable_fds':
  assumes "wait_writable k fd timeout s = Some rs" shows "fds_in (snd rs) = fds_in s"
proof (rule wait_writable.raw_induct[OF _ assms], goal_cases)
  case (1 f k fd timeout s rs)
  have "fds_in (snd (sys_select_write k (fd + 1) [fd] (Some timeout) s)) = fds_in s"
    by (simp add: sys_defs split_beta)
  then show ?case using 1(1)[of k fd timeout "snd (sys_select_write k (fd + 1) [fd] (Some timeout) s)" rs] 1(2)
    by (auto simp: Let_def split: if_splits)
qed

lemma wait_writable_fds: "wait_writable k fd timeout s = Some (r, s') \<Longrightarrow> fds_in s' = fds_in s"
  using wait_writable_fds'[of k fd timeout s "(r, s')"] by simp

lemma connect_wait_fds: "connect_wait k fd timeout s = Some (r, s') \<Longrightarrow> fds_in s' = fds_in s"
  by (auto simp: connect_wait_def sys_getsockerr_def split_beta Let_def dest!: wait_writable_fds
      split: bind_splits option.splits list.splits)

lemma connect_one_fds:
  assumes "connect_one k fd addr timeout s = Some (r, s')" shows "fds_in s' = fds_in s"
proof (cases "timeout = 0")
  case True
  then show ?thesis using assms connect_fds by (auto simp: connect_one_def)
next
  case False
  obtain r1 s1 where c: "sys_connect k fd addr (snd (fdflag_nonblocking k fd True s)) = (r1, s1)" by fastforce
  then have "fds_in s1 = fds_in s" using connect_fds by fastforce
  then show ?thesis using assms False c
    by (auto simp: connect_one_def Let_def split: bind_splits if_splits dest!: connect_wait_fds)
qed

lemma connect_loop_fds:
  "connect_loop k pf ais source timeout fd status s = Some ((fd', status'), s') \<Longrightarrow>
   fds_in s = (if fd = INVALID_SOCKET then base else add_mset fd base) \<Longrightarrow>
   fds_in s' = (if fd' = INVALID_SOCKET then base else add_mset fd' base)"
proof (induction ais arbitrary: fd status s)
  case Nil
  then show ?case by simp
next
  case (Cons ai ais)
  define s1 where "s1 = (if fd \<noteq> INVALID_SOCKET then sys_close k fd s else s)"
  have s1: "fds_in s1 = base" using Cons.prems(2) by (simp add: s1_def)
  obtain fd2 s2 where sk: "sys_socket k (ai_family ai) (ai_socktype ai) (ai_protocol ai) s1 = (fd2, s2)" by fastforce
  have s2: "fds_in s2 = (if fd2 = INVALID_SOCKET then base else add_mset fd2 base)"
    using socket_fds[OF sk] s1 by simp
  obtain ok s3 where so: "network_source k pf fd2 (ai_family ai) source s2 = (ok, s3)" by fastforce
  have s3: "fds_in s3 = (if fd2 = INVALID_SOCKET then base else add_mset fd2 base)"
    using source_fds[OF so] s2 by simp
  show ?case
  proof (cases "status = 0")
    case True
    then show ?thesis using Cons.prems by simp
  next
    case False
    then have eq: "connect_loop k pf (ai # ais) source timeout fd status s =
       (if fd2 = INVALID_SOCKET then connect_loop k pf ais source timeout fd2 status s2
        else if \<not> ok then connect_loop k pf ais source timeout fd2 status s3
        else Option.bind (connect_one k fd2 (ai_addr ai) timeout s3)
          (\<lambda>(status, s). connect_loop k pf ais source timeout fd2 status s))"
      using sk so by (simp add: s1_def[symmetric] Let_def)
    show ?thesis
    proof (cases "fd2 = INVALID_SOCKET \<or> \<not> ok")
      case True
      then show ?thesis using Cons.prems(1) Cons.IH eq s2 s3 by (auto split: if_splits)
    next
      case False
      then obtain st4 s4 where one: "connect_one k fd2 (ai_addr ai) timeout s3 = Some (st4, s4)"
        and lp: "connect_loop k pf ais source timeout fd2 st4 s4 = Some ((fd', status'), s')"
        using Cons.prems(1) eq by (auto split: bind_splits)
      have "fds_in s4 = add_mset fd2 base" using connect_one_fds[OF one] s3 False by simp
      then show ?thesis using Cons.IH[OF lp] False by simp
    qed
  qed
qed

lemma connect_loop_status:
  "connect_loop k pf ais source timeout fd status s = Some ((fd', 0), s') \<Longrightarrow>
   (status = 0 \<longrightarrow> fd \<noteq> INVALID_SOCKET) \<Longrightarrow> fd' \<noteq> INVALID_SOCKET"
proof (induction ais arbitrary: fd status s)
  case (Cons ai ais)
  then show ?case by (auto simp: Let_def split_beta split: if_splits bind_splits)
qed simp

lemma network_connect_fds:
  assumes "network_connect k pf ai source timeout s = Some (fd, s')"
  shows "fds_in s' = (if fd = INVALID_SOCKET then fds_in s else add_mset fd (fds_in s))"
proof -
  obtain f1 st1 s1 where lp: "connect_loop k pf ai source timeout INVALID_SOCKET (-1) s = Some ((f1, st1), s1)"
    using assms by (auto simp: network_connect_def split: bind_splits)
  have "fds_in s1 = (if f1 = INVALID_SOCKET then fds_in s else add_mset f1 (fds_in s))"
    using connect_loop_fds[OF lp, of "fds_in s"] by simp
  then show ?thesis using assms lp
    by (auto simp: network_connect_def split: if_splits)
qed

lemma connect_loop_returns: "timeout = 0 \<Longrightarrow> \<exists>r. connect_loop k pf ais source timeout fd status s = Some r"
proof (induction ais arbitrary: fd status s)
  case (Cons ai ais)
  then show ?case by (simp add: Let_def split_beta connect_one_def)
qed simp

lemma network_connect_returns: "\<exists>r. network_connect k pf ai source 0 s = Some r"
  using connect_loop_returns[of 0 k pf ai source INVALID_SOCKET "-1" s]
  by (auto simp: network_connect_def)

text \<open>Without a timeout the descriptor returned is the one of the last call, a \<open>connect\<close> to a listed address.\<close>

lemma connect_loop_last:
  "connect_loop k pf ais source 0 fd status s = Some ((fd', 0), s') \<Longrightarrow> status \<noteq> 0 \<Longrightarrow>
   \<exists>ai \<in> set ais. \<exists>h. trace s' = (Sock (CConnect fd' (ai_addr ai)), ROk) # h"
proof (induction ais arbitrary: fd status s)
  case (Cons ai ais)
  let ?lp = "\<lambda>fd st s. connect_loop k pf ais source 0 fd st s"
  define s1 where "s1 = (if fd \<noteq> INVALID_SOCKET then sys_close k fd s else s)"
  obtain fd2 s2 where sk: "sys_socket k (ai_family ai) (ai_socktype ai) (ai_protocol ai) s1 = (fd2, s2)" by fastforce
  obtain ok s3 where so: "network_source k pf fd2 (ai_family ai) source s2 = (ok, s3)" by fastforce
  obtain st4 s4 where co: "sys_connect k fd2 (ai_addr ai) s3 = (st4, s4)" by fastforce
  have eq: "?lp fd2 status s2 = Some ((fd', 0), s') \<or> ?lp fd2 status s3 = Some ((fd', 0), s')
    \<or> ?lp fd2 st4 s4 = Some ((fd', 0), s')"
    using Cons.prems sk so co by (auto simp: s1_def[symmetric] Let_def connect_one_def split: if_splits)
  have head: "st4 = 0 \<Longrightarrow> trace s4 = (Sock (CConnect fd2 (ai_addr ai)), ROk) # trace s3"
    using co by (auto simp: sys_defs split_beta status_of_def split: if_splits)
  show ?case
  proof (cases "?lp fd2 st4 s4 = Some ((fd', 0), s') \<and> st4 = 0")
    case True
    then have "fd' = fd2 \<and> s' = s4" by (cases ais) auto
    then show ?thesis using head True by auto
  next
    case False
    then show ?thesis using eq Cons.IH Cons.prems(2) by fastforce
  qed
qed simp

lemma network_connect_last:
  assumes "network_connect k pf ais source 0 s = Some (fd, s')" "fd \<noteq> INVALID_SOCKET"
  shows "\<exists>ai \<in> set ais. \<exists>h. trace s' = (Sock (CConnect fd (ai_addr ai)), ROk) # h"
proof -
  obtain f1 st1 s1 where lp: "connect_loop k pf ais source 0 INVALID_SOCKET (-1) s = Some ((f1, st1), s1)"
    using assms by (auto simp: network_connect_def split: bind_splits)
  then have "st1 = 0" "f1 = fd" "s1 = s'" using assms by (auto simp: network_connect_def split: if_splits)
  then show ?thesis using connect_loop_last lp by fastforce
qed

lemma network_bind_ipv4_fds:
  assumes "network_bind_ipv4 k pf ty address port s = (fd, s')"
    and "aton pf address \<noteq> None \<or> address = ''any'' \<or> address = ''all''"
  shows "fds_in s' = (if fd = INVALID_SOCKET then fds_in s else add_mset fd (fds_in s))"
proof -
  obtain fd1 s1 where sk: "sys_socket k AF_INET ty 0 s = (fd1, s1)" by fastforce
  have "show_nat 0 = ''0''" by code_simp
  then have "aton_spec ''0.0.0.0'' = Some (cat4 0 0 0 0)" using aton_spec_quad[of 0 0 0 0] by simp
  then have "aton pf ''0.0.0.0'' \<noteq> None"
    using inet_aton_ok[where 'l = 64, of "byte_order pf" "''0.0.0.0''"] by (auto simp: aton_def)
  then obtain a where a: "aton pf (if address = ''any'' \<or> address = ''all'' then ''0.0.0.0'' else address) = Some a"
    using assms(2) by (cases "address = ''any'' \<or> address = ''all''") auto
  obtain r s2 where b: "sys_bind k fd1 (SIn a (htons (byte_order pf) port)) (network_set_reuseaddr k fd1 s1) = (r, s2)"
    by fastforce
  show ?thesis using assms(1) sk a b socket_fds[OF sk] bind_fds[OF b]
    by (auto simp: network_bind_ipv4_def Let_def split: if_splits)
qed

text \<open>An address that does not parse is reported with the new socket still open.\<close>

lemma network_bind_ipv4_leak:
  assumes "network_bind_ipv4 k pf ty address port s = (fd, s')"
    and "aton pf address = None" "address \<noteq> ''any''" "address \<noteq> ''all''"
    and "sys_socket k AF_INET ty 0 s = (fd1, s1)" "fd1 \<noteq> INVALID_SOCKET"
  shows "fd = INVALID_SOCKET \<and> fds_in s' = add_mset fd1 (fds_in s)"
  using assms socket_fds[OF assms(5)] by (auto simp: network_bind_ipv4_def Let_def)

lemma max_fd_upper:
  "(m :: int) \<le> foldl (\<lambda>maxfd fd. if fd > maxfd then fd else maxfd) m fds
   \<and> (\<forall>fd \<in> set fds. fd \<le> foldl (\<lambda>maxfd fd. if fd > maxfd then fd else maxfd) m fds)"
proof (induction fds arbitrary: m)
  case (Cons a fds)
  show ?case
  proof (cases "a > m")
    case True
    then show ?thesis using Cons.IH[of a] order_trans[OF less_imp_le[OF True]] by auto
  next
    case False
    then show ?thesis using Cons.IH[of m] order_trans[OF leI[OF False]] by auto
  qed
qed simp

lemma max_fd_ge: "fd \<in> set fds \<Longrightarrow> fd < max_fd fds + 1"
  using max_fd_upper[of "-1" fds] by (auto simp: max_fd_def)

lemma network_wait_any_ok:
  "fst (network_wait_any k fds s) =
     (case k (trace s) (Io (CSelectRead (max_fd fds + 1) fds None)) of
        RFds ready \<Rightarrow> (case find (\<lambda>fd. fd \<in> set ready) fds of Some fd \<Rightarrow> fd | None \<Rightarrow> INVALID_SOCKET)
      | _ \<Rightarrow> INVALID_SOCKET)"
proof -
  have f: "find (\<lambda>fd. fd \<in> set ready \<and> fd \<in> set fds \<and> fd \<le> max_fd fds) xs = find (\<lambda>fd. fd \<in> set ready) xs"
    if "set xs \<subseteq> set fds" for ready xs
    using that max_fd_ge by (induction xs) auto
  show ?thesis
    by (simp add: network_wait_any_def sys_defs split_beta ready_of_def f Let_def split: ret.split option.split)
qed

end
