(* ===== verification/NetIo.thy ===== *)
theory NetIo
  imports Network
begin

text \<open>
  \<open>util/network.c\<close>, reading and writing: \<open>socket_xread\<close>, which reads a given number of bytes, and
  \<open>network_read\<close> and \<open>network_write\<close>, which do so within a time limit. The loops under a time limit
  do not end when every call is interrupted, so they are partial functions; \<open>None\<close> says that the
  call does not return.
\<close>

section \<open>Reading without a time limit\<close>

text \<open>The bytes got so far; the second result is the last \<open>status\<close>.\<close>

function xread_loop :: "kernel \<Rightarrow> int \<Rightarrow> nat \<Rightarrow> bytes \<Rightarrow> nat \<Rightarrow> int \<Rightarrow> 'z sys_scheme \<Rightarrow> (bytes \<times> int) \<times> 'z sys_scheme" where
  "xread_loop k fd sz got tries status s =
     (if length got < sz then
        (if tries + 1 > 100 then ((got, status), s)
         else (let (r, s') = perform k (Io (CRead fd (sz - length got))) s
               in case read_of (sz - length got) r of
                    Some d \<Rightarrow> if d \<noteq> [] then xread_loop k fd sz (got @ d) 0 (int (length d)) s'
                              else ((got, 0), s')
                  | None \<Rightarrow> if err s' \<noteq> EINTR \<and> err s' \<noteq> EAGAIN then ((got, -1), s')
                            else xread_loop k fd sz got (tries + 1) 0 s'))
      else ((got, status), s))"
  by pat_completeness auto
termination
  by (relation "measures [\<lambda>(k, fd, sz, got, tries, status, s). sz - length got,
                          \<lambda>(k, fd, sz, got, tries, status, s). 101 - tries]")
     (auto simp: neq_Nil_conv split: if_splits dest: read_of_length)

declare xread_loop.simps [simp del]

text \<open>The bytes read are returned with the result, which is their number or -1.\<close>

definition socket_xread :: "kernel \<Rightarrow> int \<Rightarrow> nat \<Rightarrow> 'z sys_scheme \<Rightarrow> (int \<times> bytes) \<times> 'z sys_scheme" where
  "socket_xread k fd sz s =
     (let ((got, status), s) = xread_loop k fd sz [] 0 0 s;
          s = (if status = 0 \<and> length got < sz then set_errno EPIPE s else s)
      in ((if length got < sz then -1 else int (length got), got), s))"

section \<open>Reading and writing within a time limit\<close>

text \<open>The condition of the loop, and what follows when it fails, are the end of every round.\<close>

partial_function (option) read_timed ::
  "kernel \<Rightarrow> int \<Rightarrow> nat \<Rightarrow> int \<Rightarrow> int \<Rightarrow> int \<Rightarrow> bytes \<Rightarrow> 'z sys_scheme \<Rightarrow> ((bool \<times> bytes) \<times> 'z sys_scheme) option" where
  "read_timed k fd tot timeout start now got s =
     (let tv = (if timeout - (now - start) < 1 then 1 else timeout - (now - start));
          sel = sys_select_read k (fd + 1) [fd] (Some tv) s;
          s1 = snd sel
      in case fst sel of
           None \<Rightarrow>
             if err s1 = EINTR then
               (if now - start < timeout then read_timed k fd tot timeout start now got s1
                else Some ((False, got), set_errno ETIMEDOUT s1))
             else Some ((False, got), s1)
         | Some [] \<Rightarrow> Some ((False, got), set_errno ETIMEDOUT s1)
         | Some _ \<Rightarrow>
             (let rd = sys_read k fd (tot - length got) s1; s2 = snd rd
              in case fst rd of
                   None \<Rightarrow>
                     if err s2 = EINTR then
                       (if now - start < timeout then read_timed k fd tot timeout start now got s2
                        else Some ((False, got), set_errno ETIMEDOUT s2))
                     else Some ((False, got), s2)
                 | Some [] \<Rightarrow> Some ((False, got), set_errno EPIPE s2)
                 | Some (c # cs) \<Rightarrow>
                     (let got = got @ c # cs
                      in if length got = tot then Some ((True, got), s2)
                         else (let t = sys_time k s2
                               in if fst t - start < timeout
                                  then read_timed k fd tot timeout start (fst t) got (snd t)
                                  else Some ((False, got), set_errno ETIMEDOUT (snd t))))))"

definition network_read ::
  "kernel \<Rightarrow> int \<Rightarrow> nat \<Rightarrow> int \<Rightarrow> 'z sys_scheme \<Rightarrow> ((bool \<times> bytes) \<times> 'z sys_scheme) option" where
  "network_read k fd tot timeout s =
     (if timeout = 0 then
        (let ((r, got), s) = socket_xread k fd tot s in Some ((r \<ge> 0, got), s))
      else (let (start, s) = sys_time k s in read_timed k fd tot timeout start start [] s))"

text \<open>The loop of \<open>network_write\<close>: \<open>True\<close> once all of \<open>buffer\<close> is out, \<open>False\<close> for \<open>goto fail\<close>.\<close>

partial_function (option) write_timed ::
  "kernel \<Rightarrow> int \<Rightarrow> bytes \<Rightarrow> int \<Rightarrow> int \<Rightarrow> int \<Rightarrow> nat \<Rightarrow> 'z sys_scheme \<Rightarrow> (bool \<times> 'z sys_scheme) option" where
  "write_timed k fd buffer timeout start now sent s =
     (let tv = (if timeout - (now - start) < 1 then 1 else timeout - (now - start));
          sel = sys_select_write k (fd + 1) [fd] (Some tv) s;
          s1 = snd sel
      in case fst sel of
           None \<Rightarrow>
             if err s1 = EINTR then
               (if now - start < timeout then write_timed k fd buffer timeout start now sent s1
                else Some (False, set_errno ETIMEDOUT s1))
             else Some (False, s1)
         | Some [] \<Rightarrow> Some (False, set_errno ETIMEDOUT s1)
         | Some _ \<Rightarrow>
             (let wr = sys_write k fd (drop sent buffer) s1; s2 = snd wr
              in case fst wr of
                   None \<Rightarrow>
                     if err s2 = EINTR then
                       (if now - start < timeout then write_timed k fd buffer timeout start now sent s2
                        else Some (False, set_errno ETIMEDOUT s2))
                     else Some (False, s2)
                 | Some n \<Rightarrow>
                     (if sent + n = length buffer then Some (True, s2)
                      else (let t = sys_time k s2
                            in if fst t - start < timeout
                               then write_timed k fd buffer timeout start (fst t) (sent + n) (snd t)
                               else Some (False, set_errno ETIMEDOUT (snd t))))))"

definition network_write :: "kernel \<Rightarrow> int \<Rightarrow> bytes \<Rightarrow> int \<Rightarrow> 'z sys_scheme \<Rightarrow> (bool \<times> 'z sys_scheme) option" where
  "network_write k fd buffer timeout s =
     (if timeout = 0 then (let (r, s) = xwrite k fd buffer s in Some (r \<ge> 0, s))
      else do {
        let s = snd (fdflag_nonblocking k fd True s);
        let (start, s) = sys_time k s;
        (ok, s) \<leftarrow> write_timed k fd buffer timeout start start 0 s;
        if ok then Some (True, snd (fdflag_nonblocking k fd False s))
        else Some (False, set_errno (err s) (snd (fdflag_nonblocking k fd False s)))
      })"

section \<open>What was read\<close>

text \<open>The bytes \<open>read\<close> has returned from a descriptor, by the history.\<close>

fun received :: "int \<Rightarrow> history \<Rightarrow> bytes" where
  "received fd [] = []"
| "received fd ((c, r) # h) =
     received fd h @
     (case c of Io (CRead fd' n) \<Rightarrow> if fd' = fd then (case read_of n r of Some d \<Rightarrow> d | None \<Rightarrow> []) else []
      | _ \<Rightarrow> [])"

lemma xread_loop_ok:
  "xread_loop k fd sz got tries status s = ((got', status'), s') \<Longrightarrow> length got \<le> sz \<Longrightarrow>
   \<exists>d. got' = got @ d \<and> received fd (trace s') = received fd (trace s) @ d \<and> length got' \<le> sz"
proof (induction k fd sz got tries status s rule: xread_loop.induct)
  case (1 k fd sz got tries status s)
  obtain r s1 where p: "perform k (Io (CRead fd (sz - length got))) s = (r, s1)" by fastforce
  have tr: "trace s1 = (Io (CRead fd (sz - length got)), r) # trace s" using p by (auto simp: perform_def Let_def)
  show ?case
  proof (cases "length got < sz \<and> tries + 1 \<le> 100")
    case False
    then show ?thesis using 1(3,4) by (subst (asm) xread_loop.simps) (auto split: if_splits)
  next
    case True
    show ?thesis
    proof (cases "read_of (sz - length got) r")
      case None
      show ?thesis
      proof (cases "err s1 \<noteq> EINTR \<and> err s1 \<noteq> EAGAIN")
        case True
        then show ?thesis using 1(3,4) p None \<open>length got < sz \<and> _\<close> tr
          by (subst (asm) xread_loop.simps) auto
      next
        case False
        then have "xread_loop k fd sz got (tries + 1) 0 s1 = ((got', status'), s')"
          using 1(3) p None True by (subst (asm) xread_loop.simps) auto
        then show ?thesis using 1(1)[OF _ _ p[symmetric] refl None] True False 1(4) tr None by auto
      qed
    next
      case (Some d)
      note len = read_of_length[OF Some]
      show ?thesis
      proof (cases "d = []")
        case True
        then show ?thesis using 1(3,4) p Some \<open>length got < sz \<and> _\<close> tr
          by (subst (asm) xread_loop.simps) auto
      next
        case False
        then have "xread_loop k fd sz (got @ d) 0 (int (length d)) s1 = ((got', status'), s')"
          using 1(3) p Some True by (subst (asm) xread_loop.simps) auto
        moreover have "length (got @ d) \<le> sz" using len True by auto
        ultimately show ?thesis using 1(2)[OF _ _ p[symmetric] refl Some False] True tr Some by auto
      qed
    qed
  qed
qed

lemma socket_xread_ok:
  assumes "socket_xread k fd sz s = ((r, got), s')"
  shows "received fd (trace s') = received fd (trace s) @ got \<and> length got \<le> sz
    \<and> r = (if length got = sz then int sz else -1)"
proof -
  obtain status s1 where "xread_loop k fd sz [] 0 0 s = ((got, status), s1)"
    and s': "trace s' = trace s1" and r: "r = (if length got < sz then -1 else int (length got))"
    using assms by (cases "xread_loop k fd sz [] 0 0 s") (auto simp: socket_xread_def Let_def split_beta)
  from xread_loop_ok[OF this(1)] s' r show ?thesis by auto
qed

lemma read_timed_ok:
  assumes "read_timed k fd tot timeout start now got s = Some rs" "length got \<le> tot"
  shows "\<exists>d. snd (fst rs) = got @ d \<and> received fd (trace (snd rs)) = received fd (trace s) @ d
    \<and> length (snd (fst rs)) \<le> tot \<and> (fst (fst rs) \<longrightarrow> length (snd (fst rs)) = tot)"
proof -
  have "length got \<le> tot \<longrightarrow> ?thesis"
  proof (rule read_timed.raw_induct[OF _ assms(1)], goal_cases)
    case (1 f k fd tot timeout start now got s rs)
    define tv where "tv = (if timeout - (now - start) < 1 then 1 else timeout - (now - start))"
    define s1 where "s1 = snd (sys_select_read k (fd + 1) [fd] (Some tv) s)"
    define rd where "rd = sys_read k fd (tot - length got) s1"
    have r1: "received fd (trace s1) = received fd (trace s)" by (simp add: s1_def sys_defs split_beta)
    have r2: "received fd (trace (snd rd)) = received fd (trace s) @ (case fst rd of Some d \<Rightarrow> d | None \<Rightarrow> [])"
      by (simp add: rd_def r1 sys_defs split_beta)
    have len: "fst rd = Some d \<Longrightarrow> length d \<le> tot - length got" for d
      by (auto simp: rd_def sys_defs split_beta dest: read_of_length)
    have t: "received fd (trace (snd (sys_time k s0))) = received fd (trace s0)" for s0 :: "'a sys_scheme"
      by (simp add: sys_defs split_beta)
    note IH = 1(1)
    show ?case
    proof
      assume le: "length got \<le> tot"
      show "\<exists>d. snd (fst rs) = got @ d \<and> received fd (trace (snd rs)) = received fd (trace s) @ d
        \<and> length (snd (fst rs)) \<le> tot \<and> (fst (fst rs) \<longrightarrow> length (snd (fst rs)) = tot)"
      proof (cases "fst (sys_select_read k (fd + 1) [fd] (Some tv) s)")
        case None
        then show ?thesis using 1(2) le r1 IH[of k fd tot timeout start now got s1 rs]
          by (auto simp: Let_def tv_def[symmetric] s1_def[symmetric] split: if_splits)
      next
        case (Some l)
        show ?thesis
        proof (cases l)
          case Nil
          then show ?thesis using 1(2) le r1 Some
            by (auto simp: Let_def tv_def[symmetric] s1_def[symmetric])
        next
          case (Cons x xs)
          note sel = Some Cons
          show ?thesis
          proof (cases "fst rd")
            case None
            then show ?thesis using 1(2) le r2 sel IH[of k fd tot timeout start now got "snd rd" rs]
              by (auto simp: Let_def tv_def[symmetric] s1_def[symmetric] rd_def[symmetric] split: if_splits)
          next
            case rds: (Some d)
            show ?thesis
            proof (cases d)
              case Nil
              then show ?thesis using 1(2) le r2 sel rds
                by (auto simp: Let_def tv_def[symmetric] s1_def[symmetric] rd_def[symmetric])
            next
              case (Cons c cs)
              have le2: "length (got @ c # cs) \<le> tot" using len[OF rds] Cons le by auto
              then show ?thesis using 1(2) r2 sel rds Cons t
                  IH[of k fd tot timeout start "fst (sys_time k (snd rd))" "got @ c # cs" "snd (sys_time k (snd rd))" rs]
                by (auto simp: Let_def tv_def[symmetric] s1_def[symmetric] rd_def[symmetric] split: if_splits)
            qed
          qed
        qed
      qed
    qed
  qed
  then show ?thesis using assms(2) by blast
qed

lemma network_read_ok:
  assumes "network_read k fd tot timeout s = Some ((ok, got), s')"
  shows "received fd (trace s') = received fd (trace s) @ got \<and> length got \<le> tot
    \<and> (ok \<longrightarrow> length got = tot)"
proof (cases "timeout = 0")
  case True
  obtain r got1 s1 where x: "socket_xread k fd tot s = ((r, got1), s1)" by (metis surj_pair)
  then have "got1 = got \<and> s1 = s' \<and> ok = (r \<ge> 0)" using assms True by (auto simp: network_read_def)
  then show ?thesis using socket_xread_ok[OF x] by (auto split: if_splits)
next
  case False
  then have "read_timed k fd tot timeout (fst (sys_time k s)) (fst (sys_time k s)) [] (snd (sys_time k s))
    = Some ((ok, got), s')" using assms by (simp add: network_read_def split_beta Let_def)
  from read_timed_ok[OF this] show ?thesis by (auto simp: sys_defs split_beta)
qed

text \<open>
  When every call is interrupted the loop never ends, although the time limit passes: an
  interrupted round does not look at the clock.
\<close>

lemma read_timed_interrupted:
  assumes "\<And>h c. \<exists>io. c = Io io \<Longrightarrow> k h c = RErr EINTR" "now - start < timeout"
  shows "read_timed k fd tot timeout start now got s \<noteq> Some rs"
proof
  assume "read_timed k fd tot timeout start now got s = Some rs"
  then have "(\<forall>h io. k h (Io io) = RErr EINTR) \<and> now - start < timeout \<longrightarrow> False"
  proof (rule read_timed.raw_induct[rotated], goal_cases)
    case (1 f k fd tot timeout start now got s rs)
    show ?case
    proof
      assume *: "(\<forall>h io. k h (Io io) = RErr EINTR) \<and> now - start < timeout"
      let ?s = "\<lambda>tv. snd (sys_select_read k (fd + 1) [fd] (Some tv) s)"
      have "fst (sys_select_read k (fd + 1) [fd] (Some tv) s) = None \<and> err (?s tv) = EINTR" for tv
        using * by (simp add: sys_defs ready_of_def perform_def Let_def)
      then show False using 1(2) 1(1)[of k fd tot timeout start now got _ rs] *
        by (auto simp: Let_def split: if_splits)
    qed
  qed
  then show False using assms by blast
qed

text \<open>When no call is interrupted, every round that goes on has read something, so the loop ends.\<close>

lemma read_timed_returns:
  assumes k: "\<And>h c. k h c \<noteq> RErr EINTR"
  shows "err s \<noteq> EINTR \<Longrightarrow> \<exists>rs. read_timed k fd tot timeout start now got s = Some rs"
proof (induction "tot - length got" arbitrary: now got s rule: less_induct)
  case less
  have err: "err (snd (perform k c s0)) \<noteq> EINTR" if "err s0 \<noteq> EINTR" for c and s0 :: "'a sys_scheme"
    using that k by (auto simp: perform_def Let_def split: ret.splits)
  define tv where "tv = (if timeout - (now - start) < 1 then 1 else timeout - (now - start))"
  define s1 where "s1 = snd (sys_select_read k (fd + 1) [fd] (Some tv) s)"
  define rd where "rd = sys_read k fd (tot - length got) s1"
  have e1: "err s1 \<noteq> EINTR" using err less.prems by (simp add: s1_def sys_defs split_beta)
  have e2: "err (snd rd) \<noteq> EINTR" using err e1 by (simp add: rd_def sys_defs split_beta)
  have e3: "err (snd (sys_time k (snd rd))) \<noteq> EINTR" using err e2 by (simp add: sys_defs split_beta)
  show ?case
  proof (cases "\<exists>x xs c cs. fst (sys_select_read k (fd + 1) [fd] (Some tv) s) = Some (x # xs) \<and> fst rd = Some (c # cs)")
    case False
    then show ?thesis using e1 e2
      by (subst read_timed.simps) (auto simp: Let_def tv_def[symmetric] s1_def[symmetric] rd_def[symmetric]
          neq_Nil_conv split: option.splits list.splits)
  next
    case True
    then obtain x xs c cs where sel: "fst (sys_select_read k (fd + 1) [fd] (Some tv) s) = Some (x # xs)"
      and rds: "fst rd = Some (c # cs)" by blast
    have "length (c # cs) \<le> tot - length got"
      using rds by (auto simp: rd_def sys_defs split_beta dest!: read_of_length)
    then have "tot - length (got @ c # cs) < tot - length got" by simp
    from less.hyps[OF this e3] sel rds show ?thesis
      by (subst read_timed.simps) (auto simp: Let_def tv_def[symmetric] s1_def[symmetric] rd_def[symmetric])
  qed
qed

lemma write_timed_ok:
  assumes "write_timed k fd buffer timeout start now sent s = Some rs" "sent \<le> length buffer"
  shows "\<exists>n. sent + n \<le> length buffer \<and> accepted fd (trace (snd rs)) = accepted fd (trace s) @ take n (drop sent buffer)
    \<and> (fst rs \<longrightarrow> sent + n = length buffer)"
proof -
  have "sent \<le> length buffer \<longrightarrow> ?thesis"
  proof (rule write_timed.raw_induct[OF _ assms(1)], goal_cases)
    case (1 f k fd buffer timeout start now sent s rs)
    define tv where "tv = (if timeout - (now - start) < 1 then 1 else timeout - (now - start))"
    define s1 where "s1 = snd (sys_select_write k (fd + 1) [fd] (Some tv) s)"
    define wr where "wr = sys_write k fd (drop sent buffer) s1"
    have r1: "accepted fd (trace s1) = accepted fd (trace s)" by (simp add: s1_def sys_defs split_beta)
    have r2: "accepted fd (trace (snd wr)) =
      accepted fd (trace s) @ take (case fst wr of Some n \<Rightarrow> n | None \<Rightarrow> 0) (drop sent buffer)"
      using r1 by (auto simp: wr_def sys_defs split_beta accept_bytes_def split: option.splits)
    have len: "fst wr = Some n \<Longrightarrow> n \<le> length buffer - sent" for n
      by (auto simp: wr_def sys_defs split_beta dest: written_of_le)
    have t: "accepted fd (trace (snd (sys_time k s0))) = accepted fd (trace s0)" for s0 :: "'a sys_scheme"
      by (simp add: sys_defs split_beta)
    note IH = 1(1)
    show ?case
    proof
      assume le: "sent \<le> length buffer"
      show "\<exists>n. sent + n \<le> length buffer \<and> accepted fd (trace (snd rs)) = accepted fd (trace s) @ take n (drop sent buffer)
        \<and> (fst rs \<longrightarrow> sent + n = length buffer)"
      proof (cases "fst (sys_select_write k (fd + 1) [fd] (Some tv) s)")
        case None
        then show ?thesis using 1(2) le r1 IH[of k fd buffer timeout start now sent s1 rs]
          by (auto simp: Let_def tv_def[symmetric] s1_def[symmetric] split: if_splits intro: exI[of _ 0])
      next
        case (Some l)
        show ?thesis
        proof (cases l)
          case Nil
          then show ?thesis using 1(2) le r1 Some
            by (auto simp: Let_def tv_def[symmetric] s1_def[symmetric] intro: exI[of _ 0])
        next
          case (Cons x xs)
          note sel = Some Cons
          show ?thesis
          proof (cases "fst wr")
            case None
            then show ?thesis using 1(2) le r2 sel IH[of k fd buffer timeout start now sent "snd wr" rs]
              by (auto simp: Let_def tv_def[symmetric] s1_def[symmetric] wr_def[symmetric]
                  split: if_splits intro: exI[of _ 0])
          next
            case wrs: (Some n)
            have le2: "sent + n \<le> length buffer" using len[OF wrs] le by auto
            show ?thesis
            proof (cases "sent + n \<noteq> length buffer \<and> fst (sys_time k (snd wr)) - start < timeout")
              case True
              then obtain m where "sent + n + m \<le> length buffer" "fst rs \<longrightarrow> sent + n + m = length buffer"
                "accepted fd (trace (snd rs)) = accepted fd (trace s) @ take n (drop sent buffer)
                  @ take m (drop (sent + n) buffer)"
                using 1(2) r2 sel wrs t le2
                  IH[of k fd buffer timeout start "fst (sys_time k (snd wr))" "sent + n" "snd (sys_time k (snd wr))" rs]
                by (auto simp: Let_def tv_def[symmetric] s1_def[symmetric] wr_def[symmetric] split: if_splits)
              then show ?thesis using take_add[of n m "drop sent buffer"]
                by (intro exI[of _ "n + m"]) (simp add: ac_simps)
            next
              case False
              then show ?thesis using 1(2) r2 sel wrs le2 t
                by (auto simp: Let_def tv_def[symmetric] s1_def[symmetric] wr_def[symmetric]
                    split: if_splits intro!: exI[of _ n])
            qed
          qed
        qed
      qed
    qed
  qed
  then show ?thesis using assms(2) by blast
qed

lemma accepted_nonblocking [simp]: "accepted fd (trace (snd (fdflag_nonblocking k fd' flag s))) = accepted fd (trace s)"
  by (auto simp: fdflag_nonblocking_def sys_getflags_def sys_setflags_def split_beta Let_def)

lemma network_write_ok:
  assumes "network_write k fd buffer timeout s = Some (ok, s')"
  shows "\<exists>n \<le> length buffer. accepted fd (trace s') = accepted fd (trace s) @ take n buffer
    \<and> (ok \<longrightarrow> n = length buffer)"
proof (cases "timeout = 0")
  case True
  obtain r s1 where x: "xwrite k fd buffer s = (r, s1)" by fastforce
  then have "s1 = s' \<and> ok = (r \<ge> 0)" using assms True by (auto simp: network_write_def)
  then show ?thesis using xwrite_ok[OF x] by (auto split: if_splits)
next
  case False
  let ?s0 = "snd (fdflag_nonblocking k fd True s)"
  obtain ok1 s1 where w: "write_timed k fd buffer timeout (fst (sys_time k ?s0)) (fst (sys_time k ?s0)) 0
      (snd (sys_time k ?s0)) = Some (ok1, s1)"
    and "ok = ok1" "trace s' = trace (snd (fdflag_nonblocking k fd False s1))"
    using assms False by (auto simp: network_write_def split_beta Let_def split: bind_splits if_splits)
  then have "accepted fd (trace s') = accepted fd (trace s1)" by simp
  then show ?thesis using write_timed_ok[OF w] \<open>ok = ok1\<close> by (auto simp: sys_defs split_beta)
qed

end
