(* ===== verification/Protocol.thy ===== *)
theory Protocol
  imports Machine
begin

text \<open>
  \<open>server/protocol.h\<close>: the constants and packets of the protocol. The multi-byte fields of the
  records hold what the C fields hold, numbers in network byte order; \<open>header_bytes\<close> and
  \<open>reply_bytes\<close> are the memory layout, which depends on the byte order of the host. The lemmas
  read back what a client sees.
\<close>

definition LBCD_PORTNUM :: nat where "LBCD_PORTNUM = 4330"
definition LBCD_MAXMESG :: nat where "LBCD_MAXMESG = 2048"
definition LBCD_MAX_SERVICES :: nat where "LBCD_MAX_SERVICES = 5"
definition LBCD_VERSION :: nat where "LBCD_VERSION = 3"
definition LBCD_TIMEOUT :: int where "LBCD_TIMEOUT = 5"
definition LBCD_OP_LBINFO :: nat where "LBCD_OP_LBINFO = 1"

datatype lbcd_status = LBCD_STATUS_REQUEST | LBCD_STATUS_OK | LBCD_STATUS_ERROR
  | LBCD_STATUS_VERSION | LBCD_STATUS_PROTOCOL | LBCD_STATUS_UNKNOWN_OP

fun status_code :: "lbcd_status \<Rightarrow> u16" where
  "status_code LBCD_STATUS_REQUEST = 0"
| "status_code LBCD_STATUS_OK = 1"
| "status_code LBCD_STATUS_ERROR = 2"
| "status_code LBCD_STATUS_VERSION = 3"
| "status_code LBCD_STATUS_PROTOCOL = 4"
| "status_code LBCD_STATUS_UNKNOWN_OP = 5"

text \<open>\<open>sizeof (lbcd_name_type)\<close>, \<open>sizeof (struct lbcd_header)\<close>, \<open>sizeof (struct lbcd_service)\<close>.\<close>

definition NAME_SIZE :: nat where "NAME_SIZE = 32"
definition HEADER_SIZE :: nat where "HEADER_SIZE = 8"
definition SERVICE_SIZE :: nat where "SERVICE_SIZE = 8"

record lbcd_service =
  host_weight :: u32
  host_incr :: u32

record lbcd_header =
  h_version :: u16
  h_id :: u16
  h_op :: u16
  h_status :: u16

record lbcd_reply =
  reply_h :: lbcd_header
  boot_time :: u32
  current_time :: u32
  user_mtime :: u32
  l1 :: u16
  l5 :: u16
  l15 :: u16
  tot_users :: u16
  uniq_users :: u16
  on_console :: u8
  reserved :: u8
  tmp_full_field :: u8
  tmpdir_full :: u8
  pad :: u8
  services :: u8
  weights :: "lbcd_service list"

definition byte_of :: "u8 \<Rightarrow> byte" where
  "byte_of w = char_of (unat w)"

definition header_bytes :: "endian \<Rightarrow> lbcd_header \<Rightarrow> bytes" where
  "header_bytes e h = mem16 e (h_version h) @ mem16 e (h_id h) @ mem16 e (h_op h) @ mem16 e (h_status h)"

definition service_bytes :: "endian \<Rightarrow> lbcd_service \<Rightarrow> bytes" where
  "service_bytes e sv = mem32 e (host_weight sv) @ mem32 e (host_incr sv)"

text \<open>The fields follow one another without padding: each is aligned to its size.\<close>

definition reply_bytes :: "endian \<Rightarrow> lbcd_reply \<Rightarrow> bytes" where
  "reply_bytes e lb =
     header_bytes e (reply_h lb)
     @ mem32 e (boot_time lb) @ mem32 e (current_time lb) @ mem32 e (user_mtime lb)
     @ mem16 e (l1 lb) @ mem16 e (l5 lb) @ mem16 e (l15 lb) @ mem16 e (tot_users lb) @ mem16 e (uniq_users lb)
     @ map byte_of [on_console lb, reserved lb, tmp_full_field lb, tmpdir_full lb, pad lb, services lb]
     @ concat (map (service_bytes e) (weights lb))"

text \<open>\<open>sizeof (struct lbcd_reply)\<close>, with its six service slots.\<close>

definition REPLY_SIZE :: nat where
  "REPLY_SIZE = 84"

definition read_header :: "endian \<Rightarrow> bytes \<Rightarrow> lbcd_header" where
  "read_header e raw =
     \<lparr>h_version = load16 e (take 2 raw), h_id = load16 e (take 2 (drop 2 raw)),
      h_op = load16 e (take 2 (drop 4 raw)), h_status = load16 e (take 2 (drop 6 raw))\<rparr>"

text \<open>The service names of the extended request: \<open>names[i]\<close>, 32 bytes each.\<close>

definition name_field :: "bytes \<Rightarrow> nat \<Rightarrow> bytes" where
  "name_field raw i = take NAME_SIZE (drop (HEADER_SIZE + i * NAME_SIZE) raw)"

section \<open>What a client reads\<close>

lemma length_header_bytes [simp]: "length (header_bytes e h) = HEADER_SIZE"
  by (simp add: header_bytes_def HEADER_SIZE_def)

lemma length_service_bytes [simp]: "length (service_bytes e sv) = SERVICE_SIZE"
  by (simp add: service_bytes_def SERVICE_SIZE_def)

lemma length_services_bytes: "length (concat (map (service_bytes e) svs)) = SERVICE_SIZE * length svs"
  by (induction svs) auto

lemma length_reply_bytes: "length (reply_bytes e lb) = 36 + SERVICE_SIZE * length (weights lb)"
  by (simp add: reply_bytes_def length_services_bytes HEADER_SIZE_def del: length_concat)

lemma reply_size: "length (weights lb) = LBCD_MAX_SERVICES + 1 \<Longrightarrow> length (reply_bytes e lb) = REPLY_SIZE"
  by (simp add: length_reply_bytes LBCD_MAX_SERVICES_def SERVICE_SIZE_def REPLY_SIZE_def)

definition wire_header :: "u16 \<Rightarrow> u16 \<Rightarrow> u16 \<Rightarrow> u16 \<Rightarrow> bytes" where
  "wire_header version ident op status = be16 version @ be16 ident @ be16 op @ be16 status"

text \<open>What is on the wire does not depend on the byte order of the host.\<close>

lemma header_bytes_wire:
  "header_bytes e \<lparr>h_version = htons e v, h_id = htons e i, h_op = htons e p, h_status = htons e st\<rparr> =
   wire_header v i p st"
  by (simp add: header_bytes_def wire_header_def)

lemma read_header_wire:
  assumes "length hb = 8"
  shows "ntohs e (h_version (read_header e (hb @ junk))) = de16 (take 2 hb)"
    "ntohs e (h_id (read_header e (hb @ junk))) = de16 (take 2 (drop 2 hb))"
    "ntohs e (h_op (read_header e (hb @ junk))) = de16 (take 2 (drop 4 hb))"
    "ntohs e (h_status (read_header e (hb @ junk))) = de16 (take 2 (drop 6 hb))"
proof -
  obtain a b c d f g h i where "hb = [a, b, c, d, f, g, h, i]"
    using assms by (auto simp: numeral_eq_Suc length_Suc_conv)
  then show "ntohs e (h_version (read_header e (hb @ junk))) = de16 (take 2 hb)"
    "ntohs e (h_id (read_header e (hb @ junk))) = de16 (take 2 (drop 2 hb))"
    "ntohs e (h_op (read_header e (hb @ junk))) = de16 (take 2 (drop 4 hb))"
    "ntohs e (h_status (read_header e (hb @ junk))) = de16 (take 2 (drop 6 hb))"
    by (simp_all add: read_header_def)
qed

text \<open>The inverse, for a client: the header in host order and the weight pairs of a reply.\<close>

definition parse_header :: "bytes \<Rightarrow> u16 \<times> u16 \<times> u16 \<times> u16" where
  "parse_header bs = (de16 bs, de16 (drop 2 bs), de16 (drop 4 bs), de16 (drop 6 bs))"

fun parse_weights :: "nat \<Rightarrow> bytes \<Rightarrow> (u32 \<times> u32) list" where
  "parse_weights 0 bs = []"
| "parse_weights (Suc n) bs = (de32 bs, de32 (drop 4 bs)) # parse_weights n (drop 8 bs)"

lemma parse_header_wire: "parse_header (wire_header v i p st @ rest) = (v, i, p, st)"
  by (simp add: parse_header_def wire_header_def)

lemma parse_weights_wire:
  assumes "\<And>sv. sv \<in> set svs \<Longrightarrow> host_weight sv = htonl e (f sv) \<and> host_incr sv = htonl e (g sv)"
  shows "parse_weights (length svs) (concat (map (service_bytes e) svs) @ rest) = map (\<lambda>sv. (f sv, g sv)) svs"
  using assms
proof (induction svs)
  case (Cons sv svs)
  have "service_bytes e sv = be32 (f sv) @ be32 (g sv)" using Cons.prems by (simp add: service_bytes_def)
  then show ?case using Cons by simp
qed simp

end
