(* ===== verification/Probes.thy ===== *)
theory Probes
  imports NetIo Protocol
begin

text \<open>
  The service probes of \<open>modules/\<close>: connecting by TCP and UDP (\<open>tcp_socket.c\<close>, \<open>udp_socket.c\<close>),
  checking a reply (\<open>check_reply.c\<close>), and the weight functions that probe a port (\<open>tcp.c\<close>,
  \<open>ftp.c\<close>, \<open>smtp.c\<close>, \<open>nntp.c\<close>, \<open>pop.c\<close>, \<open>imap.c\<close>, \<open>http.c\<close>). A probe returns 0 if the service
  answers and -1 if not, and the weight is that number as an unsigned one.

  Memory that is read before it is written is a field of the environment: \<open>stale\<close> is what the byte
  at a position of a fresh buffer holds, and \<open>stale_status\<close> what an unset wait status says (the exit
  code, or \<open>None\<close> for a process that did not exit). \<open>malloc_room\<close> says for which sizes \<open>malloc\<close> succeeds, and
  \<open>have_ldap\<close> is the build option.
\<close>

record env =
  pf :: platform
  stale :: "nat \<Rightarrow> byte"
  stale_status :: "int option"
  malloc_room :: "nat \<Rightarrow> bool"
  have_ldap :: bool

definition fresh_buffer :: "env \<Rightarrow> nat \<Rightarrow> bytes" where
  "fresh_buffer ev n = map (stale ev) [0..<n]"

text \<open>What a buffer holds once \<open>d\<close> has been stored at its start.\<close>

definition filled :: "bytes \<Rightarrow> bytes \<Rightarrow> bytes" where
  "filled buf d = d @ drop (length d) buf"

text \<open>The shape of all weight functions: weight and increment go in and come out.\<close>

type_synonym 'z weight_fun =
  "u32 \<times> u32 \<Rightarrow> int \<Rightarrow> string option \<Rightarrow> lbcd_reply \<Rightarrow> 'z sys_scheme
    \<Rightarrow> ((int \<times> u32 \<times> u32) \<times> 'z sys_scheme) option"

section \<open>Connections\<close>

definition EAI_NONAME :: int where
  "EAI_NONAME = -2"

text \<open>By the name of the protocol if there is one, and else, or if that fails, by the port.\<close>

definition tcp_resolve ::
  "kernel \<Rightarrow> string \<Rightarrow> string option \<Rightarrow> int \<Rightarrow> 'z sys_scheme \<Rightarrow> (int \<times> addrinfo list) \<times> 'z sys_scheme" where
  "tcp_resolve k host protocol port s =
     (let by_name = (case protocol of None \<Rightarrow> ((EAI_NONAME, []), s)
                     | Some p \<Rightarrow> sys_getaddrinfo k (Some host) (Some p) 0 AF_UNSPEC SOCK_STREAM s)
      in if fst (fst by_name) \<noteq> 0 \<and> port \<noteq> 0
         then sys_getaddrinfo k (Some host) (Some (show_int port)) AI_NUMERICSERV AF_UNSPEC SOCK_STREAM (snd by_name)
         else by_name)"

definition tcp_connect ::
  "kernel \<Rightarrow> env \<Rightarrow> string \<Rightarrow> string option \<Rightarrow> int \<Rightarrow> 'z sys_scheme \<Rightarrow> (int \<times> 'z sys_scheme) option" where
  "tcp_connect k ev host protocol port s =
     (let ((status, ai), s) = tcp_resolve k host protocol port s
      in if status \<noteq> 0 then Some (-1, s) else network_connect k (pf ev) ai None 0 s)"

definition sys_getservbyname :: "kernel \<Rightarrow> string \<Rightarrow> string \<Rightarrow> 'z sys_scheme \<Rightarrow> u16 option \<times> 'z sys_scheme" where
  "sys_getservbyname k name proto s =
     (let (r, s) = perform k (Name (CGetservbyname name proto)) s in (case r of RPort p \<Rightarrow> Some p | _ \<Rightarrow> None, s))"

definition sys_getservbyport :: "kernel \<Rightarrow> u16 \<Rightarrow> string \<Rightarrow> 'z sys_scheme \<Rightarrow> u16 option \<times> 'z sys_scheme" where
  "sys_getservbyport k port proto s =
     (let (r, s) = perform k (Name (CGetservbyport port proto)) s in (case r of RPort p \<Rightarrow> Some p | _ \<Rightarrow> None, s))"

definition sys_gethost :: "kernel \<Rightarrow> name_call \<Rightarrow> 'z sys_scheme \<Rightarrow> u32 option \<times> 'z sys_scheme" where
  "sys_gethost k c s = (let (r, s) = perform k (Name c) s in (case r of RHost a \<Rightarrow> Some a | _ \<Rightarrow> None, s))"

text \<open>\<open>inet_addr\<close>: as \<open>inet_aton\<close>, with all ones for failure.\<close>

definition inet_addr :: "platform \<Rightarrow> string \<Rightarrow> u32" where
  "inet_addr p host = (case aton p host of Some a \<Rightarrow> a | None \<Rightarrow> 0xffffffff)"

text \<open>The port, in network byte order, and the address of the host.\<close>

definition udp_port :: "kernel \<Rightarrow> env \<Rightarrow> string option \<Rightarrow> int \<Rightarrow> 'z sys_scheme \<Rightarrow> u16 \<times> 'z sys_scheme" where
  "udp_port k ev protocol port s =
     (let nport = htons (byte_order (pf ev)) (word_of_int port);
          by_name = (case protocol of None \<Rightarrow> (None, s) | Some p \<Rightarrow> sys_getservbyname k p ''udp'' s)
      in case fst by_name of
           Some p \<Rightarrow> (p, snd by_name)
         | None \<Rightarrow>
             if port = 0 then (0, snd by_name)
             else (let by_port = sys_getservbyport k nport ''udp'' (snd by_name)
                   in case fst by_port of Some p \<Rightarrow> (p, snd by_port) | None \<Rightarrow> (nport, snd by_port)))"

definition udp_host :: "kernel \<Rightarrow> env \<Rightarrow> string \<Rightarrow> 'z sys_scheme \<Rightarrow> u32 option \<times> 'z sys_scheme" where
  "udp_host k ev host s =
     (let addr = inet_addr (pf ev) host
      in if addr \<noteq> 0xffffffff then sys_gethost k (CGethostbyaddr addr) s
         else sys_gethost k (CGethostbyname host) s)"

definition udp_connect ::
  "kernel \<Rightarrow> env \<Rightarrow> string \<Rightarrow> string option \<Rightarrow> int \<Rightarrow> 'z sys_scheme \<Rightarrow> int \<times> 'z sys_scheme" where
  "udp_connect k ev host protocol port s =
     (let (sin_port, s) = udp_port k ev protocol port s;
          (he, s) = udp_host k ev host s
      in case he of None \<Rightarrow> (-1, s)
         | Some h_addr \<Rightarrow>
             (let (sd, s) = sys_socket k AF_INET SOCK_DGRAM 0 s
              in if sd < 0 then (-1, s)
                 else (let (r, s) = sys_connect k sd (SIn h_addr sin_port) s
                       in if r < 0 then (-1, sys_close k sd s) else (sd, s))))"

section \<open>Checking a reply\<close>

definition lbcd_check_reply ::
  "kernel \<Rightarrow> env \<Rightarrow> int \<Rightarrow> int \<Rightarrow> string option \<Rightarrow> 'z sys_scheme \<Rightarrow> int \<times> 'z sys_scheme" where
  "lbcd_check_reply k ev sd timeout token s =
     (case token of None \<Rightarrow> (-1, s)
      | Some token \<Rightarrow>
          if \<not> malloc_room ev (length token + 1) then (-1, s)
          else
          (let len = length token; buf = fresh_buffer ev len @ [NUL];
               (ready, s) = sys_select_read k (sd + 1) [sd] (Some timeout) s
           in if ready = None \<or> ready = Some [] then (-1, s)
              else (let (d, s) = sys_read k sd len s
                    in case d of None \<Rightarrow> (-1, s)
                       | Some d \<Rightarrow> if d = [] then (-1, s)
                                   else (if c_str (filled buf d) \<noteq> token then -1 else 0, s))))"

section \<open>Probing a port\<close>

definition probe_tcp ::
  "kernel \<Rightarrow> env \<Rightarrow> string option \<Rightarrow> string option \<Rightarrow> int \<Rightarrow> string option \<Rightarrow> int \<Rightarrow> 'z sys_scheme
    \<Rightarrow> (int \<times> 'z sys_scheme) option" where
  "probe_tcp k ev host service port replycheck timeout s = do {
     (sd, s) \<leftarrow> tcp_connect k ev (case host of Some h \<Rightarrow> h | None \<Rightarrow> ''localhost'') service port s;
     if sd = INVALID_SOCKET then Some (-1, s)
     else (let (retval, s) =
                 (case replycheck of None \<Rightarrow> (0, s)
                  | Some _ \<Rightarrow>
                      (let (r, s) = lbcd_check_reply k ev sd timeout replycheck s;
                           (_, s) = sys_write k sd (''quit'' @ [CHR 0x0D, CHR 0x0A]) s
                       in (r, s)))
           in Some (retval, sys_close k sd s))
   }"

text \<open>An \<open>int\<close> stored in a \<open>uint32_t\<close>, which is then returned as an \<open>int\<close>.\<close>

definition as_u32 :: "int \<Rightarrow> u32" where
  "as_u32 i = word_of_int i"

definition probe_ftp :: "kernel \<Rightarrow> env \<Rightarrow> string option \<Rightarrow> int \<Rightarrow> 'z sys_scheme \<Rightarrow> (int \<times> 'z sys_scheme) option" where
  "probe_ftp k ev host timeout s = probe_tcp k ev host (Some ''ftp'') 21 (Some ''220'') timeout s"

definition lbcd_ftp_weight :: "kernel \<Rightarrow> env \<Rightarrow> 'z weight_fun" where
  "lbcd_ftp_weight k ev wi timeout portarg lb s = do {
     (r, s) \<leftarrow> probe_ftp k ev (Some ''localhost'') timeout s;
     Some ((sint (as_u32 r), as_u32 r, snd wi), s)
   }"

definition probe_smtp :: "kernel \<Rightarrow> env \<Rightarrow> string option \<Rightarrow> int \<Rightarrow> 'z sys_scheme \<Rightarrow> (int \<times> 'z sys_scheme) option" where
  "probe_smtp k ev host timeout s = probe_tcp k ev host (Some ''smtp'') 25 (Some ''220'') timeout s"

definition lbcd_smtp_weight :: "kernel \<Rightarrow> env \<Rightarrow> 'z weight_fun" where
  "lbcd_smtp_weight k ev wi timeout portarg lb s = do {
     (r, s) \<leftarrow> probe_smtp k ev (Some ''localhost'') timeout s;
     Some ((sint (as_u32 r), as_u32 r, snd wi), s)
   }"

definition probe_nntp :: "kernel \<Rightarrow> env \<Rightarrow> string option \<Rightarrow> int \<Rightarrow> 'z sys_scheme \<Rightarrow> (int \<times> 'z sys_scheme) option" where
  "probe_nntp k ev host timeout s = probe_tcp k ev host (Some ''nntp'') 119 (Some ''200'') timeout s"

definition lbcd_nntp_weight :: "kernel \<Rightarrow> env \<Rightarrow> 'z weight_fun" where
  "lbcd_nntp_weight k ev wi timeout portarg lb s = do {
     (r, s) \<leftarrow> probe_nntp k ev (Some ''localhost'') timeout s;
     Some ((sint (as_u32 r), as_u32 r, snd wi), s)
   }"

definition probe_pop :: "kernel \<Rightarrow> env \<Rightarrow> string option \<Rightarrow> int \<Rightarrow> 'z sys_scheme \<Rightarrow> (int \<times> 'z sys_scheme) option" where
  "probe_pop k ev host timeout s = probe_tcp k ev host (Some ''pop'') 110 (Some ''+OK'') timeout s"

definition lbcd_pop_weight :: "kernel \<Rightarrow> env \<Rightarrow> 'z weight_fun" where
  "lbcd_pop_weight k ev wi timeout portarg lb s = do {
     (r, s) \<leftarrow> probe_pop k ev (Some ''localhost'') timeout s;
     Some ((sint (as_u32 r), as_u32 r, snd wi), s)
   }"

definition probe_imap :: "kernel \<Rightarrow> env \<Rightarrow> string option \<Rightarrow> int \<Rightarrow> 'z sys_scheme \<Rightarrow> (int \<times> 'z sys_scheme) option" where
  "probe_imap k ev host timeout s = do {
     (sd, s) \<leftarrow> tcp_connect k ev (case host of Some h \<Rightarrow> h | None \<Rightarrow> ''localhost'') (Some ''imap'') 143 s;
     if sd = INVALID_SOCKET then Some (-1, s)
     else (let (retval, s) = lbcd_check_reply k ev sd timeout (Some ''* OK'') s;
               (_, s) = sys_write k sd (''tag logout'' @ [CHR 0x0D, CHR 0x0A]) s
           in Some (retval, sys_close k sd s))
   }"

definition lbcd_imap_weight :: "kernel \<Rightarrow> env \<Rightarrow> 'z weight_fun" where
  "lbcd_imap_weight k ev wi timeout portarg lb s = do {
     (r, s) \<leftarrow> probe_imap k ev (Some ''localhost'') timeout s;
     Some ((sint (as_u32 r), as_u32 r, snd wi), s)
   }"

text \<open>\<open>(short) atoi (portarg)\<close>.\<close>

definition short_atoi :: "string \<Rightarrow> int" where
  "short_atoi p = sint (word_of_int (c_atoi p) :: u16)"

text \<open>The query is sent with its terminating nul: the code takes the \<open>sizeof\<close> of the literal.\<close>

definition QUERY :: bytes where
  "QUERY = ''GET / HTTP/1.0'' @ [CHR 0x0D, CHR 0x0A, CHR 0x0D, CHR 0x0A, NUL]"

definition http_ok :: "string \<Rightarrow> bool" where
  "http_ok text =
     (let p = (case c_strstr text ''20'' of None \<Rightarrow> c_strstr text ''30'' | Some q \<Rightarrow> Some q)
      in case p of Some (_ # _ # c # _) \<Rightarrow> c_isdigit c | _ \<Rightarrow> False)"

definition probe_http ::
  "kernel \<Rightarrow> env \<Rightarrow> string option \<Rightarrow> int \<Rightarrow> string option \<Rightarrow> 'z sys_scheme \<Rightarrow> (int \<times> 'z sys_scheme) option" where
  "probe_http k ev host timeout portarg s =
     (let (service, port) =
            (case portarg of None \<Rightarrow> (Some ''http'', 80)
             | Some p \<Rightarrow> if short_atoi p < 1 then (Some ''http'', 80) else (None, short_atoi p))
      in do {
        (sd, s) \<leftarrow> tcp_connect k ev (case host of Some h \<Rightarrow> h | None \<Rightarrow> ''localhost'') service port s;
        if sd = INVALID_SOCKET then Some (-1, s)
        else (let (n, s) = sys_write k sd QUERY s
              in if n = None \<or> the n < length QUERY then Some (-1, sys_close k sd s)
                 else (let (ready, s) = sys_select_read k (sd + 1) [sd] (Some timeout) s
                       in if ready = None \<or> ready = Some [] then Some (-1, sys_close k sd s)
                          else (let (d, s) = sys_read k sd 16 s;
                                    retval = (case d of None \<Rightarrow> -1
                                              | Some d \<Rightarrow> if d = [] then -1
                                                  else if http_ok (c_str (filled (fresh_buffer ev 16 @ [NUL]) d))
                                                  then 0 else -1)
                                in Some (retval, sys_close k sd s))))
      })"

definition lbcd_http_weight :: "kernel \<Rightarrow> env \<Rightarrow> 'z weight_fun" where
  "lbcd_http_weight k ev wi timeout portarg lb s = do {
     (r, s) \<leftarrow> probe_http k ev (Some ''localhost'') timeout portarg s;
     Some ((sint (as_u32 r), as_u32 r, snd wi), s)
   }"

text \<open>The generic probe: without a port, or with one that is not positive, no weight is written.\<close>

definition lbcd_tcp_weight :: "kernel \<Rightarrow> env \<Rightarrow> 'z weight_fun" where
  "lbcd_tcp_weight k ev wi timeout portarg lb s =
     (case portarg of None \<Rightarrow> Some ((-1, wi), s)
      | Some p \<Rightarrow>
          (let numeric = list_all c_isdigit p;
               service = (if numeric then None else Some p);
               port = (if numeric then short_atoi p else 0)
           in if numeric \<and> port < 1 then Some ((-1, wi), s)
              else do {
                (r, s) \<leftarrow> probe_tcp k ev (Some ''localhost'') service port None timeout s;
                Some ((sint (as_u32 r), as_u32 r, snd wi), s)
              }))"

end
