(* ===== verification/Monlist.thy ===== *)
theory Monlist
  imports Probes
begin

text \<open>
  The NTP probe: \<open>modules/monlist.h\<close>, \<open>monlist.c\<close> and \<open>ntp.c\<close>. A mode 7 request is sent and the
  items of the response packets are counted until every packet of the sequence has been seen. A
  server that keeps sending other packets keeps the loop going, so it is a partial function.
\<close>

unbundle bit_operations_syntax

section \<open>Packets\<close>

definition NTP_VERSION :: u8 where "NTP_VERSION = 3"
definition MODE_PRIVATE :: u8 where "MODE_PRIVATE = 7"
definition RESP_BIT :: u8 where "RESP_BIT = 0x80"
definition MORE_BIT :: u8 where "MORE_BIT = 0x40"
definition REQ_MON_GETLIST :: u8 where "REQ_MON_GETLIST = 20"
definition IMPL_XNTPD :: u8 where "IMPL_XNTPD = 2"
definition RESP_HEADER_SIZE :: nat where "RESP_HEADER_SIZE = 8"
definition RESP_SIZE :: nat where "RESP_SIZE = 508"
definition MAXPACKETS :: nat where "MAXPACKETS = 100"

definition ISRESPONSE :: "u8 \<Rightarrow> bool" where
  "ISRESPONSE rm_vn_mode \<longleftrightarrow> rm_vn_mode AND RESP_BIT \<noteq> 0"

definition ISMORE :: "u8 \<Rightarrow> bool" where
  "ISMORE rm_vn_mode \<longleftrightarrow> rm_vn_mode AND MORE_BIT \<noteq> 0"

definition INFO_VERSION :: "u8 \<Rightarrow> u8" where
  "INFO_VERSION rm_vn_mode = drop_bit 3 rm_vn_mode AND 7"

definition INFO_MODE :: "u8 \<Rightarrow> u8" where
  "INFO_MODE rm_vn_mode = rm_vn_mode AND 7"

definition RM_VN_MODE :: "bool \<Rightarrow> bool \<Rightarrow> u8" where
  "RM_VN_MODE resp morebit =
     (if resp then RESP_BIT else 0) OR (if morebit then MORE_BIT else 0) OR push_bit 3 NTP_VERSION OR MODE_PRIVATE"

definition INFO_IS_AUTH :: "u8 \<Rightarrow> bool" where
  "INFO_IS_AUTH auth_seq \<longleftrightarrow> auth_seq AND 0x80 \<noteq> 0"

definition INFO_SEQ :: "u8 \<Rightarrow> u8" where
  "INFO_SEQ auth_seq = auth_seq AND 0x7f"

definition AUTH_SEQ :: "bool \<Rightarrow> u8 \<Rightarrow> u8" where
  "AUTH_SEQ auth sq = (if auth then 0x80 else 0) OR (sq AND 0x7f)"

definition INFO_ERR :: "endian \<Rightarrow> u16 \<Rightarrow> u16" where
  "INFO_ERR e err_nitems = drop_bit 12 (ntohs e err_nitems) AND 0xf"

definition INFO_NITEMS :: "endian \<Rightarrow> u16 \<Rightarrow> u16" where
  "INFO_NITEMS e err_nitems = ntohs e err_nitems AND 0xfff"

definition ERR_NITEMS :: "endian \<Rightarrow> u16 \<Rightarrow> u16 \<Rightarrow> u16" where
  "ERR_NITEMS e er nitems = htons e ((push_bit 12 er AND 0xf000) OR (nitems AND 0xfff))"

definition INFO_MBZ :: "endian \<Rightarrow> u16 \<Rightarrow> u16" where
  "INFO_MBZ e mbz_itemsize = drop_bit 12 (ntohs e mbz_itemsize) AND 0xf"

definition MBZ_ITEMSIZE :: "endian \<Rightarrow> u16 \<Rightarrow> u16" where
  "MBZ_ITEMSIZE e itemsize = htons e itemsize"

text \<open>The request is 8 bytes of header and 44 of data, time stamp and key, all zero.\<close>

record req_pkt =
  q_rm_vn_mode :: u8
  q_auth_seq :: u8
  q_implementation :: u8
  q_request :: u8
  q_err_nitems :: u16
  q_mbz_itemsize :: u16

definition req_bytes :: "endian \<Rightarrow> req_pkt \<Rightarrow> bytes" where
  "req_bytes e q =
     map byte_of [q_rm_vn_mode q, q_auth_seq q, q_implementation q, q_request q]
     @ mem16 e (q_err_nitems q) @ mem16 e (q_mbz_itemsize q) @ replicate 44 NUL"

record resp_pkt =
  r_rm_vn_mode :: u8
  r_auth_seq :: u8
  r_implementation :: u8
  r_request :: u8
  r_err_nitems :: u16
  r_mbz_itemsize :: u16

definition u8_at :: "bytes \<Rightarrow> nat \<Rightarrow> u8" where
  "u8_at d i = of_nat (of_char (d ! i))"

definition resp_of :: "endian \<Rightarrow> bytes \<Rightarrow> resp_pkt" where
  "resp_of e d =
     \<lparr>r_rm_vn_mode = u8_at d 0, r_auth_seq = u8_at d 1, r_implementation = u8_at d 2, r_request = u8_at d 3,
      r_err_nitems = load16 e (take 2 (drop 4 d)), r_mbz_itemsize = load16 e (take 2 (drop 6 d))\<rparr>"

section \<open>Request and response\<close>

definition sendrequest :: "kernel \<Rightarrow> env \<Rightarrow> int \<Rightarrow> u8 \<Rightarrow> u8 \<Rightarrow> 'z sys_scheme \<Rightarrow> int \<times> 'z sys_scheme" where
  "sendrequest k ev sd implcode reqcode s =
     (let e = byte_order (pf ev);
          qpkt = \<lparr>q_rm_vn_mode = RM_VN_MODE False False, q_auth_seq = AUTH_SEQ False 0,
                  q_implementation = implcode, q_request = reqcode,
                  q_err_nitems = ERR_NITEMS e 0 0, q_mbz_itemsize = MBZ_ITEMSIZE e 0\<rparr>;
          (r, s) = perform k (Io (CSend sd (req_bytes e qpkt))) s
      in (if num_of r = -1 then -1 else 0, s))"

definition format_error :: "endian \<Rightarrow> bytes \<Rightarrow> bool" where
  "format_error e d \<longleftrightarrow>
     length d < RESP_HEADER_SIZE \<or> INFO_VERSION (r_rm_vn_mode (resp_of e d)) \<noteq> NTP_VERSION
     \<or> INFO_MODE (r_rm_vn_mode (resp_of e d)) \<noteq> MODE_PRIVATE
     \<or> INFO_IS_AUTH (r_auth_seq (resp_of e d)) \<or> \<not> ISRESPONSE (r_rm_vn_mode (resp_of e d))
     \<or> INFO_MBZ e (r_mbz_itemsize (resp_of e d)) \<noteq> 0"

text \<open>
  What one packet does: it is passed over, ends the loop with a result, or goes on with the state
  \<open>(ritems, seenpacket, lastseq, numrecv)\<close> changed. A packet without the more bit that comes second is
  passed over after its items are counted.
\<close>

type_synonym resp_state = "int \<times> bool list \<times> nat \<times> nat"

datatype resp_step = Finish int resp_state | Go_on resp_state

definition packet_step :: "endian \<Rightarrow> u8 \<Rightarrow> u8 \<Rightarrow> bytes \<Rightarrow> resp_state \<Rightarrow> resp_step" where
  "packet_step e implcode reqcode d st =
     (let (ritems, seen, lastseq, numrecv) = st; rpkt = resp_of e d
      in if format_error e d then Go_on st
         else if r_implementation rpkt \<noteq> implcode \<or> r_request rpkt \<noteq> reqcode then Go_on st
         else if INFO_ERR e (r_err_nitems rpkt) \<noteq> 0 then Finish (uint (INFO_ERR e (r_err_nitems rpkt))) st
         else (let sq = unat (INFO_SEQ (r_auth_seq rpkt))
               in if sq \<ge> MAXPACKETS then Go_on st
                  else if seen ! sq then Go_on st
                  else (let seen = seen[sq := True];
                            ritems = ritems + uint (INFO_NITEMS e (r_err_nitems rpkt));
                            final = \<not> ISMORE (r_rm_vn_mode rpkt)
                        in if final \<and> lastseq \<noteq> 999 then Go_on (ritems, seen, lastseq, numrecv)
                           else (let lastseq = (if final then sq else lastseq); numrecv = numrecv + 1
                                 in if numrecv \<le> lastseq then Go_on (ritems, seen, lastseq, numrecv)
                                    else Finish 0 (ritems, seen, lastseq, numrecv)))))"

text \<open>
  Every \<open>select\<close> gets the whole timeout, as by the standard; that Linux stores the time that is left in
  \<open>tv\<close>, which makes the next wait shorter, is not modelled.
\<close>

partial_function (option) response_loop ::
  "kernel \<Rightarrow> endian \<Rightarrow> int \<Rightarrow> u8 \<Rightarrow> u8 \<Rightarrow> int \<Rightarrow> resp_state \<Rightarrow> 'z sys_scheme
    \<Rightarrow> ((int \<times> resp_state) \<times> 'z sys_scheme) option" where
  "response_loop k e sd implcode reqcode timeout st s =
     (let sel = sys_select_read k (sd + 1) [sd] (Some timeout) s
      in if fst sel = None \<or> fst sel = Some [] then Some ((-1, st), snd sel)
         else (let rd = sys_read k sd RESP_SIZE (snd sel)
               in case fst rd of
                    None \<Rightarrow> Some ((-1, st), snd rd)
                  | Some d \<Rightarrow>
                      (case packet_step e implcode reqcode d st of
                         Finish r st' \<Rightarrow> Some ((r, st'), snd rd)
                       | Go_on st' \<Rightarrow> response_loop k e sd implcode reqcode timeout st' (snd rd))))"

definition getresponse ::
  "kernel \<Rightarrow> env \<Rightarrow> int \<Rightarrow> u8 \<Rightarrow> u8 \<Rightarrow> int \<Rightarrow> 'z sys_scheme \<Rightarrow> ((int \<times> int) \<times> 'z sys_scheme) option" where
  "getresponse k ev sd implcode reqcode timeout s = do {
     ((r, (ritems, seen, lastseq, numrecv)), s) \<leftarrow>
       response_loop k (byte_order (pf ev)) sd implcode reqcode timeout
         (0, replicate MAXPACKETS False, 999, 0) s;
     Some ((r, ritems), s)
   }"

definition monlist :: "kernel \<Rightarrow> env \<Rightarrow> int \<Rightarrow> int \<Rightarrow> 'z sys_scheme \<Rightarrow> (int \<times> 'z sys_scheme) option" where
  "monlist k ev sd timeout s =
     (let (res, s) = sendrequest k ev sd IMPL_XNTPD REQ_MON_GETLIST s
      in if res \<noteq> 0 then Some (-1, s)
         else do {
           ((res, peers), s) \<leftarrow> getresponse k ev sd IMPL_XNTPD REQ_MON_GETLIST timeout s;
           if res \<noteq> 0 then Some (-1, s) else Some (peers, s)
         })"

definition probe_ntp :: "kernel \<Rightarrow> env \<Rightarrow> string option \<Rightarrow> int \<Rightarrow> 'z sys_scheme \<Rightarrow> (int \<times> 'z sys_scheme) option" where
  "probe_ntp k ev host timeout s =
     (let (sd, s) = udp_connect k ev (case host of Some h \<Rightarrow> h | None \<Rightarrow> ''localhost'') (Some ''ntp'') 123 s
      in if sd = -1 then Some (-1, s)
         else do {
           (retval, s) \<leftarrow> monlist k ev sd timeout s;
           Some (retval, sys_close k sd s)
         })"

definition lbcd_ntp_weight :: "kernel \<Rightarrow> env \<Rightarrow> 'z weight_fun" where
  "lbcd_ntp_weight k ev wi timeout portarg lb s = do {
     (r, s) \<leftarrow> probe_ntp k ev (Some ''localhost'') timeout s;
     Some ((if as_u32 r = as_u32 (-1) then -1 else 0, as_u32 r, snd wi), s)
   }"

section \<open>Bounds\<close>

text \<open>
  The invariant of the loop: each of the packets seen added at most 4095 items, and the index into
  the flags stays in range.
\<close>

definition resp_inv :: "resp_state \<Rightarrow> bool" where
  "resp_inv st \<longleftrightarrow>
     (let (ritems, seen, lastseq, numrecv) = st
      in length seen = MAXPACKETS \<and> 0 \<le> ritems \<and> ritems \<le> 4095 * int (length (filter (\<lambda>b. b) seen))
         \<and> numrecv \<le> length (filter (\<lambda>b. b) seen) \<and> (lastseq = 999 \<or> lastseq < MAXPACKETS))"

fun step_state :: "resp_step \<Rightarrow> resp_state" where
  "step_state (Finish r st) = st"
| "step_state (Go_on st) = st"

lemma filter_update_True:
  "i < length seen \<Longrightarrow> \<not> seen ! i \<Longrightarrow>
   length (filter (\<lambda>b. b) (seen[i := True])) = Suc (length (filter (\<lambda>b. b) seen))"
proof (induction seen arbitrary: i)
  case (Cons a seen)
  then show ?case by (cases i) auto
qed simp

lemma nitems_bound: "uint (INFO_NITEMS e w) \<le> 4095"
proof -
  have "INFO_NITEMS e w \<le> 0xfff" by (simp add: INFO_NITEMS_def word_and_le1)
  then show ?thesis by (simp add: word_le_def)
qed

lemma packet_step_inv:
  assumes "resp_inv st" shows "resp_inv (step_state (packet_step e implcode reqcode d st))"
proof -
  obtain ritems seen lastseq numrecv where st: "st = (ritems, seen, lastseq, numrecv)" by (cases st)
  have inv: "length seen = MAXPACKETS" "0 \<le> ritems" "ritems \<le> 4095 * int (length (filter (\<lambda>b. b) seen))"
    "numrecv \<le> length (filter (\<lambda>b. b) seen)" "lastseq = 999 \<or> lastseq < MAXPACKETS"
    using assms by (auto simp: st resp_inv_def)
  define sq where "sq = unat (INFO_SEQ (r_auth_seq (resp_of e d)))"
  define n where "n = uint (INFO_NITEMS e (r_err_nitems (resp_of e d)))"
  have n: "0 \<le> n" "n \<le> 4095" using nitems_bound by (auto simp: n_def)
  have upd: "sq < MAXPACKETS \<Longrightarrow> \<not> seen ! sq \<Longrightarrow>
      length (filter (\<lambda>b. b) (seen[sq := True])) = Suc (length (filter (\<lambda>b. b) seen))"
    using filter_update_True inv(1) by simp
  show ?thesis using inv n upd
    by (auto simp: packet_step_def st Let_def resp_inv_def sq_def[symmetric] n_def[symmetric])
qed

lemma response_loop_inv:
  assumes "response_loop k e sd implcode reqcode timeout st s = Some rs" "resp_inv st"
  shows "resp_inv (snd (fst rs))"
proof -
  have "resp_inv st \<longrightarrow> resp_inv (snd (fst rs))"
  proof (rule response_loop.raw_induct[OF _ assms(1)], goal_cases)
    case (1 f k e sd implcode reqcode timeout st s rs)
    show ?case
    proof
      assume inv: "resp_inv st"
      define s1 where "s1 = snd (sys_select_read k (sd + 1) [sd] (Some timeout) s)"
      define rd where "rd = sys_read k sd RESP_SIZE s1"
      show "resp_inv (snd (fst rs))"
      proof (cases "fst rd")
        case None
        then show ?thesis using 1(2) inv
          by (auto simp: Let_def s1_def[symmetric] rd_def[symmetric] split: if_splits)
      next
        case (Some d)
        then show ?thesis
          using 1(2) inv packet_step_inv[OF inv, of e implcode reqcode d]
            1(1)[of k e sd implcode reqcode timeout "step_state (packet_step e implcode reqcode d st)" "snd rd" rs]
          by (auto simp: Let_def s1_def[symmetric] rd_def[symmetric] split: if_splits resp_step.splits)
      qed
    qed
  qed
  then show ?thesis using assms(2) by blast
qed

lemma resp_inv_init: "resp_inv (0, replicate MAXPACKETS False, 999, 0)"
  by (simp add: resp_inv_def)

lemma resp_inv_bound: "resp_inv (ritems, seen, l, n) \<Longrightarrow> 0 \<le> ritems \<and> ritems \<le> 409500"
  using length_filter_le[of "\<lambda>b. b" seen] by (auto simp: resp_inv_def MAXPACKETS_def)

lemma monlist_bounds:
  assumes "monlist k ev sd timeout s = Some (r, s')" shows "r = -1 \<or> 0 \<le> r \<and> r \<le> 409500"
proof -
  have "resp_inv (snd (fst rs))" if "response_loop k (byte_order (pf ev)) sd IMPL_XNTPD REQ_MON_GETLIST timeout
      (0, replicate MAXPACKETS False, 999, 0) s1 = Some rs" for s1 :: "'a sys_scheme" and rs
    by (rule response_loop_inv[OF that resp_inv_init])
  then show ?thesis using assms resp_inv_bound
    by (fastforce simp: monlist_def getresponse_def Let_def split_beta split: if_splits bind_splits)
qed

text \<open>The request on the wire: version 3, mode 7, no more than the codes asked for.\<close>

lemma request_wire:
  "req_bytes e \<lparr>q_rm_vn_mode = RM_VN_MODE False False, q_auth_seq = AUTH_SEQ False 0,
     q_implementation = i, q_request = q, q_err_nitems = ERR_NITEMS e 0 0, q_mbz_itemsize = MBZ_ITEMSIZE e 0\<rparr>
   = [CHR 0x1F, NUL, byte_of i, byte_of q] @ replicate 48 NUL"
proof -
  have "byte_of (RM_VN_MODE False False) = CHR 0x1F" by code_simp
  moreover have "byte_of (AUTH_SEQ False 0) = NUL" by code_simp
  moreover have "be16 0 = [NUL, NUL]" by code_simp
  ultimately show ?thesis
    by (simp add: req_bytes_def ERR_NITEMS_def MBZ_ITEMSIZE_def numeral_eq_Suc)
qed

end
