(* ===== verification/Helper.thy ===== *)
theory Helper
  imports Probes
begin

text \<open>
  The weights that come from another program: \<open>lbcd_cmd_weight\<close> of \<open>server/weight.c\<close>, which runs the
  configured command, and \<open>modules/ldap.c\<close>, which runs \<open>ldapsearch\<close>. The parent's side of \<open>fork\<close> is
  the model; what the child does up to \<open>exec\<close> is the list \<open>child_steps\<close>. Waiting for a child that is
  only ever interrupted does not end, so the waits are partial functions.
\<close>

datatype child_step = ChClose nat | ChDup2 nat nat | ChExec string "string list" | ChExit int

definition child_steps :: "nat \<Rightarrow> nat \<Rightarrow> string \<Rightarrow> string list \<Rightarrow> child_step list" where
  "child_steps fd0 fd1 path args =
     [ChClose fd0, ChClose 2] @ (if fd1 \<noteq> 1 then [ChDup2 fd1 1, ChClose fd1] else [])
     @ [ChExec path args, ChExit 1]"

definition cmd_child :: "nat \<Rightarrow> nat \<Rightarrow> string \<Rightarrow> child_step list" where
  "cmd_child fd0 fd1 lbcd_command = child_steps fd0 fd1 lbcd_command [lbcd_command]"

definition ldap_child :: "nat \<Rightarrow> nat \<Rightarrow> string \<Rightarrow> string option \<Rightarrow> child_step list" where
  "ldap_child fd0 fd1 path host =
     child_steps fd0 fd1 path [''ldapsearch'', ''-x'', ''-LLL'', ''-h'',
       (case host of Some h \<Rightarrow> h | None \<Rightarrow> ''localhost''), ''-b'', ''cn=current,cn=connections,cn=monitor'',
       ''-s'', ''sub'', ''monitorCounter'']"

section \<open>The calls\<close>

definition sys_pipe :: "kernel \<Rightarrow> 'z sys_scheme \<Rightarrow> (nat \<times> nat) option \<times> 'z sys_scheme" where
  "sys_pipe k s = (let (r, s) = perform k (Proc CPipe) s in (case r of RPair a b \<Rightarrow> Some (a, b) | _ \<Rightarrow> None, s))"

text \<open>In the parent \<open>fork\<close> returns the child's number, which is positive.\<close>

definition sys_fork :: "kernel \<Rightarrow> 'z sys_scheme \<Rightarrow> nat option \<times> 'z sys_scheme" where
  "sys_fork k s =
     (let (r, s) = perform k (Proc CFork) s
      in (case r of RNum n \<Rightarrow> if 0 < n then Some (nat n) else None | _ \<Rightarrow> None, s))"

definition sys_fdopen :: "kernel \<Rightarrow> nat \<Rightarrow> 'z sys_scheme \<Rightarrow> bool \<times> 'z sys_scheme" where
  "sys_fdopen k fd s = (let (r, s) = perform k (Proc (CFdopen (int fd))) s in (r = ROk, s))"

definition sys_fclose :: "kernel \<Rightarrow> nat \<Rightarrow> 'z sys_scheme \<Rightarrow> 'z sys_scheme" where
  "sys_fclose k fd s = snd (perform k (Proc (CFclose (int fd))) s)"

definition sys_kill :: "kernel \<Rightarrow> int \<Rightarrow> int \<Rightarrow> 'z sys_scheme \<Rightarrow> int \<times> 'z sys_scheme" where
  "sys_kill k pid sig s = (let (r, s) = perform k (Proc (CKill pid sig)) s in (status_of r, s))"

definition SIGTERM_NUM :: int where "SIGTERM_NUM = 15"
definition SIGKILL_NUM :: int where "SIGKILL_NUM = 9"

text \<open>\<open>waitpid\<close>: the status of the child, \<open>Not_done\<close> for 0 (with \<open>WNOHANG\<close>), or an error.\<close>

datatype wait_result = Exited int | Killed | Not_done | Wait_error

definition sys_waitpid :: "kernel \<Rightarrow> nat \<Rightarrow> int \<Rightarrow> 'z sys_scheme \<Rightarrow> wait_result \<times> 'z sys_scheme" where
  "sys_waitpid k child options s =
     (let (r, s) = perform k (Proc (CWaitpid child options)) s
      in (case r of RExited n \<Rightarrow> Exited n | RSignaled _ \<Rightarrow> Killed | RNum n \<Rightarrow> if n = 0 then Not_done else Wait_error
          | _ \<Rightarrow> Wait_error, s))"

partial_function (option) wait_child ::
  "kernel \<Rightarrow> nat \<Rightarrow> int \<Rightarrow> 'z sys_scheme \<Rightarrow> (wait_result \<times> 'z sys_scheme) option" where
  "wait_child k child options s =
     (let w = sys_waitpid k child options s
      in if fst w = Wait_error \<and> err (snd w) = EINTR then wait_child k child options (snd w) else Some w)"

text \<open>\<open>fgets\<close> into 128 bytes.\<close>

definition sys_fgets :: "kernel \<Rightarrow> nat \<Rightarrow> 'z sys_scheme \<Rightarrow> string option \<times> 'z sys_scheme" where
  "sys_fgets k fd s =
     (let (r, s) = perform k (Proc (CFgets (int fd) 128)) s
      in (case r of RData d \<Rightarrow> if d = [] then None else Some (c_str (take 127 d)) | _ \<Rightarrow> None, s))"

text \<open>The intended \<open>kill (child, sig)\<close>, with the arguments as the code has them.\<close>

definition kill_child :: "kernel \<Rightarrow> nat \<Rightarrow> 'z sys_scheme \<Rightarrow> 'z sys_scheme" where
  "kill_child k child s =
     (let (r, s) = sys_kill k SIGTERM_NUM (int child) s
      in if r = -1 then snd (sys_kill k SIGKILL_NUM (int child) s) else s)"

section \<open>The external command\<close>

definition lbcd_unknown_weight :: "u32 \<times> u32 \<Rightarrow> int \<times> u32 \<times> u32" where
  "lbcd_unknown_weight wi = (0, as_u32 (-1), 0)"

text \<open>One \<open>%d\<close> of \<open>sscanf\<close>: the number and the rest of the input.\<close>

definition scan_d :: "string \<Rightarrow> (u32 \<times> string) option" where
  "scan_d text =
     (case scan_int text of None \<Rightarrow> None
      | Some (neg, ds, rest) \<Rightarrow>
          Some (word_of_int (if neg then - int (digits_val ds) else int (digits_val ds)), rest))"

definition scan_weights :: "string \<Rightarrow> (u32 \<times> u32) option" where
  "scan_weights buf =
     (case scan_d buf of None \<Rightarrow> None
      | Some (w, rest) \<Rightarrow> (case scan_d rest of None \<Rightarrow> None | Some (i, _) \<Rightarrow> Some (w, i)))"

definition lbcd_cmd_weight :: "kernel \<Rightarrow> env \<Rightarrow> 'z weight_fun" where
  "lbcd_cmd_weight k ev wi timeout portarg lb s =
     (let (fd, s) = sys_pipe k s
      in case fd of
           None \<Rightarrow> Some (lbcd_unknown_weight wi, s)
         | Some (fd0, fd1) \<Rightarrow>
             (let (child, s) = sys_fork k s
              in case child of
                   None \<Rightarrow> Some (lbcd_unknown_weight wi, s)
                 | Some child \<Rightarrow>
                     (let s = sys_close k (int fd1) s; (fp, s) = sys_fdopen k fd0 s
                      in if \<not> fp then
                           (let (_, s) = sys_kill k SIGTERM_NUM (int child) s; (_, s) = sys_waitpid k child 0 s
                            in Some (lbcd_unknown_weight wi, s))
                         else do {
                           (w, s) \<leftarrow> wait_child k child 0 s;
                           let st = (case w of Exited n \<Rightarrow> Some n | Not_done \<Rightarrow> stale_status ev | _ \<Rightarrow> None);
                           if w = Wait_error then
                             (let s = kill_child k child (sys_fclose k fd0 s); (_, s) = sys_waitpid k child 0 s
                              in Some (lbcd_unknown_weight wi, s))
                           else if st = None then
                             Some (lbcd_unknown_weight wi, sys_fclose k fd0 (kill_child k child s))
                           else if st \<noteq> Some 0 then Some (lbcd_unknown_weight wi, sys_fclose k fd0 s)
                           else (let (buf, s) = sys_fgets k fd0 s; s = sys_fclose k fd0 s
                                 in case buf of None \<Rightarrow> Some (lbcd_unknown_weight wi, s)
                                    | Some buf \<Rightarrow>
                                        (case scan_weights buf of None \<Rightarrow> Some (lbcd_unknown_weight wi, s)
                                         | Some (w, i) \<Rightarrow> Some ((0, w, i), s)))
                         })))"

section \<open>LDAP\<close>

definition monitor_prefix :: string where
  "monitor_prefix = ''monitorCounter: ''"

partial_function (option) ldap_lines :: "kernel \<Rightarrow> nat \<Rightarrow> 'z sys_scheme \<Rightarrow> (int \<times> 'z sys_scheme) option" where
  "ldap_lines k fd s =
     (let l = sys_fgets k fd s
      in case fst l of None \<Rightarrow> Some (0, snd l)
         | Some buf \<Rightarrow> if take 16 buf \<noteq> monitor_prefix then ldap_lines k fd (snd l)
                       else Some (c_atoi (drop 16 buf), snd l))"

definition probe_ldap :: "kernel \<Rightarrow> env \<Rightarrow> string option \<Rightarrow> int \<Rightarrow> 'z sys_scheme \<Rightarrow> (int \<times> 'z sys_scheme) option" where
  "probe_ldap k ev host timeout s =
     (let (fd, s) = sys_pipe k s
      in case fd of
           None \<Rightarrow> Some (-1, s)
         | Some (fd0, fd1) \<Rightarrow>
             (let (child, s) = sys_fork k s
              in case child of
                   None \<Rightarrow> Some (-1, s)
                 | Some child \<Rightarrow>
                     (let s = sys_close k (int fd1) s; (fp, s) = sys_fdopen k fd0 s
                      in if \<not> fp then Some (-1, s)
                         else do {
                           (w, s) \<leftarrow> wait_child k child timeout s;
                           let st = (case w of Exited n \<Rightarrow> Some n | Not_done \<Rightarrow> stale_status ev | _ \<Rightarrow> None);
                           if w = Wait_error then Some (-1, kill_child k child (sys_fclose k fd0 s))
                           else if st = None then Some (-1, sys_fclose k fd0 (kill_child k child s))
                           else if st \<noteq> Some 0 then Some (-1, sys_fclose k fd0 s)
                           else do {
                             (retval, s) \<leftarrow> ldap_lines k fd0 s;
                             Some (retval, sys_fclose k fd0 s)
                           }
                         })))"

definition lbcd_ldap_weight :: "kernel \<Rightarrow> env \<Rightarrow> 'z weight_fun" where
  "lbcd_ldap_weight k ev wi timeout portarg lb s = do {
     (r, s) \<leftarrow> probe_ldap k ev (Some ''localhost'') timeout s;
     Some ((if as_u32 r = as_u32 (-1) then -1 else 0, as_u32 r, snd wi), s)
   }"

end
