(* ===== verification/Stats.thy ===== *)
theory Stats
  imports Os
begin

text \<open>
  What the server reports about its machine: \<open>server/arch/linux.c\<close> (load and boot time),
  \<open>server/tmp_full.c\<close> (how full a file system is) and \<open>server/get_user.c\<close> (the users logged in).

  Floating point is the record \<open>fpu\<close>: the operations of \<open>double\<close> and its conversions, which
  neither the repository nor HOL define. Nothing is assumed of it.
\<close>

record 'd fpu =
  fp_scan :: "string \<Rightarrow> ('d \<times> string) option"
  fp_int :: "int \<Rightarrow> 'd"
  fp_ratio :: "int \<Rightarrow> int \<Rightarrow> 'd"
  fp_add :: "'d \<Rightarrow> 'd \<Rightarrow> 'd"
  fp_sub :: "'d \<Rightarrow> 'd \<Rightarrow> 'd"
  fp_mul :: "'d \<Rightarrow> 'd \<Rightarrow> 'd"
  fp_div :: "'d \<Rightarrow> 'd \<Rightarrow> 'd"
  fp_less :: "'d \<Rightarrow> 'd \<Rightarrow> bool"
  fp_to_int :: "'d \<Rightarrow> int"
  fp_to_u16 :: "'d \<Rightarrow> u16"

section \<open>Load and boot time\<close>

text \<open>\<open>fopen\<close>, \<open>fscanf\<close> and \<open>fclose\<close> of a small file: its contents, or \<open>None\<close> if it cannot be opened.\<close>

definition sys_read_file :: "kernel \<Rightarrow> string \<Rightarrow> 'z sys_scheme \<Rightarrow> string option \<times> 'z sys_scheme" where
  "sys_read_file k path s =
     (let (r, s) = perform k (File (CReadFile path)) s in (case r of RData d \<Rightarrow> Some d | _ \<Rightarrow> None, s))"

text \<open>\<open>fscanf\<close> with \<open>%lf\<close> directives: the numbers that could be read, at most \<open>n\<close>.\<close>

fun scan_doubles :: "'d fpu \<Rightarrow> nat \<Rightarrow> string \<Rightarrow> 'd list" where
  "scan_doubles fpu 0 input = []"
| "scan_doubles fpu (Suc n) input =
     (case fp_scan fpu (dropWhile c_isspace input) of None \<Rightarrow> []
      | Some (d, rest) \<Rightarrow> d # scan_doubles fpu n rest)"

text \<open>
  The out parameters come in with what the caller's variables hold and go out changed as far as
  \<open>fscanf\<close> got.
\<close>

definition kernel_getload ::
  "kernel \<Rightarrow> 'd fpu \<Rightarrow> 'd \<times> 'd \<times> 'd \<Rightarrow> 'z sys_scheme \<Rightarrow> (int \<times> 'd \<times> 'd \<times> 'd) \<times> 'z sys_scheme" where
  "kernel_getload k fpu junk s =
     (let (l1, l5, l15) = junk; (file, s) = sys_read_file k ''/proc/loadavg'' s
      in case file of
           None \<Rightarrow> ((-1, l1, l5, l15), report Syswarn ''cannot open /proc/loadavg'' [] s)
         | Some text \<Rightarrow>
             (case scan_doubles fpu 3 text of
                [a, b, c] \<Rightarrow> ((0, a, b, c), s)
              | [a, b] \<Rightarrow> ((-1, a, b, l15), report Warn ''cannot parse /proc/loadavg'' [] s)
              | [a] \<Rightarrow> ((-1, a, l5, l15), report Warn ''cannot parse /proc/loadavg'' [] s)
              | _ \<Rightarrow> ((-1, l1, l5, l15), report Warn ''cannot parse /proc/loadavg'' [] s)))"

definition kernel_getboottime ::
  "kernel \<Rightarrow> 'd fpu \<Rightarrow> int \<Rightarrow> 'z sys_scheme \<Rightarrow> (int \<times> int) \<times> 'z sys_scheme" where
  "kernel_getboottime k fpu junk s =
     (let (file, s) = sys_read_file k ''/proc/uptime'' s
      in case file of
           None \<Rightarrow> ((-1, junk), report Syswarn ''cannot open /proc/uptime'' [] s)
         | Some text \<Rightarrow>
             (case scan_doubles fpu 1 text of
                [] \<Rightarrow> ((-1, junk), report Warn ''cannot parse /proc/uptime'' [] s)
              | uptime # _ \<Rightarrow>
                  (let (curr, s) = sys_time k s
                   in ((0, fp_to_int fpu (fp_sub fpu (fp_int fpu curr) uptime)), s))))"

section \<open>How full a file system is\<close>

definition sys_chdir :: "kernel \<Rightarrow> string \<Rightarrow> 'z sys_scheme \<Rightarrow> int \<times> 'z sys_scheme" where
  "sys_chdir k path s = (let (r, s) = perform k (File (CChdir path)) s in (status_of r, s))"

definition sys_statvfs :: "kernel \<Rightarrow> string \<Rightarrow> 'z sys_scheme \<Rightarrow> (nat \<times> nat) option \<times> 'z sys_scheme" where
  "sys_statvfs k path s =
     (let (r, s) = perform k (File (CStatvfs path)) s in (case r of RVfs b a \<Rightarrow> Some (b, a) | _ \<Rightarrow> None, s))"

definition percent_full :: "'d fpu \<Rightarrow> nat \<Rightarrow> nat \<Rightarrow> int" where
  "percent_full fpu f_blocks f_bavail =
     (let blocks = fp_int fpu (int f_blocks); bavail = fp_int fpu (int f_bavail);
          usable = fp_mul fpu blocks (fp_ratio fpu 95 100);
          tot = (if fp_less fpu usable bavail then blocks else usable);
          percent = fp_to_int fpu (fp_add fpu
                      (fp_div fpu (fp_mul fpu (fp_sub fpu tot bavail) (fp_ratio fpu 100 1)) tot)
                      (fp_ratio fpu 1 2));
          percent = (if percent < 0 then 0 else percent)
      in if percent > 100 then 100 else percent)"

definition tmp_full :: "kernel \<Rightarrow> 'd fpu \<Rightarrow> string \<Rightarrow> 'z sys_scheme \<Rightarrow> int \<times> 'z sys_scheme" where
  "tmp_full k fpu path s =
     (let (r, s) = sys_chdir k path s
      in if r \<noteq> 0 then (0, s)
         else (let (info, s) = sys_statvfs k ''.'' s
               in case info of None \<Rightarrow> (0, s)
                  | Some (f_blocks, f_bavail) \<Rightarrow> (percent_full fpu f_blocks f_bavail, s)))"

section \<open>The users logged in\<close>

text \<open>The statics of \<open>get_user_stats\<close>, part of the state of the server.\<close>

record user_cache =
  last_total :: int
  last_uniq :: int
  last_on_console :: int
  last_user_mtime :: int

record ustate = sys +
  ucache :: user_cache

text \<open>
  The statics \<open>users\<close> and the hash table of \<open>hsearch\<close>, which holds up to \<open>cap\<close> keys; entering a key
  into a full table fails, and the failure is ignored. That \<open>hcreate\<close> or \<open>hsearch\<close> run out of memory
  otherwise is not modelled.
\<close>

type_synonym uniq = "string list \<times> string vec"

definition HASH_SIZE :: nat where
  "HASH_SIZE = 211"

definition uniq_start :: uniq where
  "uniq_start = ([], vector_new)"

definition uniq_add :: "nat \<Rightarrow> string \<Rightarrow> uniq \<Rightarrow> uniq option" where
  "uniq_add cap name u =
     (let (table, users) = u
      in if name \<in> set table then Some u
         else do {
           users \<leftarrow> vector_add users name;
           key \<leftarrow> get_slot (v_strings users) (v_count users - 1);
           Some (if length table < cap then key # table else table, users)
         })"

definition uniq_count :: "uniq \<Rightarrow> nat" where
  "uniq_count u = v_count (snd u)"

definition uniq_end :: "uniq \<Rightarrow> string list option" where
  "uniq_end u = vector_free (Some (snd u))"

text \<open>\<open>xstrndup\<close>, which ends the program when there is no memory.\<close>

definition xstrndup :: "bytes \<Rightarrow> nat \<Rightarrow> string option" where
  "xstrndup mem n = map_option (\<lambda>len. take len mem) (strndup_scan mem n)"

fun utmp_loop :: "nat \<Rightarrow> utmp_entry list \<Rightarrow> int \<Rightarrow> int \<Rightarrow> uniq \<Rightarrow> (int \<times> int \<times> uniq) option" where
  "utmp_loop cap [] tot console u = Some (tot, console, u)"
| "utmp_loop cap (ut # uts) tot console u =
     (if \<not> ut_user_process ut then utmp_loop cap uts tot console u
      else do {
        let tot = tot + 1;
        let console = (if take 7 (ut_line ut) = ''console'' then 1 else console);
        let console = (if take 2 (ut_host ut) = '':0'' then 1 else console);
        name \<leftarrow> xstrndup (ut_user ut) (length (ut_user ut));
        u \<leftarrow> uniq_add cap name u;
        utmp_loop cap uts tot console u
      })"

definition sys_stat :: "kernel \<Rightarrow> string \<Rightarrow> 'z sys_scheme \<Rightarrow> (int \<times> nat) option \<times> 'z sys_scheme" where
  "sys_stat k path s =
     (let (r, s) = perform k (File (CStat path)) s in (case r of RStat m u \<Rightarrow> Some (m, u) | _ \<Rightarrow> None, s))"

definition sys_utmp :: "kernel \<Rightarrow> 'z sys_scheme \<Rightarrow> utmp_entry list \<times> 'z sys_scheme" where
  "sys_utmp k s = (let (r, s) = perform k (File CUtmp) s in (case r of RUsers us \<Rightarrow> us | _ \<Rightarrow> [], s))"

definition owned_by_user :: "(int \<times> nat) option \<Rightarrow> bool" where
  "owned_by_user st = (case st of Some (_, uid) \<Rightarrow> uid \<noteq> 0 | None \<Rightarrow> False)"

definition UTMP_FILE :: string where
  "UTMP_FILE = ''/var/run/utmp''"

record user_stats =
  us_total :: int
  us_uniq :: int
  us_on_console :: int
  us_user_mtime :: int

definition get_user_stats ::
  "kernel \<Rightarrow> nat \<Rightarrow> 'z ustate_scheme \<Rightarrow> (user_stats \<times> 'z ustate_scheme) option" where
  "get_user_stats k cap s =
     (let (st, s) = sys_stat k UTMP_FILE s;
          mtime = (case st of Some (m, _) \<Rightarrow> m | None \<Rightarrow> 0);
          c = ucache s
      in if mtime > 0 \<and> mtime = last_user_mtime c then
           Some (\<lparr>us_total = last_total c, us_uniq = last_uniq c,
                  us_on_console = last_on_console c, us_user_mtime = mtime\<rparr>, s)
         else do {
           let (c1, s) = sys_stat k ''/dev/console'' s;
           let (c2, s) = sys_stat k ''/dev/tty1'' s;
           let console = (if owned_by_user c2 then 1 else if owned_by_user c1 then 1 else 0);
           let (entries, s) = sys_utmp k s;
           (tot, console, u) \<leftarrow> utmp_loop cap entries 0 console uniq_start;
           let uniq = int (uniq_count u);
           _ \<leftarrow> uniq_end u;
           Some (\<lparr>us_total = tot, us_uniq = uniq, us_on_console = console, us_user_mtime = mtime\<rparr>,
                 s\<lparr>ucache := \<lparr>last_total = tot, last_uniq = uniq,
                              last_on_console = console, last_user_mtime = mtime\<rparr>\<rparr>)
         })"

section \<open>Lemmas\<close>

lemma percent_full_bounds: "0 \<le> percent_full fpu b a \<and> percent_full fpu b a \<le> 100"
  by (simp add: percent_full_def Let_def)

lemma tmp_full_bounds: "tmp_full k fpu path s = (p, s') \<Longrightarrow> 0 \<le> p \<and> p \<le> 100"
  using percent_full_bounds by (auto simp: tmp_full_def split_beta Let_def split: if_splits option.splits)

text \<open>The user part of an entry, and what the loop computes: a count and the distinct names.\<close>

definition user_name :: "utmp_entry \<Rightarrow> string" where
  "user_name ut = c_str (ut_user ut)"

definition on_console_entry :: "utmp_entry \<Rightarrow> bool" where
  "on_console_entry ut \<longleftrightarrow> take 7 (ut_line ut) = ''console'' \<or> take 2 (ut_host ut) = '':0''"

lemma xstrndup_full: "xstrndup mem (length mem) = Some (c_str mem)"
  using strndup_scan_defined[of "length mem" mem] strndup_scan_c_str[of mem "length mem"]
  by (auto simp: xstrndup_def)

text \<open>
  The invariant of the table: it holds exactly the users found so far, without duplicates, as long
  as they fit.
\<close>

definition uniq_inv :: "uniq \<Rightarrow> bool" where
  "uniq_inv u \<longleftrightarrow> vec_inv (snd u) \<and> set (fst u) = set (vec_items (snd u))
     \<and> distinct (vec_items (snd u)) \<and> length (fst u) = length (vec_items (snd u))"

lemma vec_last_slot:
  assumes "vec_inv v" "vec_items v = xs @ [x]"
  shows "get_slot (v_strings v) (v_count v - 1) = Some x"
  using assms(1)
proof (cases rule: vec_cases)
  case (1 ys rest)
  then show ?thesis using assms(2) by (simp add: get_slot_def nth_append)
qed

lemma vec_count_items: "vec_inv v \<Longrightarrow> v_count v = length (vec_items v)"
  by (auto elim: vec_cases)

lemma uniq_add_ok:
  assumes "uniq_inv u" "no_nul name" "length (fst u) < cap \<or> name \<in> set (fst u)"
  shows "\<exists>u'. uniq_add cap name u = Some u' \<and> uniq_inv u'
    \<and> set (vec_items (snd u')) = insert name (set (vec_items (snd u)))"
proof (cases "name \<in> set (fst u)")
  case True
  then show ?thesis using assms by (auto simp: uniq_add_def uniq_inv_def split_beta)
next
  case False
  obtain users where v: "vector_add (snd u) name = Some users" "vec_inv users"
    "vec_items users = vec_items (snd u) @ [name]"
    using vtab.tadd_appends[of "snd u" name] assms by (auto simp: uniq_inv_def)
  then show ?thesis using assms False vec_last_slot[OF v(2,3)]
    by (auto simp: uniq_add_def uniq_inv_def split_beta)
qed

lemma uniq_start_inv: "uniq_inv uniq_start" "vec_items (snd uniq_start) = []"
  by (simp_all add: uniq_inv_def uniq_start_def vector_new_vec_of)

lemma utmp_loop_ok:
  assumes "uniq_inv u"
    and "card (set (vec_items (snd u)) \<union> user_name ` {ut \<in> set uts. ut_user_process ut}) \<le> cap"
  shows "\<exists>u'. utmp_loop cap uts tot console u =
      Some (tot + int (length (filter ut_user_process uts)),
            (if \<exists>ut \<in> set uts. ut_user_process ut \<and> on_console_entry ut then 1 else console), u')
    \<and> uniq_inv u' \<and> set (vec_items (snd u')) = set (vec_items (snd u)) \<union> user_name ` {ut \<in> set uts. ut_user_process ut}"
  using assms
proof (induction uts arbitrary: tot console u)
  case Nil
  then show ?case by simp
next
  case (Cons ut uts)
  show ?case
  proof (cases "ut_user_process ut")
    case False
    have e: "{x \<in> set (ut # uts). ut_user_process x} = {x \<in> set uts. ut_user_process x}" using False by auto
    show ?thesis using Cons.IH[of u tot console] Cons.prems False unfolding e by auto
  next
    case True
    have e: "{x \<in> set (ut # uts). ut_user_process x} = insert ut {x \<in> set uts. ut_user_process x}" using True by auto
    let ?items = "set (vec_items (snd u))"
    have fit: "length (fst u) < cap \<or> user_name ut \<in> set (fst u)"
    proof (rule ccontr)
      assume "\<not> (length (fst u) < cap \<or> user_name ut \<in> set (fst u))"
      then have n: "cap \<le> length (vec_items (snd u))" "user_name ut \<notin> ?items"
        using Cons.prems(1) by (auto simp: uniq_inv_def)
      have "card (insert (user_name ut) ?items) \<le> card (?items \<union> user_name ` {x \<in> set (ut # uts). ut_user_process x})"
        by (rule card_mono) (auto simp: True)
      moreover have "card (insert (user_name ut) ?items) = Suc (length (vec_items (snd u)))"
        using n(2) Cons.prems(1) distinct_card[of "vec_items (snd u)"] by (simp add: uniq_inv_def)
      ultimately show False using Cons.prems(2) n(1) by linarith
    qed
    have "no_nul (user_name ut)" by (simp add: user_name_def)
    then obtain u1 where u1: "uniq_add cap (user_name ut) u = Some u1" "uniq_inv u1"
      "set (vec_items (snd u1)) = insert (user_name ut) ?items"
      using uniq_add_ok[OF Cons.prems(1) _ fit] by blast
    have c: "card (set (vec_items (snd u1)) \<union> user_name ` {x \<in> set uts. ut_user_process x}) \<le> cap"
      using Cons.prems(2) unfolding e u1(3) by simp
    let ?c1 = "if take 2 (ut_host ut) = '':0'' then 1 else if take 7 (ut_line ut) = ''console'' then 1 else console"
    from Cons.IH[OF u1(2) c, of "tot + 1" ?c1] obtain u2 where u2:
      "utmp_loop cap uts (tot + 1) ?c1 u1 = Some (tot + 1 + int (length (filter ut_user_process uts)),
         (if \<exists>ut \<in> set uts. ut_user_process ut \<and> on_console_entry ut then 1 else ?c1), u2)"
      "uniq_inv u2"
      "set (vec_items (snd u2)) = set (vec_items (snd u1)) \<union> user_name ` {ut \<in> set uts. ut_user_process ut}"
      by (elim exE conjE) (rule that)
    have "utmp_loop cap (ut # uts) tot console u = utmp_loop cap uts (tot + 1) ?c1 u1"
      using True u1(1) xstrndup_full[of "ut_user ut"] by (simp add: user_name_def)
    moreover have "(if \<exists>ut \<in> set uts. ut_user_process ut \<and> on_console_entry ut then 1 else ?c1) =
      (if \<exists>x \<in> set (ut # uts). ut_user_process x \<and> on_console_entry x then 1 else console)"
      using True by (auto simp: on_console_entry_def)
    ultimately show ?thesis using u2 u1(3) True unfolding e by (intro exI[of _ u2]) simp
  qed
qed

lemma perform_ucache [simp]: "ucache (snd (perform k c s)) = ucache s"
  by (simp add: perform_def Let_def)

text \<open>The statistics, as a function of the list of entries, when they are not cached.\<close>

definition stats_of :: "utmp_entry list \<Rightarrow> bool \<Rightarrow> int \<Rightarrow> user_stats" where
  "stats_of uts owned mtime =
     \<lparr>us_total = int (length (filter ut_user_process uts)),
      us_uniq = int (card (user_name ` {ut \<in> set uts. ut_user_process ut})),
      us_on_console = (if owned \<or> (\<exists>ut \<in> set uts. ut_user_process ut \<and> on_console_entry ut) then 1 else 0),
      us_user_mtime = mtime\<rparr>"

lemma get_user_stats_fresh:
  assumes "sys_stat k UTMP_FILE s = (st, s1)" "mtime = (case st of Some (m, _) \<Rightarrow> m | None \<Rightarrow> 0)"
    and "mtime \<le> 0 \<or> mtime \<noteq> last_user_mtime (ucache s)"
    and "sys_stat k ''/dev/console'' s1 = (c1, s2)" "sys_stat k ''/dev/tty1'' s2 = (c2, s3)"
    and "sys_utmp k s3 = (uts, s4)"
    and "card (user_name ` {ut \<in> set uts. ut_user_process ut}) \<le> cap"
  shows "\<exists>s'. get_user_stats k cap s = Some (stats_of uts (owned_by_user c1 \<or> owned_by_user c2) mtime, s')
    \<and> trace s' = trace s4
    \<and> ucache s' = \<lparr>last_total = us_total (stats_of uts (owned_by_user c1 \<or> owned_by_user c2) mtime),
         last_uniq = us_uniq (stats_of uts (owned_by_user c1 \<or> owned_by_user c2) mtime),
         last_on_console = us_on_console (stats_of uts (owned_by_user c1 \<or> owned_by_user c2) mtime),
         last_user_mtime = mtime\<rparr>"
proof -
  let ?con = "if owned_by_user c2 then 1 else if owned_by_user c1 then 1 else (0 :: int)"
  have "ucache s1 = ucache s" using assms(1) by (auto simp: sys_stat_def split_beta)
  moreover obtain u where u: "utmp_loop cap uts 0 ?con uniq_start =
      Some (0 + int (length (filter ut_user_process uts)),
        (if \<exists>ut \<in> set uts. ut_user_process ut \<and> on_console_entry ut then 1 else ?con), u)"
      "uniq_inv u" "set (vec_items (snd u)) = user_name ` {ut \<in> set uts. ut_user_process ut}"
    using utmp_loop_ok[OF uniq_start_inv(1), of uts cap 0 ?con] assms(7) uniq_start_inv(2) by auto
  moreover have "uniq_end u = Some []"
    using u(2) vector_free_no_leak by (simp add: uniq_end_def uniq_inv_def)
  moreover have "uniq_count u = card (user_name ` {ut \<in> set uts. ut_user_process ut})"
    using u(2,3) vec_count_items[of "snd u"] distinct_card[of "vec_items (snd u)"]
    by (simp add: uniq_count_def uniq_inv_def)
  ultimately show ?thesis using assms
    by (auto simp: get_user_stats_def Let_def stats_of_def)
qed

lemma get_user_stats_cached:
  assumes "sys_stat k UTMP_FILE s = (Some (m, uid), s1)" "0 < m" "m = last_user_mtime (ucache s)"
  shows "get_user_stats k cap s = Some (\<lparr>us_total = last_total (ucache s), us_uniq = last_uniq (ucache s),
           us_on_console = last_on_console (ucache s), us_user_mtime = m\<rparr>, s1)"
proof -
  have "ucache s1 = ucache s" using assms(1) by (auto simp: sys_stat_def split_beta)
  then show ?thesis using assms by (simp add: get_user_stats_def Let_def)
qed

end
