(* ===== verification/Weight.thy ===== *)
theory Weight
  imports Monlist Helper Stats
begin

text \<open>
  \<open>server/weight.c\<close> and \<open>server/load.c\<close>: the table of services, the choice of the default one from
  the command line, and the computation of one weight and increment. The statics of \<open>weight.c\<close>,
  which change only in \<open>lbcd_weight_init\<close>, are the record \<open>weight_globals\<close>.
\<close>

section \<open>The load module\<close>

definition penalty :: "int list" where
  "penalty = [2, 2, 2, 2, 4, 4, 4, 8, 8, 16, 32]"

text \<open>
  The arithmetic is that of C's \<open>int\<close>: a sum or product outside of its 32 bits is an overflow,
  undefined in C and \<open>None\<close> here, as is a read outside of an array.
\<close>

definition c_int :: "int \<Rightarrow> int option" where
  "c_int x = (if - (2 ^ 31) \<le> x \<and> x < 2 ^ 31 then Some x else None)"

definition array_read :: "'a list \<Rightarrow> int \<Rightarrow> 'a option" where
  "array_read xs i = (if 0 \<le> i \<and> i < int (length xs) then Some (xs ! nat i) else None)"

text \<open>The operands of \<open>ntohs\<close> are promoted to \<open>int\<close>; \<open>(uint32_t) -1\<close> becomes the \<open>int\<close> -1.\<close>

definition lbcd_load_weight :: "kernel \<Rightarrow> env \<Rightarrow> 'z weight_fun" where
  "lbcd_load_weight k ev wi timeout portarg lb s =
     (let e = byte_order (pf ev);
          tmp_used = (if uint (tmp_full_field lb) > uint (tmpdir_full lb)
                      then uint (tmp_full_field lb) else uint (tmpdir_full lb))
      in do {
        others \<leftarrow> c_int (uint (ntohs e (tot_users lb)) - uint (ntohs e (uniq_users lb)));
        fudge \<leftarrow> c_int (others * 20);
        users \<leftarrow> c_int (uint (ntohs e (uniq_users lb)) * 100);
        load \<leftarrow> c_int (3 * uint (ntohs e (l1 lb)));
        weight \<leftarrow> c_int (users + load);
        weight \<leftarrow> c_int (weight + fudge);
        weight \<leftarrow> (if tmp_used \<ge> 90 then
                     (if tmp_used > 100 then Some (-1)
                      else do {
                        factor \<leftarrow> array_read penalty (tmp_used - 90);
                        c_int (weight * factor)
                      })
                   else Some weight);
        let (nologin, s) = sys_access k ''/etc/nologin'' F_OK s;
        let weight = (if nologin then -1 else weight);
        Some ((weight, as_u32 weight, 200), s)
      })"

section \<open>What the load module computes\<close>

definition load_score :: "int \<Rightarrow> int \<Rightarrow> int \<Rightarrow> int" where
  "load_score uniq tot l = 80 * uniq + 20 * tot + 3 * l"

text \<open>The multiplier for a \<open>/tmp\<close> that is \<open>p\<close> percent full.\<close>

definition tmp_factor :: "int \<Rightarrow> int" where
  "tmp_factor p = (if p < 90 then 1 else if p < 94 then 2 else if p < 97 then 4 else if p < 99 then 8
     else if p < 100 then 16 else 32)"

definition tmp_used :: "lbcd_reply \<Rightarrow> int" where
  "tmp_used lb = max (uint (tmp_full_field lb)) (uint (tmpdir_full lb))"

definition load_spec :: "endian \<Rightarrow> lbcd_reply \<Rightarrow> int" where
  "load_spec e lb =
     (if tmp_used lb > 100 then -1
      else load_score (uint (ntohs e (uniq_users lb))) (uint (ntohs e (tot_users lb))) (uint (ntohs e (l1 lb)))
           * tmp_factor (tmp_used lb))"

lemma penalty_factor:
  assumes "90 \<le> p" "p \<le> 100" shows "array_read penalty (p - 90) = Some (tmp_factor p)"
proof -
  have "p = 90 \<or> p = 91 \<or> p = 92 \<or> p = 93 \<or> p = 94 \<or> p = 95 \<or> p = 96 \<or> p = 97 \<or> p = 98 \<or> p = 99 \<or> p = 100"
    using assms by presburger
  then show ?thesis by (auto simp: penalty_def tmp_factor_def array_read_def)
qed

lemma tmp_factor_bounds: "1 \<le> tmp_factor p \<and> tmp_factor p \<le> 32"
  by (simp add: tmp_factor_def)

text \<open>The ranges of what is computed in \<open>int\<close>.\<close>

lemma uint_u16_le: "0 \<le> uint (w :: u16) \<and> uint w \<le> 65535"
  using uint_lt2p[of w] by simp

lemma load_score_bounds:
  fixes u t l :: u16
  shows "0 \<le> load_score (uint u) (uint t) (uint l) \<and> load_score (uint u) (uint t) (uint l) \<le> 6750105"
  using uint_u16_le[of u] uint_u16_le[of t] uint_u16_le[of l] by (simp add: load_score_def)

lemma load_product_bounds:
  fixes u t l :: u16
  shows "0 \<le> load_score (uint u) (uint t) (uint l) * tmp_factor p
    \<and> load_score (uint u) (uint t) (uint l) * tmp_factor p \<le> 216003360"
proof -
  have "load_score (uint u) (uint t) (uint l) * tmp_factor p \<le> 6750105 * 32"
    using load_score_bounds[of u t l] tmp_factor_bounds[of p] by (intro mult_mono) auto
  then show ?thesis using load_score_bounds[of u t l] tmp_factor_bounds[of p] by simp
qed

lemma c_int_Some [simp]: "- 2147483648 \<le> x \<Longrightarrow> x < 2147483648 \<Longrightarrow> c_int x = Some x"
  by (simp add: c_int_def)

lemma load_sums:
  assumes "0 \<le> u" "0 \<le> t" "0 \<le> l" "u \<le> 65535" "t \<le> 65535" "l \<le> 65535"
  shows "c_int (t - u) = Some (t - u)" "c_int ((t - u) * 20) = Some ((t - u) * 20)" "c_int (u * 100) = Some (u * 100)"
    "c_int (3 * l) = Some (3 * l)" "c_int (u * 100 + 3 * l) = Some (u * 100 + 3 * l)"
  using assms by (simp_all add: c_int_def)

lemma load_weight_ok:
  "lbcd_load_weight k ev wi t p lb s =
     (let (nologin, s') = sys_access k ''/etc/nologin'' F_OK s;
          w = (if nologin then -1 else load_spec (byte_order (pf ev)) lb)
      in Some ((w, as_u32 w, 200), s'))"
proof -
  let ?e = "byte_order (pf ev)"
  define u t l where utl: "u = ntohs ?e (uniq_users lb)" "t = ntohs ?e (tot_users lb)" "l = ntohs ?e (l1 lb)"
  note ar = load_sums[of "uint u" "uint t" "uint l", OF unsigned_greater_eq unsigned_greater_eq unsigned_greater_eq
      uint_u16_le[THEN conjunct2] uint_u16_le[THEN conjunct2] uint_u16_le[THEN conjunct2]]
  have tmp: "(if uint (tmp_full_field lb) > uint (tmpdir_full lb) then uint (tmp_full_field lb) else uint (tmpdir_full lb)) =
    tmp_used lb" by (simp add: tmp_used_def max_def)
  have sc: "uint u * 100 + 3 * uint l + (uint t - uint u) * 20 = load_score (uint u) (uint t) (uint l)"
    by (simp add: load_score_def)
  have ls: "c_int (load_score (uint u) (uint t) (uint l)) = Some (load_score (uint u) (uint t) (uint l))"
    using load_score_bounds[of u t l] by simp
  have lp: "c_int (load_score (uint u) (uint t) (uint l) * tmp_factor q) = Some (load_score (uint u) (uint t) (uint l) * tmp_factor q)" for q
    using load_product_bounds[of u t l q] by simp
  note calc = lbcd_load_weight_def Let_def tmp utl[symmetric] load_spec_def ar bind.bind_lunit sc ls
  consider "tmp_used lb < 90" | "tmp_used lb > 100" | "90 \<le> tmp_used lb" "tmp_used lb \<le> 100" by linarith
  then show ?thesis
  proof cases
    case 1
    then show ?thesis unfolding calc by (simp add: tmp_factor_def split_beta)
  next
    case 2
    then show ?thesis unfolding calc by (simp add: split_beta)
  next
    case 3
    then show ?thesis unfolding calc by (simp add: penalty_factor lp split_beta)
  qed
qed

lemma tmp_factor_mono: "p \<le> q \<Longrightarrow> tmp_factor p \<le> tmp_factor q"
  by (auto simp: tmp_factor_def)

lemma load_spec_bounds: "-1 \<le> load_spec e lb \<and> load_spec e lb \<le> 216003360"
  using load_product_bounds[of "ntohs e (uniq_users lb)" "ntohs e (tot_users lb)" "ntohs e (l1 lb)" "tmp_used lb"]
  by (auto simp: load_spec_def)

lemma as_u32_load:
  assumes "-1 \<le> w" "w \<le> 216003360" shows "uint (as_u32 w) = (if w = -1 then 2 ^ 32 - 1 else w)"
proof (cases "w = -1")
  case False
  then have "w mod 2 ^ 32 = w" using assms by simp
  then show ?thesis using False by (simp add: as_u32_def unsigned_of_int take_bit_eq_mod)
qed (simp add: as_u32_def unsigned_minus_1_eq_mask mask_eq_exp_minus_1)

lemma load_score_mono:
  "u \<le> u' \<Longrightarrow> t \<le> t' \<Longrightarrow> l \<le> l' \<Longrightarrow> load_score u t l \<le> load_score u' t' l'"
  by (simp add: load_score_def)

text \<open>More users, more load or a fuller \<open>/tmp\<close> never lower the weight.\<close>

lemma load_spec_mono:
  assumes "ntohs e (uniq_users a) \<le> ntohs e (uniq_users b)" "ntohs e (tot_users a) \<le> ntohs e (tot_users b)"
    and "ntohs e (l1 a) \<le> ntohs e (l1 b)" "tmp_used a \<le> tmp_used b" "tmp_used b \<le> 100"
  shows "load_spec e a \<le> load_spec e b"
proof -
  let ?s = "\<lambda>lb. load_score (uint (ntohs e (uniq_users lb))) (uint (ntohs e (tot_users lb))) (uint (ntohs e (l1 lb)))"
  have s: "?s a \<le> ?s b" "0 \<le> ?s b"
    using assms(1-3) uint_u16_le by (auto intro!: load_score_mono simp: word_le_def load_score_def)
  have "?s a * tmp_factor (tmp_used a) \<le> ?s b * tmp_factor (tmp_used b)"
    using s tmp_factor_mono[OF assms(4)] tmp_factor_bounds[of "tmp_used a"] by (intro mult_mono) auto
  then show ?thesis using assms(4,5) by (simp add: load_spec_def)
qed

section \<open>The table of services\<close>

datatype weight_function = W_load | W_cmd | W_rr | W_unknown | W_ftp | W_http | W_imap | W_ldap
  | W_nntp | W_ntp | W_pop | W_smtp | W_tcp

definition service_table :: "env \<Rightarrow> (string \<times> weight_function) list" where
  "service_table ev =
     [(''load'', W_load), (''cmd'', W_cmd), (''rr'', W_rr), (''unknown'', W_unknown),
      (''ftp'', W_ftp), (''http'', W_http), (''imap'', W_imap)]
     @ (if have_ldap ev then [(''ldap'', W_ldap)] else [])
     @ [(''nntp'', W_nntp), (''ntp'', W_ntp), (''pop'', W_pop), (''smtp'', W_smtp), (''tcp'', W_tcp)]"

record weight_globals =
  lbcd_command :: "string option"
  lbcd_service_name :: "string option"
  default_weight :: u32
  default_increment :: u32
  lbcd_default_functab :: "(string \<times> weight_function) option"
  lbcd_timeout :: int

text \<open>The statics before \<open>lbcd_weight_init\<close>.\<close>

definition zero_globals :: weight_globals where
  "zero_globals = \<lparr>lbcd_command = None, lbcd_service_name = None, default_weight = 0,
     default_increment = 0, lbcd_default_functab = None, lbcd_timeout = 0\<rparr>"

text \<open>Whether the argument is a weight and an increment; \<open>True\<close> is the result 0.\<close>

definition is_weights :: "string option \<Rightarrow> bool" where
  "is_weights service =
     (case service of None \<Rightarrow> False
      | Some sv \<Rightarrow>
          if sv = [] then False
          else if \<not> c_isdigit (hd sv) then False
          else if \<not> c_isdigit (last sv) then False
          else if \<not> list_all (\<lambda>c. c = CHR '':'' \<or> c_isdigit c) sv then False
          else count_list sv (CHR '':'') = 1)"

text \<open>
  The result of a lookup: a table entry, the \<open>NULL\<close> the default still is, or the end of the program.
  The name is cut to 31 characters by \<open>strlcpy\<close> and then at the first colon.
\<close>

datatype found = Found "string \<times> weight_function" | Null_functab | Died

definition service_to_func :: "env \<Rightarrow> weight_globals \<Rightarrow> string option \<Rightarrow> found" where
  "service_to_func ev g service =
     (case service of
        None \<Rightarrow> (case lbcd_default_functab g of Some f \<Rightarrow> Found f | None \<Rightarrow> Null_functab)
      | Some sv \<Rightarrow>
          if sv = ''default'' then (case lbcd_default_functab g of Some f \<Rightarrow> Found f | None \<Rightarrow> Null_functab)
          else (let name = takeWhile (\<lambda>c. c \<noteq> CHR '':'') (take (NAME_SIZE - 1) sv)
                in case find (\<lambda>(n, f). n = name) (service_table ev) of
                     Some f \<Rightarrow> Found f
                   | None \<Rightarrow>
                       (case find (\<lambda>(n, f). n = ''unknown'') (service_table ev) of
                          Some f \<Rightarrow> Found f | None \<Rightarrow> Died)))"

definition functab_of :: "found \<Rightarrow> (string \<times> weight_function) option" where
  "functab_of f = (case f of Found t \<Rightarrow> Some t | _ \<Rightarrow> None)"

text \<open>The colon of \<open>weight:increment\<close> is overwritten with a nul.\<close>

definition lbcd_weight_init ::
  "env \<Rightarrow> string option \<Rightarrow> string option \<Rightarrow> int \<Rightarrow> weight_globals \<Rightarrow> int \<times> weight_globals" where
  "lbcd_weight_init ev cmd service timeout g =
     (let g = g\<lparr>lbcd_command := cmd, lbcd_service_name := service, lbcd_timeout := timeout\<rparr>
      in if is_weights service then
           (let sv = the service;
                w = takeWhile (\<lambda>c. c \<noteq> CHR '':'') sv;
                cp = tl (dropWhile (\<lambda>c. c \<noteq> CHR '':'') sv);
                g = g\<lparr>lbcd_service_name := Some w, default_weight := as_u32 (c_atoi w),
                       default_increment := as_u32 (c_atoi cp)\<rparr>
            in (0, g\<lparr>lbcd_default_functab := functab_of (service_to_func ev g (Some ''rr''))\<rparr>))
         else if cmd \<noteq> None then
           (0, g\<lparr>lbcd_default_functab := functab_of (service_to_func ev g (Some ''cmd''))\<rparr>)
         else
           (let g = g\<lparr>default_weight := 1, default_increment := 1\<rparr>
            in (0, g\<lparr>lbcd_default_functab :=
                      functab_of (service_to_func ev g (case service of Some sv \<Rightarrow> Some sv | None \<Rightarrow> Some ''load''))\<rparr>)))"

section \<open>One weight\<close>

definition lbcd_rr_weight :: "weight_globals \<Rightarrow> int \<times> u32 \<times> u32" where
  "lbcd_rr_weight g = (0, default_weight g, default_increment g)"

fun call_weight :: "kernel \<Rightarrow> env \<Rightarrow> weight_globals \<Rightarrow> weight_function \<Rightarrow> 'z weight_fun" where
  "call_weight k ev g W_load wi t p lb s = lbcd_load_weight k ev wi t p lb s"
| "call_weight k ev g W_cmd wi t p lb s = lbcd_cmd_weight k ev wi t p lb s"
| "call_weight k ev g W_rr wi t p lb s = Some (lbcd_rr_weight g, s)"
| "call_weight k ev g W_unknown wi t p lb s = Some (lbcd_unknown_weight wi, s)"
| "call_weight k ev g W_ftp wi t p lb s = lbcd_ftp_weight k ev wi t p lb s"
| "call_weight k ev g W_http wi t p lb s = lbcd_http_weight k ev wi t p lb s"
| "call_weight k ev g W_imap wi t p lb s = lbcd_imap_weight k ev wi t p lb s"
| "call_weight k ev g W_ldap wi t p lb s = lbcd_ldap_weight k ev wi t p lb s"
| "call_weight k ev g W_nntp wi t p lb s = lbcd_nntp_weight k ev wi t p lb s"
| "call_weight k ev g W_ntp wi t p lb s = lbcd_ntp_weight k ev wi t p lb s"
| "call_weight k ev g W_pop wi t p lb s = lbcd_pop_weight k ev wi t p lb s"
| "call_weight k ev g W_smtp wi t p lb s = lbcd_smtp_weight k ev wi t p lb s"
| "call_weight k ev g W_tcp wi t p lb s = lbcd_tcp_weight k ev wi t p lb s"

text \<open>
  The slot is changed through pointers into the reply. Calling through a \<open>NULL\<close> table entry, or a
  slot that does not exist, is undefined: \<open>None\<close>.
\<close>

definition lbcd_setweight ::
  "kernel \<Rightarrow> env \<Rightarrow> weight_globals \<Rightarrow> lbcd_reply \<Rightarrow> nat \<Rightarrow> string \<Rightarrow> 'z sys_scheme
    \<Rightarrow> (lbcd_reply \<times> 'z sys_scheme) option" where
  "lbcd_setweight k ev g lb offset service s =
     (if offset \<ge> length (weights lb) then None
      else do {
        let wi = (host_weight (weights lb ! offset), default_increment g);
        functab \<leftarrow> functab_of (service_to_func ev g (Some service));
        let cp = (if service = ''default'' then fst functab else service);
        let portarg = map_option tl (c_strchr cp (CHR '':''));
        ((_, w, i), s) \<leftarrow> call_weight k ev g (snd functab) wi (lbcd_timeout g) portarg lb s;
        Some (lb\<lparr>weights := (weights lb)[offset := \<lparr>host_weight = w, host_incr = i\<rparr>]\<rparr>, s)
      })"

end
