(* ===== verification/Server.thy ===== *)
theory Server
  imports Weight
begin

text \<open>
  \<open>server/server.c\<close>: collecting the information of a reply, the conversion for clients of protocol
  version 2, and the test mode. What stays fixed while the server runs is the record \<open>ctx\<close>: the
  outside, the build, the statics of \<open>weight.c\<close>, and what the variables of a function hold before
  they are set.
\<close>

record 'd ctx =
  cx_kernel :: kernel
  cx_env :: env
  cx_fpu :: "'d fpu"
  cx_sentinel :: string
  cx_tmpdir :: "string option"
  cx_globals :: weight_globals
  cx_stale_double :: 'd
  cx_stale_time :: int
  cx_stale_reply :: lbcd_reply
  cx_stale_slot :: "nat \<Rightarrow> lbcd_service"
  cx_stale_name :: "nat \<Rightarrow> string"

abbreviation cx_order :: "('d, 'y) ctx_scheme \<Rightarrow> endian" where
  "cx_order cx \<equiv> byte_order (pf (cx_env cx))"

text \<open>The uninitialised reply on the stack, with its six slots.\<close>

definition stale_reply :: "('d, 'y) ctx_scheme \<Rightarrow> lbcd_reply" where
  "stale_reply cx = (cx_stale_reply cx)\<lparr>weights := map (cx_stale_slot cx) [0..<LBCD_MAX_SERVICES + 1]\<rparr>"

definition slot_to_network :: "endian \<Rightarrow> lbcd_service \<Rightarrow> lbcd_service" where
  "slot_to_network e sv = \<lparr>host_weight = htonl e (host_weight sv), host_incr = htonl e (host_incr sv)\<rparr>"

definition slot_convert :: "endian \<Rightarrow> nat \<Rightarrow> lbcd_reply \<Rightarrow> lbcd_reply" where
  "slot_convert e i lb = lb\<lparr>weights := (weights lb)[i := slot_to_network e (weights lb ! i)]\<rparr>"

text \<open>The loop over the requested services, for slot \<open>i\<close> and on.\<close>

fun set_services ::
  "('d, 'y) ctx_scheme \<Rightarrow> nat \<Rightarrow> string list \<Rightarrow> lbcd_reply \<Rightarrow> 'z sys_scheme \<Rightarrow> (lbcd_reply \<times> 'z sys_scheme) option" where
  "set_services cx i [] lb s = Some (lb, s)"
| "set_services cx i (sv # svs) lb s = do {
     (lb, s) \<leftarrow> lbcd_setweight (cx_kernel cx) (cx_env cx) (cx_globals cx) lb i sv s;
     set_services cx (i + 1) svs (slot_convert (cx_order cx) i lb) s
   }"

text \<open>The strings of a vector, read one after the other.\<close>

definition vec_strings :: "string vec \<Rightarrow> string list option" where
  "vec_strings v = those (map (get_slot (v_strings v)) [0..<v_count v])"

definition lbcd_set_load ::
  "('d, 'y) ctx_scheme \<Rightarrow> lbcd_reply \<Rightarrow> string vec \<Rightarrow> 'z sys_scheme \<Rightarrow> (lbcd_reply \<times> 'z sys_scheme) option" where
  "lbcd_set_load cx lb svs s = do {
     let lb = lb\<lparr>pad := 0, services := of_nat (v_count svs)\<rparr>;
     (lb, s) \<leftarrow> lbcd_setweight (cx_kernel cx) (cx_env cx) (cx_globals cx) lb 0 ''default'' s;
     let (sentinel, s) = sys_access (cx_kernel cx) (cx_sentinel cx) F_OK s;
     let lb = (if sentinel then lb\<lparr>weights := (weights lb)[0 := (weights lb ! 0)\<lparr>host_weight := as_u32 (-1)\<rparr>]\<rparr>
               else lb);
     let lb = slot_convert (cx_order cx) 0 lb;
     names \<leftarrow> vec_strings svs;
     set_services cx 1 names lb s
   }"

definition lbcd_proto2_convert :: "endian \<Rightarrow> lbcd_reply \<Rightarrow> lbcd_reply" where
  "lbcd_proto2_convert e lb =
     (let weightval_i = ntohl e (host_weight (weights lb ! 0));
          weightval_s = (if weightval_i > 0xffff then 0xffff else ucast weightval_i) :: u16
      in lb\<lparr>l1 := htons e weightval_s, l5 := htons e weightval_s, l15 := htons e weightval_s,
            tot_users := 0, uniq_users := 0\<rparr>)"

definition scaled_load :: "'d fpu \<Rightarrow> 'd \<Rightarrow> u16" where
  "scaled_load fpu d = fp_to_u16 fpu (fp_mul fpu d (fp_ratio fpu 100 1))"

definition lbcd_pack_info ::
  "('d, 'y) ctx_scheme \<Rightarrow> lbcd_reply \<Rightarrow> nat \<Rightarrow> string vec \<Rightarrow> bool \<Rightarrow> 'z ustate_scheme
    \<Rightarrow> (lbcd_reply \<times> 'z ustate_scheme) option" where
  "lbcd_pack_info cx lb protocol svs simple s = do {
     let k = cx_kernel cx;
     let e = cx_order cx;
     let ((_, bt), s) = kernel_getboottime k (cx_fpu cx) (cx_stale_time cx) s;
     let lb = lb\<lparr>boot_time := htonl e (word_of_int bt)\<rparr>;
     let (ct, s) = sys_time k s;
     let lb = lb\<lparr>current_time := htonl e (word_of_int ct)\<rparr>;
     let ((_, d1, d5, d15), s) =
       kernel_getload k (cx_fpu cx) (cx_stale_double cx, cx_stale_double cx, cx_stale_double cx) s;
     let lb = lb\<lparr>l1 := htons e (scaled_load (cx_fpu cx) d1), l5 := htons e (scaled_load (cx_fpu cx) d5),
                 l15 := htons e (scaled_load (cx_fpu cx) d15)\<rparr>;
     (us, s) \<leftarrow> get_user_stats k HASH_SIZE s;
     let lb = lb\<lparr>tot_users := htons e (word_of_int (us_total us)), uniq_users := htons e (word_of_int (us_uniq us)),
                 on_console := word_of_int (us_on_console us), user_mtime := htonl e (word_of_int (us_user_mtime us)),
                 reserved := 0\<rparr>;
     let (tf, s) = tmp_full k (cx_fpu cx) ''/tmp'' s;
     let lb = lb\<lparr>tmp_full_field := word_of_int tf\<rparr>;
     let (tdf, s) = (case cx_tmpdir cx of
                       Some dir \<Rightarrow> (let (p, s) = tmp_full k (cx_fpu cx) dir s in (word_of_int p, s))
                     | None \<Rightarrow> (tmp_full_field lb, s));
     let lb = lb\<lparr>tmpdir_full := tdf\<rparr>;
     (lb, s) \<leftarrow> lbcd_set_load cx lb svs s;
     Some (if \<not> simple \<and> protocol < 3 then lbcd_proto2_convert e lb else lb, s)
   }"

section \<open>The test mode\<close>

definition pad10 :: "string \<Rightarrow> string" where
  "pad10 text = replicate (10 - length text) (CHR '' '') @ text"

definition show_u32 :: "u32 \<Rightarrow> string" where
  "show_u32 w = show_nat (unat w)"

definition show_u16 :: "u16 \<Rightarrow> string" where
  "show_u16 w = show_nat (unat w)"

definition show_u8 :: "u8 \<Rightarrow> string" where
  "show_u8 w = show_nat (unat w)"

definition test_lines :: "endian \<Rightarrow> lbcd_reply \<Rightarrow> (nat \<Rightarrow> string) \<Rightarrow> string list" where
  "test_lines e lb names =
     [''PROTOCOL '' @ show_u16 (h_version (reply_h lb)), '''', ''MACHINE STATUS:'',
      ''l1           = '' @ show_u16 (ntohs e (l1 lb)),
      ''l5           = '' @ show_u16 (ntohs e (l5 lb)),
      ''l15          = '' @ show_u16 (ntohs e (l15 lb)),
      ''current_time = '' @ show_u32 (ntohl e (current_time lb)),
      ''boot_time    = '' @ show_u32 (ntohl e (boot_time lb)),
      ''user_mtime   = '' @ show_u32 (ntohl e (user_mtime lb)),
      ''tot_users    = '' @ show_u16 (ntohs e (tot_users lb)),
      ''uniq_users   = '' @ show_u16 (ntohs e (uniq_users lb)),
      ''on_console   = '' @ show_u8 (on_console lb),
      ''tmp_full     = '' @ show_u8 (tmp_full_field lb),
      ''tmpdir_full  = '' @ show_u8 (tmpdir_full lb), '''',
      ''SERVICES: '' @ show_u8 (services lb)]
     @ map (\<lambda>i. show_nat i @ '': weight '' @ pad10 (show_u32 (ntohl e (host_weight (weights lb ! i))))
              @ '' increment '' @ pad10 (show_u32 (ntohl e (host_incr (weights lb ! i))))
              @ '' name '' @ (if i = 0 then ''default'' else names (i - 1)))
           [0..<unat (services lb) + 1]"

text \<open>The arguments become the vector of services; the names printed are never stored.\<close>

definition lbcd_test ::
  "('d, 'y) ctx_scheme \<Rightarrow> string list \<Rightarrow> 'z ustate_scheme \<Rightarrow> (string list \<times> 'z ustate_scheme) option" where
  "lbcd_test cx argv s = do {
     let v2 = (case argv of a # _ \<Rightarrow> a = ''v2'' | [] \<Rightarrow> False);
     let argv = (if v2 then tl argv else argv);
     let version = (if v2 then 2 else of_nat LBCD_VERSION);
     let lb = (stale_reply cx)\<lparr>reply_h := \<lparr>h_version = version, h_id = 0, h_op = of_nat LBCD_OP_LBINFO, h_status = 0\<rparr>\<rparr>;
     svs \<leftarrow> add_all vector_add vector_new
              (if argv \<noteq> [] \<and> version = 3 then take LBCD_MAX_SERVICES argv else []);
     (lb, s) \<leftarrow> lbcd_pack_info cx lb (unat version) svs False s;
     _ \<leftarrow> vector_free (Some svs);
     Some (test_lines (cx_order cx) lb (cx_stale_name cx), s)
   }"

end
