(* ===== verification/Lbcd.thy ===== *)
theory Lbcd
  imports Server
begin

text \<open>
  \<open>server/lbcd.c\<close>: receiving and checking a request, answering it, binding the sockets, the main
  loop, and \<open>main\<close> after \<open>getopt\<close>. A function that can end the program returns an \<open>outcome\<close>; \<open>None\<close>
  is undefined behaviour or a call that does not return.
\<close>

datatype 'a outcome = Ret 'a | Exit int

record lbcd_config =
  bindaddrs :: "string vec"
  log_requests :: bool
  port :: u16
  pid_file :: "string option"
  allowed_services :: "string vec"
  simple :: bool
  upstart :: bool

record request =
  req_addr :: sockaddr
  req_addrlen :: nat
  req_source :: string
  req_protocol :: nat
  req_id :: nat
  req_operation :: nat
  req_services :: "string vec"

text \<open>
  Usage, version and the signal handler: the status they end the program with. What \<open>usage\<close> and
  \<open>version\<close> print before is not modelled. The handler's flag is read by the main loop.
\<close>

definition usage :: "int \<Rightarrow> 'a outcome" where
  "usage status = Exit status"

definition version :: "'a outcome" where
  "version = Exit 0"

text \<open>Freeing a request frees its services.\<close>

definition request_free :: "request option \<Rightarrow> string list option" where
  "request_free rq = (case rq of None \<Rightarrow> Some [] | Some r \<Rightarrow> vector_free (Some (req_services r)))"

definition sys_sendto ::
  "kernel \<Rightarrow> int \<Rightarrow> bytes \<Rightarrow> sockaddr \<Rightarrow> nat \<Rightarrow> 'z sys_scheme \<Rightarrow> nat option \<times> 'z sys_scheme" where
  "sys_sendto k fd d addr addrlen s =
     (let (r, s) = perform k (Io (CSendto fd d addr addrlen)) s in (written_of (length d) r, s))"

definition send_status ::
  "('d, 'y) ctx_scheme \<Rightarrow> request \<Rightarrow> int \<Rightarrow> lbcd_status \<Rightarrow> 'z sys_scheme \<Rightarrow> 'z sys_scheme" where
  "send_status cx rq fd status s =
     (let e = cx_order cx;
          header = \<lparr>h_version = htons e (of_nat LBCD_VERSION), h_id = htons e (of_nat (req_id rq)),
                    h_op = htons e (of_nat (req_operation rq)), h_status = htons e (status_code status)\<rparr>;
          (result, s) = sys_sendto (cx_kernel cx) fd (header_bytes e header) (req_addr rq) (req_addrlen rq) s
      in if result \<noteq> Some HEADER_SIZE
         then report Syswarn ''client %s: cannot send reply'' [MStr (req_source rq)] s else s)"

definition service_allowed :: "lbcd_config \<Rightarrow> string \<Rightarrow> bool option" where
  "service_allowed config service =
     (if service = ''default'' then Some True
      else if service = ''cmd'' \<or> take 4 service = ''cmd:'' then Some False
      else map_option (\<lambda>names. service \<in> set names) (vec_strings (allowed_services config)))"

section \<open>Receiving a request\<close>

definition sys_recvfrom ::
  "kernel \<Rightarrow> int \<Rightarrow> nat \<Rightarrow> 'z sys_scheme \<Rightarrow> (bytes \<times> sockaddr \<times> nat) option \<times> 'z sys_scheme" where
  "sys_recvfrom k fd n s =
     (let (r, s) = perform k (Io (CRecvfrom fd n)) s
      in (case r of RFrom d a l \<Rightarrow> Some (take n d, a, l) | _ \<Rightarrow> None, s))"

text \<open>
  The loop over the names: every one is copied and checked before it is added. \<open>Inl\<close> is the name
  that is not allowed, with the vector built so far.
\<close>

fun recv_services ::
  "lbcd_config \<Rightarrow> bytes \<Rightarrow> nat \<Rightarrow> nat \<Rightarrow> string vec \<Rightarrow> (string \<times> string vec + string vec) option" where
  "recv_services config raw i 0 v = Some (Inr v)"
| "recv_services config raw i (Suc n) v = do {
     service \<leftarrow> xstrndup (name_field raw i) NAME_SIZE;
     ok \<leftarrow> service_allowed config service;
     if \<not> ok then Some (Inl (service, v))
     else do { v \<leftarrow> vector_add v service; recv_services config raw (i + 1) n v }
   }"

text \<open>The checks of a datagram \<open>d\<close> that has been received into \<open>raw\<close> and whose sender is known.\<close>

definition request_check ::
  "('d, 'y) ctx_scheme \<Rightarrow> lbcd_config \<Rightarrow> int \<Rightarrow> bytes \<Rightarrow> bytes \<Rightarrow> sockaddr \<Rightarrow> nat \<Rightarrow> string \<Rightarrow> 'z sys_scheme
    \<Rightarrow> (request option \<times> 'z sys_scheme) option" where
  "request_check cx config fd raw d addr addrlen source s =
     (if length d < HEADER_SIZE then
        Some (None, report Warn ''client %s: short packet received (length %lu)''
                [MStr source, MNum (int (length d))] s)
      else
        (let e = cx_order cx; h = read_header e raw;
             protocol = unat (ntohs e (h_version h)); ident = unat (ntohs e (h_id h));
             operation = unat (ntohs e (h_op h)); nservices = unat (ntohs e (h_status h));
             expected = HEADER_SIZE + (if protocol = 3 then nservices * NAME_SIZE else 0)
         in if protocol = 3 \<and> nservices > LBCD_MAX_SERVICES then
              Some (None, report Warn ''client %s: too many services in request (%u)''
                      [MStr source, MNum (int nservices)] s)
            else if length d \<noteq> expected then
              Some (None, report Warn ''client %s: incorrect packet size (%lu != %lu)''
                      [MStr source, MNum (int (length d)), MNum (int expected)] s)
            else
              (let rq = \<lparr>req_addr = addr, req_addrlen = addrlen, req_source = source,
                         req_protocol = protocol, req_id = ident, req_operation = operation,
                         req_services = vector_new\<rparr>
               in if protocol \<noteq> 2 \<and> protocol \<noteq> 3 then do {
                    let s = report Warn ''client %s: protocol version %u unsupported''
                              [MStr source, MNum (int protocol)] s;
                    let s = send_status cx rq fd LBCD_STATUS_VERSION s;
                    _ \<leftarrow> request_free (Some rq);
                    Some (None, s)
                  }
                  else do {
                    r \<leftarrow> recv_services config raw 0 (if protocol = 3 then nservices else 0) vector_new;
                    case r of
                      Inr v \<Rightarrow> Some (Some (rq\<lparr>req_services := v\<rparr>), s)
                    | Inl (service, v) \<Rightarrow> do {
                        let s = report Warn ''client %s: service %s not allowed''
                                  [MStr source, MStr service] s;
                        let s = send_status cx rq fd LBCD_STATUS_ERROR s;
                        _ \<leftarrow> request_free (Some (rq\<lparr>req_services := v\<rparr>));
                        Some (None, s)
                      }
                  })))"

definition client_source ::
  "('d, 'y) ctx_scheme \<Rightarrow> sockaddr \<Rightarrow> 'z sys_scheme \<Rightarrow> string \<times> 'z sys_scheme" where
  "client_source cx addr s =
     (case network_sockaddr_sprint (pf (cx_env cx)) INET6_ADDRSTRLEN addr of
        Inr text \<Rightarrow> (text, s)
      | Inl e \<Rightarrow> (''UNKNOWN'', report Syswarn ''cannot convert client address to string'' [] (set_errno e s)))"

text \<open>
  The address is one that fits in \<open>struct sockaddr_storage\<close>: a length beyond it, which \<open>recvfrom\<close>
  returns for an address it has cut, is not modelled.
\<close>

definition request_recv ::
  "('d, 'y) ctx_scheme \<Rightarrow> lbcd_config \<Rightarrow> int \<Rightarrow> 'z sys_scheme \<Rightarrow> (request option \<times> 'z sys_scheme) option" where
  "request_recv cx config fd s =
     (let (msg, s) = sys_recvfrom (cx_kernel cx) fd LBCD_MAXMESG s
      in case msg of
           None \<Rightarrow> Some (None, report Syswarn ''cannot receive packet'' [] s)
         | Some (d, addr, addrlen) \<Rightarrow>
             if d = [] then Some (None, report Syswarn ''cannot receive packet'' [] s)
             else
               (let raw = filled (fresh_buffer (cx_env cx) LBCD_MAXMESG) d;
                    (source, s) = client_source cx addr s
                in request_check cx config fd raw d addr addrlen source s))"

section \<open>Answering a request\<close>

text \<open>With more services than slots the size would exceed the reply: undefined.\<close>

definition handle_lb_request ::
  "('d, 'y) ctx_scheme \<Rightarrow> lbcd_config \<Rightarrow> request \<Rightarrow> int \<Rightarrow> 'z ustate_scheme \<Rightarrow> 'z ustate_scheme option" where
  "handle_lb_request cx config rq fd s = do {
     let s = (if log_requests config
              then report Notice ''request from %s (version %d)'' [MStr (req_source rq), MNum (int (req_protocol rq))] s
              else s);
     let e = cx_order cx;
     let reply = (stale_reply cx)\<lparr>reply_h :=
           \<lparr>h_version = htons e (of_nat (req_protocol rq)), h_id = htons e (of_nat (req_id rq)),
            h_op = htons e (of_nat (req_operation rq)), h_status = htons e (status_code LBCD_STATUS_OK)\<rparr>\<rparr>;
     (reply, s) \<leftarrow> lbcd_pack_info cx reply (req_protocol rq) (req_services rq) (simple config) s;
     if v_count (req_services rq) > LBCD_MAX_SERVICES then None
     else do {
       let unused = LBCD_MAX_SERVICES - v_count (req_services rq);
       let sz = REPLY_SIZE - unused * SERVICE_SIZE;
       let (result, s) = sys_sendto (cx_kernel cx) fd (take sz (reply_bytes e reply)) (req_addr rq) (req_addrlen rq) s;
       Some (if result \<noteq> Some sz
             then report Syswarn ''client %s: cannot send reply'' [MStr (req_source rq)] s else s)
     }
   }"

text \<open>The body of the main loop once a socket is ready.\<close>

definition serve_one ::
  "('d, 'y) ctx_scheme \<Rightarrow> lbcd_config \<Rightarrow> int \<Rightarrow> 'z ustate_scheme \<Rightarrow> 'z ustate_scheme option" where
  "serve_one cx config fd s = do {
     (rq, s) \<leftarrow> request_recv cx config fd s;
     case rq of
       None \<Rightarrow> Some s
     | Some rq \<Rightarrow> do {
         s \<leftarrow> (if req_operation rq = LBCD_OP_LBINFO then handle_lb_request cx config rq fd s
               else Some (send_status cx rq fd LBCD_STATUS_UNKNOWN_OP
                     (report Warn ''client %s: unknown op %d requested''
                        [MStr (req_source rq), MNum (int (req_operation rq))] s)));
         _ \<leftarrow> request_free (Some rq);
         Some s
       }
   }"

section \<open>Binding and the main loop\<close>

definition is_ipv6 :: "platform \<Rightarrow> string \<Rightarrow> bool" where
  "is_ipv6 p text \<longleftrightarrow> have_inet6 p \<and> inet_pton6 p text \<noteq> None"

definition SD_LISTEN_FDS_START :: int where
  "SD_LISTEN_FDS_START = 3"

definition sys_number :: "kernel \<Rightarrow> init_call \<Rightarrow> 'z sys_scheme \<Rightarrow> int \<times> 'z sys_scheme" where
  "sys_number k c s = (let (r, s) = perform k (Init c) s in (case r of RNum n \<Rightarrow> n | ROk \<Rightarrow> 0 | _ \<Rightarrow> -1, s))"

fun bind_addresses ::
  "('d, 'y) ctx_scheme \<Rightarrow> u16 \<Rightarrow> string list \<Rightarrow> int list \<Rightarrow> 'z sys_scheme \<Rightarrow> int list outcome \<times> 'z sys_scheme" where
  "bind_addresses cx prt [] fds s = (Ret fds, s)"
| "bind_addresses cx prt (addr # addrs) fds s =
     (let k = cx_kernel cx; p = pf (cx_env cx);
          (fd, s) = (if is_ipv6 p addr then network_bind_ipv6 k p SOCK_DGRAM addr prt s
                     else network_bind_ipv4 k p SOCK_DGRAM addr prt s)
      in if fd = INVALID_SOCKET then
           (Exit 1, report Sysdie ''cannot bind to address %s, port %hu'' [MStr addr, MNum (uint prt)] s)
         else (let (ok, s) = fdflag_close_exec k fd True s
               in if \<not> ok then (Exit 1, report Sysdie ''cannot set file descriptor close on exec'' [] s)
                  else bind_addresses cx prt addrs (fds @ [fd]) s))"

definition bind_sockets ::
  "('d, 'y) ctx_scheme \<Rightarrow> lbcd_config \<Rightarrow> 'z sys_scheme \<Rightarrow> (int list outcome \<times> 'z sys_scheme) option" where
  "bind_sockets cx config s =
     (let (status, s) = sys_number (cx_kernel cx) CSdListen s
      in if status < 0 then
           Some (Exit 1, report Die ''using systemd-bound sockets failed: %s'' [MNum (- status)] s)
         else if status > 0 then
           Some (Ret (map (\<lambda>i. SD_LISTEN_FDS_START + int i) [0..<nat status]), s)
         else if v_count (bindaddrs config) = 0 then do {
           ((ok, fds), s) \<leftarrow> network_bind_all (cx_kernel cx) (pf (cx_env cx)) (cx_stale_name cx 0) SOCK_DGRAM (port config) s;
           if \<not> ok then Some (Exit 1, report Sysdie ''cannot create UDP socket'' [] s)
           else Some (Ret fds, s)
         }
         else do {
           addrs \<leftarrow> vec_strings (bindaddrs config);
           Some (bind_addresses cx (port config) addrs [] s)
         })"

text \<open>
  The main loop. \<open>signaled\<close> says of a history whether an exit signal has arrived by then, which is
  what the handler's flag holds when the loop reads it.
\<close>

definition exit_handler :: "(history \<Rightarrow> bool) \<Rightarrow> 'z sys_scheme \<Rightarrow> bool" where
  "exit_handler signaled s = signaled (trace s)"

partial_function (option) main_loop ::
  "('d, 'y) ctx_scheme \<Rightarrow> lbcd_config \<Rightarrow> (history \<Rightarrow> bool) \<Rightarrow> int list \<Rightarrow> 'z ustate_scheme
    \<Rightarrow> (unit outcome \<times> 'z ustate_scheme) option" where
  "main_loop cx config signaled fds s =
     (if exit_handler signaled s then Some (Ret (), report Notice ''signal received, exiting'' [] s)
      else (let w = network_wait_any (cx_kernel cx) fds s
            in if fst w = INVALID_SOCKET then
                 (if err (snd w) \<noteq> EINTR then
                    Some (Exit 1, report Sysdie ''cannot wait for incoming connections'' [] (snd w))
                  else main_loop cx config signaled fds (snd w))
               else Option.bind (serve_one cx config (fst w) (snd w)) (\<lambda>s. main_loop cx config signaled fds s)))"

definition sigaction_warn :: "kernel \<Rightarrow> signal \<Rightarrow> bool \<Rightarrow> string \<Rightarrow> 'z sys_scheme \<Rightarrow> 'z sys_scheme" where
  "sigaction_warn k sig ignore warning s =
     (let (r, s) = sys_number k (CSigaction sig ignore) s in if r < 0 then report Syswarn warning [] s else s)"

definition write_pid_file :: "kernel \<Rightarrow> string option \<Rightarrow> 'z sys_scheme \<Rightarrow> 'z sys_scheme" where
  "write_pid_file k path s =
     (case path of None \<Rightarrow> s
      | Some file \<Rightarrow>
          (let (r, s) = perform k (File (CWritePid file)) s
           in if r \<noteq> ROk then report Warn ''cannot create PID file %s'' [MStr file] s else s))"

definition handle_requests ::
  "('d, 'y) ctx_scheme \<Rightarrow> lbcd_config \<Rightarrow> (history \<Rightarrow> bool) \<Rightarrow> 'z ustate_scheme
    \<Rightarrow> (unit outcome \<times> 'z ustate_scheme) option" where
  "handle_requests cx config signaled s =
     (let k = cx_kernel cx;
          s = sigaction_warn k SIGHUP True ''cannot set SIGHUP handler'' s;
          s = sigaction_warn k SIGINT False ''cannot set SIGINT handler'' s;
          s = sigaction_warn k SIGTERM False ''cannot set SIGTERM handler'' s
      in do {
        (b, s) \<leftarrow> bind_sockets cx config s;
        case b of
          Exit n \<Rightarrow> Some (Exit n, s)
        | Ret fds \<Rightarrow> do {
            let s = write_pid_file k (pid_file config) s;
            let s = report Notice ''ready to accept requests'' [] s;
            let (status, s) = sys_number k (CSdNotify ''READY=1'') s;
            let s = (if status < 0 then report Warn ''cannot notify systemd of startup: %s'' [MNum (- status)] s else s);
            let s = (if upstart config then
                       (let (r, s) = sys_number k (CRaise SIGSTOP) s
                        in if r < 0 then report Syswarn ''cannot notify upstart of startup'' [] s else s)
                     else s);
            (r, s) \<leftarrow> main_loop cx config signaled fds s;
            case r of
              Exit n \<Rightarrow> Some (Exit n, s)
            | Ret _ \<Rightarrow>
                (let s = (case pid_file config of None \<Rightarrow> s | Some file \<Rightarrow> snd (perform k (File (CUnlink file)) s))
                 in Some (Ret (), foldl (\<lambda>s fd. sys_close k fd s) s fds))
          }
      })"

section \<open>main\<close>

text \<open>What \<open>main\<close> has parsed so far.\<close>

record options =
  op_config :: lbcd_config
  op_debugging :: bool
  op_testmode :: bool
  op_foreground :: bool
  op_helper :: "string option"
  op_weight :: "string option"
  op_timeout :: int

definition default_options :: options where
  "default_options =
     \<lparr>op_config = \<lparr>bindaddrs = vector_new, log_requests = False, port = of_nat LBCD_PORTNUM, pid_file = None,
                   allowed_services = vector_new, simple = False, upstart = False\<rparr>,
      op_debugging = False, op_testmode = False, op_foreground = False, op_helper = None,
      op_weight = None, op_timeout = LBCD_TIMEOUT\<rparr>"

text \<open>
  One option, as \<open>getopt\<close> returns it with its argument; anything that is not in its option string
  comes back as a question mark.
\<close>

definition parse_option ::
  "kernel \<Rightarrow> char \<Rightarrow> string \<Rightarrow> options \<Rightarrow> 'z sys_scheme \<Rightarrow> (options outcome \<times> 'z sys_scheme) option" where
  "parse_option k c optarg opts s =
     (let cf = op_config opts
      in if c = CHR ''a'' then do {
           v \<leftarrow> vector_add (allowed_services cf) optarg;
           Some (Ret (opts\<lparr>op_config := cf\<lparr>allowed_services := v\<rparr>\<rparr>), s)
         }
         else if c = CHR ''b'' then do {
           v \<leftarrow> vector_add (bindaddrs cf) optarg;
           Some (Ret (opts\<lparr>op_config := cf\<lparr>bindaddrs := v\<rparr>\<rparr>), s)
         }
         else if c = CHR ''c'' then
           (let (ok, s) = sys_access k optarg X_OK s
            in if \<not> ok then Some (Exit 1, report Sysdie ''cannot access %s'' [MStr optarg] s)
               else Some (Ret (opts\<lparr>op_helper := Some optarg\<rparr>), s))
         else if c = CHR ''d'' then Some (Ret (opts\<lparr>op_debugging := True, op_foreground := True\<rparr>), s)
         else if c = CHR ''f'' then Some (Ret (opts\<lparr>op_foreground := True\<rparr>), s)
         else if c = CHR ''h'' then Some (usage 0, s)
         else if c = CHR ''l'' then Some (Ret (opts\<lparr>op_config := cf\<lparr>log_requests := True\<rparr>\<rparr>), s)
         else if c = CHR ''P'' then Some (Ret (opts\<lparr>op_config := cf\<lparr>pid_file := Some optarg\<rparr>\<rparr>), s)
         else if c = CHR ''p'' then Some (Ret (opts\<lparr>op_config := cf\<lparr>port := word_of_int (c_atoi optarg)\<rparr>\<rparr>), s)
         else if c = CHR ''R'' then Some (Ret (opts\<lparr>op_weight := Some ''rr''\<rparr>), s)
         else if c = CHR ''S'' then Some (Ret (opts\<lparr>op_config := cf\<lparr>simple := True\<rparr>\<rparr>), s)
         else if c = CHR ''t'' then Some (Ret (opts\<lparr>op_testmode := True\<rparr>), s)
         else if c = CHR ''T'' then
           (if c_atoi optarg < 1 \<or> c_atoi optarg > 300 then
              Some (Exit 1, report Die ''timeout (%d) must be between 1 and 300 seconds'' [MNum (c_atoi optarg)] s)
            else Some (Ret (opts\<lparr>op_timeout := c_atoi optarg\<rparr>), s))
         else if c = CHR ''w'' then do {
           v \<leftarrow> vector_add (allowed_services cf) optarg;
           Some (Ret (opts\<lparr>op_config := cf\<lparr>allowed_services := v\<rparr>, op_weight := Some optarg\<rparr>), s)
         }
         else if c = CHR ''Z'' then Some (Ret (opts\<lparr>op_config := cf\<lparr>upstart := True\<rparr>\<rparr>), s)
         else Some (usage 1, s))"

fun parse_options ::
  "kernel \<Rightarrow> (char \<times> string) list \<Rightarrow> options \<Rightarrow> 'z sys_scheme \<Rightarrow> (options outcome \<times> 'z sys_scheme) option" where
  "parse_options k [] opts s = Some (Ret opts, s)"
| "parse_options k ((c, optarg) # rest) opts s = do {
     (r, s) \<leftarrow> parse_option k c optarg opts s;
     case r of Exit n \<Rightarrow> Some (Exit n, s) | Ret opts \<Rightarrow> parse_options k rest opts s
   }"

text \<open>\<open>--help\<close> and \<open>--version\<close> as the first argument.\<close>

definition long_option :: "string option \<Rightarrow> unit outcome" where
  "long_option arg =
     (case arg of Some (a # b # c # _) \<Rightarrow>
        if a = CHR ''-'' \<and> b = CHR ''-'' then
          (if c = CHR ''h'' then usage 0 else if c = CHR ''v'' then version else usage 1)
        else Ret ()
      | _ \<Rightarrow> Ret ())"

text \<open>
  \<open>main\<close>: \<open>first\<close> is the first argument, \<open>parsed\<close> what \<open>getopt\<close> returns, \<open>rest\<close> the arguments after
  the options. The result is the exit status and the lines of the test mode.
\<close>

definition main ::
  "'d ctx \<Rightarrow> string option \<Rightarrow> (char \<times> string) list \<Rightarrow> string list \<Rightarrow> (history \<Rightarrow> bool) \<Rightarrow> 'z ustate_scheme
    \<Rightarrow> ((int \<times> string list) \<times> 'z ustate_scheme) option" where
  "main cx first parsed rest signaled s =
     (case long_option first of
        Exit n \<Rightarrow> Some ((n, []), s)
      | Ret _ \<Rightarrow> do {
          (r, s) \<leftarrow> parse_options (cx_kernel cx) parsed default_options s;
          case r of
            Exit n \<Rightarrow> Some ((n, []), s)
          | Ret opts \<Rightarrow> do {
              let (status, g) = lbcd_weight_init (cx_env cx) (op_helper opts) (op_weight opts) (op_timeout opts) zero_globals;
              let cx = cx\<lparr>cx_globals := g\<rparr>;
              if status \<noteq> 0 then Some ((1, []), report Die ''cannot initialize service handler'' [] s)
              else if op_testmode opts then do {
                (lines, s) \<leftarrow> lbcd_test cx rest s;
                Some ((0, lines), s)
              }
              else do {
                let (d, s) = (if op_foreground opts then (0, s) else sys_number (cx_kernel cx) CDaemon s);
                if d < 0 then Some ((1, []), report Sysdie ''cannot daemonize'' [] s)
                else do {
                  (r, s) \<leftarrow> handle_requests cx (op_config opts) signaled s;
                  case r of
                    Exit n \<Rightarrow> Some ((n, []), s)
                  | Ret _ \<Rightarrow> do {
                      _ \<leftarrow> vector_free (Some (bindaddrs (op_config opts)));
                      _ \<leftarrow> vector_free (Some (allowed_services (op_config opts)));
                      Some ((0, []), s)
                    }
                }
              }
            }
        })"

end
