(* ===== verification/Replies.thy ===== *)
theory Replies
  imports Lbcd
begin

text \<open>
  The UDP traffic of the server. The history is projected to the datagrams received with \<open>recvfrom\<close> and
  sent with \<open>sendto\<close>, the newest first; the lemmas show that none of the functions that collect
  information receives or sends one.
\<close>

datatype udp_event = Got int bytes sockaddr nat | Gave int bytes sockaddr nat

definition udp_of :: "call \<Rightarrow> ret \<Rightarrow> udp_event list" where
  "udp_of c r =
     (case c of
        Io (CSendto fd d a l) \<Rightarrow> [Gave fd d a l]
      | Io (CRecvfrom fd n) \<Rightarrow> (case r of RFrom d a l \<Rightarrow> [Got fd (take n d) a l] | _ \<Rightarrow> [])
      | _ \<Rightarrow> [])"

lemma udp_of_simps [simp]:
  "udp_of (CReport lv f args) r = []" "udp_of (Sock sc) r = []" "udp_of (Name nc) r = []"
  "udp_of (File fc) r = []" "udp_of (Proc pc) r = []" "udp_of (Init ic) r = []"
  "udp_of (Io (CSendto fd d a l)) r = [Gave fd d a l]"
  "udp_of (Io (CSelectRead nf fds tv)) r = []" "udp_of (Io (CSelectWrite nf fds tv)) r = []"
  "udp_of (Io (CRead fd m)) r = []" "udp_of (Io (CWrite fd d)) r = []" "udp_of (Io (CPwrite fd d off)) r = []"
  "udp_of (Io (CWritev fd ds)) r = []" "udp_of (Io (CSend fd d)) r = []"
  by (simp_all add: udp_of_def)

fun traffic :: "history \<Rightarrow> udp_event list" where
  "traffic [] = []"
| "traffic ((c, r) # h) = udp_of c r @ traffic h"

fun gives :: "udp_event list \<Rightarrow> (int \<times> bytes \<times> sockaddr \<times> nat) list" where
  "gives [] = []"
| "gives (Gave fd d a l # es) = (fd, d, a, l) # gives es"
| "gives (Got fd d a l # es) = gives es"

fun gets :: "udp_event list \<Rightarrow> (int \<times> bytes \<times> sockaddr \<times> nat) list" where
  "gets [] = []"
| "gets (Got fd d a l # es) = (fd, d, a, l) # gets es"
| "gets (Gave fd d a l # es) = gets es"

abbreviation udp :: "'z sys_scheme \<Rightarrow> udp_event list" where
  "udp s \<equiv> traffic (trace s)"

abbreviation sent :: "'z sys_scheme \<Rightarrow> (int \<times> bytes \<times> sockaddr \<times> nat) list" where
  "sent s \<equiv> gives (udp s)"

abbreviation received_from :: "'z sys_scheme \<Rightarrow> (int \<times> bytes \<times> sockaddr \<times> nat) list" where
  "received_from s \<equiv> gets (udp s)"

section \<open>Collecting information leaves the traffic alone\<close>

lemma sys_udp [simp]:
  "udp (snd (sys_socket k f t p s)) = udp s" "udp (sys_close k fd s) = udp s"
  "udp (snd (sys_connect k fd a s)) = udp s" "udp (snd (sys_bind k fd a s)) = udp s"
  "udp (snd (sys_select_read k n fds tv s)) = udp s" "udp (snd (sys_read k fd m s)) = udp s"
  "udp (snd (sys_write k fd d s)) = udp s" "udp (snd (sys_time k s)) = udp s"
  "udp (snd (sys_getaddrinfo k h sv fl fa ty s)) = udp s" "udp (snd (sys_access k pth m' s)) = udp s"
  by (simp_all add: sys_defs split_beta)

lemma lookup_udp [simp]:
  "udp (snd (sys_getservbyname k n p s)) = udp s" "udp (snd (sys_getservbyport k q p s)) = udp s"
  "udp (snd (sys_gethost k c s)) = udp s" "udp (snd (sys_read_file k pth s)) = udp s"
  "udp (snd (sys_chdir k pth s)) = udp s" "udp (snd (sys_statvfs k pth s)) = udp s"
  "udp (snd (sys_stat k pth s)) = udp s" "udp (snd (sys_utmp k s)) = udp s"
  by (simp_all add: sys_getservbyname_def sys_getservbyport_def sys_gethost_def sys_read_file_def
      sys_chdir_def sys_statvfs_def sys_stat_def sys_utmp_def split_beta)

lemma proc_udp [simp]:
  "udp (snd (sys_pipe k s)) = udp s" "udp (snd (sys_fork k s)) = udp s"
  "udp (snd (sys_fdopen k n s)) = udp s" "udp (sys_fclose k n s) = udp s"
  "udp (snd (sys_kill k p g s)) = udp s" "udp (snd (sys_waitpid k n opt s)) = udp s"
  "udp (snd (sys_fgets k n s)) = udp s" "udp (kill_child k n s) = udp s"
  by (simp_all add: sys_pipe_def sys_fork_def sys_fdopen_def sys_fclose_def sys_kill_def sys_waitpid_def
      sys_fgets_def kill_child_def split_beta Let_def)

lemma network_source_None [simp]: "network_source k p fd fam None s = (True, s)"
  by (simp add: network_source_def)

lemma connect_loop_udp:
  "connect_loop k p ais None 0 fd st s = Some (r, s') \<Longrightarrow> udp s' = udp s"
proof (induction ais arbitrary: fd st s)
  case (Cons ai ais)
  show ?case
  proof (cases "st = 0")
    case False
    define s1 where "s1 = (if fd \<noteq> INVALID_SOCKET then sys_close k fd s else s)"
    define sk where "sk = sys_socket k (ai_family ai) (ai_socktype ai) (ai_protocol ai) s1"
    define co where "co = sys_connect k (fst sk) (ai_addr ai) (snd sk)"
    have "udp s1 = udp s" "udp (snd sk) = udp s1" "udp (snd co) = udp (snd sk)"
      by (simp_all add: s1_def sk_def co_def)
    moreover have "connect_loop k p ais None 0 (fst sk) st (snd sk) = Some (r, s')
      \<or> connect_loop k p ais None 0 (fst sk) (fst co) (snd co) = Some (r, s')"
      using Cons.prems False
      by (auto simp: s1_def[symmetric] sk_def[symmetric] co_def[symmetric] Let_def split_beta connect_one_def
          split: if_splits)
    ultimately show ?thesis using Cons.IH by metis
  qed (use Cons.prems in simp)
qed simp

lemma network_connect_udp: "network_connect k p ai None 0 s = Some (r, s') \<Longrightarrow> udp s' = udp s"
  by (auto simp: network_connect_def dest!: connect_loop_udp split: bind_splits if_splits)

lemma resolve_udp [simp]:
  "udp (snd (tcp_resolve k h p q s)) = udp s" "udp (snd (udp_port k ev p q s)) = udp s"
  "udp (snd (udp_host k ev h s)) = udp s"
  by (auto simp: tcp_resolve_def udp_port_def udp_host_def Let_def split: option.split)

lemma tcp_connect_udp: "tcp_connect k ev h p q s = Some (r, s') \<Longrightarrow> udp s' = udp s"
  by (auto simp: tcp_connect_def Let_def split_beta dest!: network_connect_udp split: if_splits)

lemma udp_connect_udp [simp]: "udp (snd (udp_connect k ev h p q s)) = udp s"
  by (simp add: udp_connect_def Let_def split_beta split: option.split)

lemma check_reply_udp [simp]: "udp (snd (lbcd_check_reply k ev sd t tok s)) = udp s"
  by (auto simp: lbcd_check_reply_def Let_def split_beta split: option.splits)

lemma probe_tcp_udp: "probe_tcp k ev h sv p c t s = Some (r, s') \<Longrightarrow> udp s' = udp s"
  by (auto simp: probe_tcp_def Let_def split_beta dest!: tcp_connect_udp split: bind_splits if_splits option.splits)

lemma probe_imap_udp: "probe_imap k ev h t s = Some (r, s') \<Longrightarrow> udp s' = udp s"
  by (auto simp: probe_imap_def Let_def split_beta dest!: tcp_connect_udp split: bind_splits if_splits)

lemma probe_http_udp: "probe_http k ev h t p s = Some (r, s') \<Longrightarrow> udp s' = udp s"
  by (auto simp: probe_http_def Let_def split_beta dest!: tcp_connect_udp split: bind_splits if_splits option.splits)

lemma response_loop_udp:
  assumes "response_loop k e sd i q t st s = Some rs" shows "udp (snd rs) = udp s"
proof (rule response_loop.raw_induct[OF _ assms], goal_cases)
  case (1 f k e sd i q t st s rs)
  define s1 where "s1 = snd (sys_select_read k (sd + 1) [sd] (Some t) s)"
  define rd where "rd = sys_read k sd RESP_SIZE s1"
  have "udp s1 = udp s" "udp (snd rd) = udp s" by (simp_all add: s1_def rd_def)
  then show ?case using 1(2) 1(1)[of k e sd i q t _ "snd rd" rs]
    by (auto simp: Let_def s1_def[symmetric] rd_def[symmetric] split: if_splits option.splits resp_step.splits)
qed

lemma monlist_udp: "monlist k ev sd t s = Some (r, s') \<Longrightarrow> udp s' = udp s"
  by (auto simp: monlist_def sendrequest_def getresponse_def Let_def split_beta
      dest!: response_loop_udp split: bind_splits if_splits)

lemma wait_child_udp:
  assumes "wait_child k c opt s = Some rs" shows "udp (snd rs) = udp s"
proof (rule wait_child.raw_induct[OF _ assms], goal_cases)
  case (1 f k c opt s rs)
  have "udp (snd (sys_waitpid k c opt s)) = udp s" by simp
  then show ?case using 1(2) 1(1)[of k c opt "snd (sys_waitpid k c opt s)" rs]
    by (auto simp: Let_def split: if_splits)
qed

lemma ldap_lines_udp:
  assumes "ldap_lines k fd s = Some rs" shows "udp (snd rs) = udp s"
proof (rule ldap_lines.raw_induct[OF _ assms], goal_cases)
  case (1 f k fd s rs)
  have "udp (snd (sys_fgets k fd s)) = udp s" by simp
  then show ?case using 1(2) 1(1)[of k fd "snd (sys_fgets k fd s)" rs]
    by (auto simp: Let_def split: if_splits option.splits)
qed

lemma cmd_weight_udp: "lbcd_cmd_weight k ev wi t p lb s = Some (r, s') \<Longrightarrow> udp s' = udp s"
  by (auto simp: lbcd_cmd_weight_def Let_def split_beta dest!: wait_child_udp
      split: option.splits bind_splits if_splits)

lemma probe_ldap_udp: "probe_ldap k ev h t s = Some (r, s') \<Longrightarrow> udp s' = udp s"
  by (auto simp: probe_ldap_def Let_def split_beta dest!: wait_child_udp ldap_lines_udp
      split: option.splits bind_splits if_splits)

lemma load_weight_udp: "lbcd_load_weight k ev wi t p lb s = Some (r, s') \<Longrightarrow> udp s' = udp s"
  by (auto simp: load_weight_ok Let_def split_beta)

lemma ntp_weight_udp: "lbcd_ntp_weight k ev wi t p lb s = Some (r, s') \<Longrightarrow> udp s' = udp s"
  by (auto simp: lbcd_ntp_weight_def probe_ntp_def Let_def split_beta dest!: monlist_udp
      split: bind_splits if_splits)

lemma tcp_weight_udp: "lbcd_tcp_weight k ev wi t p lb s = Some (r, s') \<Longrightarrow> udp s' = udp s"
  by (auto simp: lbcd_tcp_weight_def Let_def split_beta dest!: probe_tcp_udp
      split: option.splits bind_splits if_splits)

lemmas weight_udp = cmd_weight_udp load_weight_udp ntp_weight_udp tcp_weight_udp

lemma call_weight_udp:
  "call_weight k ev g f wi t p lb s = Some (r, s') \<Longrightarrow> udp s' = udp s"
  by (cases f)
     (auto simp: lbcd_ftp_weight_def probe_ftp_def lbcd_smtp_weight_def probe_smtp_def lbcd_nntp_weight_def
        probe_nntp_def lbcd_pop_weight_def probe_pop_def lbcd_imap_weight_def lbcd_http_weight_def
        lbcd_ldap_weight_def weight_udp dest!: probe_tcp_udp probe_imap_udp probe_http_udp probe_ldap_udp
      split: bind_splits)

lemma setweight_udp: "lbcd_setweight k ev g lb i sv s = Some (r, s') \<Longrightarrow> udp s' = udp s"
  by (auto simp: lbcd_setweight_def Let_def dest!: call_weight_udp split: bind_splits if_splits)

lemma set_services_udp: "set_services cx i svs lb s = Some (r, s') \<Longrightarrow> udp s' = udp s"
  by (induction svs arbitrary: i lb s) (auto dest!: setweight_udp split: bind_splits)

lemma set_load_udp: "lbcd_set_load cx lb svs s = Some (r, s') \<Longrightarrow> udp s' = udp s"
  by (auto simp: lbcd_set_load_def Let_def split_beta dest!: setweight_udp set_services_udp split: bind_splits)

lemma stats_udp [simp]:
  "udp (snd (kernel_getboottime k fpu j s)) = udp s" "udp (snd (kernel_getload k fpu jj s)) = udp s"
  "udp (snd (tmp_full k fpu pth s)) = udp s"
  by (auto simp: kernel_getboottime_def kernel_getload_def tmp_full_def Let_def split_beta
      split: option.split list.split)

lemma user_stats_udp: "get_user_stats k cap s = Some (r, s') \<Longrightarrow> udp s' = udp s"
  by (auto simp: get_user_stats_def Let_def split_beta split: bind_splits if_splits)

lemma pack_info_udp:
  assumes "lbcd_pack_info cx lb protocol svs smp s = Some (r, s')" shows "udp s' = udp s"
  using assms
  by (auto simp: lbcd_pack_info_def Let_def split_beta dest!: user_stats_udp set_load_udp
      split: bind_splits option.splits)

end
