(* ===== verification/Requests.thy ===== *)
theory Requests
  imports Replies
begin

text \<open>
  What the server does with a datagram. \<open>judge\<close> is the specification of \<open>request_recv\<close>, a function of
  the datagram and the allowed services alone; the lemmas show that the code, which parses the
  datagram in a buffer of 2048 bytes with whatever the rest of it holds, decides as \<open>judge\<close> does,
  and sends the reply that belongs to the decision.
\<close>

section \<open>Specification\<close>

definition dg_version :: "bytes \<Rightarrow> nat" where "dg_version d = unat (de16 (take 2 d))"
definition dg_id :: "bytes \<Rightarrow> u16" where "dg_id d = de16 (take 2 (drop 2 d))"
definition dg_op :: "bytes \<Rightarrow> u16" where "dg_op d = de16 (take 2 (drop 4 d))"
definition dg_count :: "bytes \<Rightarrow> nat" where "dg_count d = unat (de16 (take 2 (drop 6 d)))"

definition dg_names :: "bytes \<Rightarrow> nat \<Rightarrow> string list" where
  "dg_names d n = map (\<lambda>i. c_str (name_field d i)) [0..<n]"

definition name_ok :: "lbcd_config \<Rightarrow> string \<Rightarrow> bool" where
  "name_ok config n \<longleftrightarrow>
     n = ''default'' \<or> n \<noteq> ''cmd'' \<and> take 4 n \<noteq> ''cmd:'' \<and> n \<in> set (vec_items (allowed_services config))"

datatype verdict = Ignore | Reject lbcd_status | Accept nat "string list"

definition judge :: "lbcd_config \<Rightarrow> bytes \<Rightarrow> verdict" where
  "judge config d =
     (let v = dg_version d; n = (if v = 3 then dg_count d else 0)
      in if length d < HEADER_SIZE \<or> n > LBCD_MAX_SERVICES \<or> length d \<noteq> HEADER_SIZE + n * NAME_SIZE then Ignore
         else if v \<noteq> 2 \<and> v \<noteq> 3 then Reject LBCD_STATUS_VERSION
         else if \<forall>nm \<in> set (dg_names d n). name_ok config nm then Accept v (dg_names d n)
         else Reject LBCD_STATUS_ERROR)"

section \<open>The code decides as the specification\<close>

lemma those_map_total: "those (map (\<lambda>i. Some (f i)) xs) = Some (map f xs)"
  by (induction xs) auto

lemma vec_strings_items:
  assumes "vec_inv v" shows "vec_strings v = Some (vec_items v)"
  using assms
proof (cases rule: vec_cases)
  case (1 xs rest)
  have "map (get_slot (v_strings v)) [0..<v_count v] = map (\<lambda>i. Some (xs ! i)) [0..<length xs]"
    using 1 by (auto simp: get_slot_def nth_append)
  then show ?thesis using 1 unfolding vec_strings_def by (simp only: those_map_total map_nth) simp
qed

lemma service_allowed_ok:
  "vec_inv (allowed_services config) \<Longrightarrow> service_allowed config nm = Some (name_ok config nm)"
  by (auto simp: service_allowed_def name_ok_def vec_strings_items)

lemma xstrndup_name:
  assumes "length m = NAME_SIZE" shows "xstrndup m NAME_SIZE = Some (c_str m)"
  using xstrndup_full[of m] assms by simp

lemma recv_services_ok:
  assumes "vec_inv (allowed_services config)"
  shows "vec_inv v \<Longrightarrow> HEADER_SIZE + (i + n) * NAME_SIZE \<le> length raw \<Longrightarrow>
    \<exists>r. recv_services config raw i n v = Some r
      \<and> (case r of Inr v' \<Rightarrow> vec_inv v' \<and> vec_items v' = vec_items v @ map (\<lambda>j. c_str (name_field raw j)) [i..<i + n]
                     \<and> (\<forall>j \<in> set [i..<i + n]. name_ok config (c_str (name_field raw j)))
         | Inl (nm, v') \<Rightarrow> vec_inv v' \<and> \<not> name_ok config nm
                     \<and> (\<exists>j \<in> set [i..<i + n]. nm = c_str (name_field raw j)))"
proof (induction n arbitrary: i v)
  case 0
  then show ?case by simp
next
  case (Suc n)
  have len: "length (name_field raw i) = NAME_SIZE"
    using Suc.prems(2) by (simp add: name_field_def NAME_SIZE_def)
  let ?nm = "c_str (name_field raw i)"
  have upt: "[i..<i + Suc n] = i # [Suc i..<Suc i + n]" by (simp add: upt_rec)
  show ?case
  proof (cases "name_ok config ?nm")
    case False
    then show ?thesis using xstrndup_name[OF len] service_allowed_ok[OF assms] Suc.prems unfolding upt by auto
  next
    case True
    obtain v1 where v1: "vector_add v ?nm = Some v1" "vec_inv v1" "vec_items v1 = vec_items v @ [?nm]"
      using vtab.tadd_appends[OF Suc.prems(1), of ?nm] by auto
    have "HEADER_SIZE + (Suc i + n) * NAME_SIZE \<le> length raw" using Suc.prems(2) by simp
    from Suc.IH[OF v1(2) this] obtain r where r: "recv_services config raw (Suc i) n v1 = Some r"
      "case r of Inr v' \<Rightarrow> vec_inv v' \<and> vec_items v' = vec_items v1 @ map (\<lambda>j. c_str (name_field raw j)) [Suc i..<Suc i + n]
                     \<and> (\<forall>j \<in> set [Suc i..<Suc i + n]. name_ok config (c_str (name_field raw j)))
         | Inl (nm, v') \<Rightarrow> vec_inv v' \<and> \<not> name_ok config nm
                     \<and> (\<exists>j \<in> set [Suc i..<Suc i + n]. nm = c_str (name_field raw j))" by blast
    have "recv_services config raw i (Suc n) v = Some r"
      using xstrndup_name[OF len] service_allowed_ok[OF assms] True v1(1) r(1) by simp
    then show ?thesis using r(2) v1(3) True unfolding upt by (cases r) auto
  qed
qed

text \<open>Within the datagram the buffer holds the datagram.\<close>

lemma name_field_filled:
  "HEADER_SIZE + (i + 1) * NAME_SIZE \<le> length d \<Longrightarrow> name_field (filled buf d) i = name_field d i"
  by (simp add: name_field_def filled_def)

lemma header_filled:
  assumes "HEADER_SIZE \<le> length d"
  shows "ntohs e (h_version (read_header e (filled buf d))) = de16 (take 2 d)"
    "ntohs e (h_id (read_header e (filled buf d))) = dg_id d"
    "ntohs e (h_op (read_header e (filled buf d))) = dg_op d"
    "ntohs e (h_status (read_header e (filled buf d))) = de16 (take 2 (drop 6 d))"
proof -
  have f: "filled buf d = take 8 d @ (drop 8 d @ drop (length d) buf)" by (simp add: filled_def)
  have l: "length (take 8 d) = 8" using assms by (simp add: HEADER_SIZE_def)
  have t: "take 2 (drop j (take 8 d)) = take 2 (drop j d)" if "j \<le> 6" for j
    using that by (simp add: take_drop min_def)
  show "ntohs e (h_version (read_header e (filled buf d))) = de16 (take 2 d)"
    "ntohs e (h_id (read_header e (filled buf d))) = dg_id d"
    "ntohs e (h_op (read_header e (filled buf d))) = dg_op d"
    "ntohs e (h_status (read_header e (filled buf d))) = de16 (take 2 (drop 6 d))"
    unfolding f using read_header_wire[OF l, of e] t[of 2] t[of 4] t[of 6]
    by (simp_all add: dg_id_def dg_op_def)
qed

lemma sendto_sent:
  "sent (snd (sys_sendto k fd d a l s)) = (fd, d, a, l) # sent s"
  by (simp add: sys_sendto_def split_beta)

lemma of_nat_unat16 [simp]: "of_nat (unat (w :: u16)) = w"
  by simp

lemma send_status_sent:
  assumes "req_id rq = unat i" "req_operation rq = unat p"
  shows "sent (send_status cx rq fd status s) =
    (fd, wire_header 3 i p (status_code status), req_addr rq, req_addrlen rq) # sent s"
  using assms
  by (simp add: send_status_def Let_def split_beta sendto_sent header_bytes_wire LBCD_VERSION_def)

lemma recvfrom_sent: "sent (snd (sys_recvfrom k fd n s)) = sent s"
  by (simp add: sys_recvfrom_def split_beta udp_of_def split: ret.split)

lemma dg_names_filled:
  "HEADER_SIZE + n * NAME_SIZE \<le> length d \<Longrightarrow>
   map (\<lambda>j. c_str (name_field (filled buf d) j)) [0..<n] = dg_names d n"
proof -
  assume len: "HEADER_SIZE + n * NAME_SIZE \<le> length d"
  have "name_field (filled buf d) j = name_field d j" if "j < n" for j
  proof (rule name_field_filled)
    have "(j + 1) * NAME_SIZE \<le> n * NAME_SIZE" using that by (intro mult_right_mono) auto
    then show "HEADER_SIZE + (j + 1) * NAME_SIZE \<le> length d" using len by linarith
  qed
  then show ?thesis by (auto simp: dg_names_def)
qed

definition request_of :: "bytes \<Rightarrow> sockaddr \<Rightarrow> nat \<Rightarrow> nat \<Rightarrow> string list \<Rightarrow> request \<Rightarrow> bool" where
  "request_of d addr alen v names rq \<longleftrightarrow>
     req_addr rq = addr \<and> req_addrlen rq = alen \<and> req_protocol rq = v \<and> req_id rq = unat (dg_id d)
     \<and> req_operation rq = unat (dg_op d) \<and> vec_inv (req_services rq) \<and> vec_items (req_services rq) = names"

text \<open>The checks, with the fields of the datagram in place of those of the buffer.\<close>

lemma request_check_fields:
  assumes "HEADER_SIZE \<le> length d" "raw = filled buf d"
  shows "request_check cx config fd raw d addr alen source s =
        (let v = dg_version d; n = dg_count d; expected = HEADER_SIZE + (if v = 3 then n * NAME_SIZE else 0)
         in if v = 3 \<and> n > LBCD_MAX_SERVICES then
              Some (None, report Warn ''client %s: too many services in request (%u)'' [MStr source, MNum (int n)] s)
            else if length d \<noteq> expected then
              Some (None, report Warn ''client %s: incorrect packet size (%lu != %lu)''
                      [MStr source, MNum (int (length d)), MNum (int expected)] s)
            else
              (let rq = \<lparr>req_addr = addr, req_addrlen = alen, req_source = source, req_protocol = v,
                         req_id = unat (dg_id d), req_operation = unat (dg_op d), req_services = vector_new\<rparr>
               in if v \<noteq> 2 \<and> v \<noteq> 3 then do {
                    let s = report Warn ''client %s: protocol version %u unsupported'' [MStr source, MNum (int v)] s;
                    let s = send_status cx rq fd LBCD_STATUS_VERSION s;
                    _ \<leftarrow> request_free (Some rq);
                    Some (None, s)
                  }
                  else do {
                    r \<leftarrow> recv_services config raw 0 (if v = 3 then n else 0) vector_new;
                    case r of
                      Inr w \<Rightarrow> Some (Some (rq\<lparr>req_services := w\<rparr>), s)
                    | Inl (service, w) \<Rightarrow> do {
                        let s = report Warn ''client %s: service %s not allowed'' [MStr source, MStr service] s;
                        let s = send_status cx rq fd LBCD_STATUS_ERROR s;
                        _ \<leftarrow> request_free (Some (rq\<lparr>req_services := w\<rparr>));
                        Some (None, s)
                      }
                  }))"
proof -
  have nl: "(length d < HEADER_SIZE) = False" using assms(1) by simp
  show ?thesis
    unfolding request_check_def Let_def assms(2) nl if_False dg_version_def dg_count_def header_filled[OF assms(1)] ..
qed

lemma request_check_short:
  "length d < HEADER_SIZE \<Longrightarrow> \<exists>s'. request_check cx config fd raw d addr alen source s = Some (None, s') \<and> sent s' = sent s"
  by (simp add: request_check_def)

text \<open>The number of names a datagram holds, and the specification over it.\<close>

definition dg_n :: "bytes \<Rightarrow> nat" where
  "dg_n d = (if dg_version d = 3 then dg_count d else 0)"

lemma judge_n:
  "judge config d =
     (if length d < HEADER_SIZE \<or> dg_n d > LBCD_MAX_SERVICES \<or> length d \<noteq> HEADER_SIZE + dg_n d * NAME_SIZE then Ignore
      else if dg_version d \<noteq> 2 \<and> dg_version d \<noteq> 3 then Reject LBCD_STATUS_VERSION
      else if \<forall>nm \<in> set (dg_names d (dg_n d)). name_ok config nm then Accept (dg_version d) (dg_names d (dg_n d))
      else Reject LBCD_STATUS_ERROR)"
  by (simp only: judge_def Let_def dg_n_def)

lemma dg_n_sizes:
  "dg_version d = 3 \<and> dg_count d > LBCD_MAX_SERVICES \<longleftrightarrow> dg_n d > LBCD_MAX_SERVICES"
  "(if dg_version d = 3 then dg_count d * NAME_SIZE else 0) = dg_n d * NAME_SIZE"
  by (simp_all add: dg_n_def)

definition bare_request :: "bytes \<Rightarrow> sockaddr \<Rightarrow> nat \<Rightarrow> string \<Rightarrow> string vec \<Rightarrow> request" where
  "bare_request d addr alen source v =
     \<lparr>req_addr = addr, req_addrlen = alen, req_source = source, req_protocol = dg_version d,
      req_id = unat (dg_id d), req_operation = unat (dg_op d), req_services = v\<rparr>"

lemma request_check_n:
  assumes "HEADER_SIZE \<le> length d" "raw = filled buf d"
  shows "request_check cx config fd raw d addr alen source s =
        (if dg_n d > LBCD_MAX_SERVICES then
           Some (None, report Warn ''client %s: too many services in request (%u)'' [MStr source, MNum (int (dg_count d))] s)
         else if length d \<noteq> HEADER_SIZE + dg_n d * NAME_SIZE then
           Some (None, report Warn ''client %s: incorrect packet size (%lu != %lu)''
                      [MStr source, MNum (int (length d)), MNum (int (HEADER_SIZE + dg_n d * NAME_SIZE))] s)
         else if dg_version d \<noteq> 2 \<and> dg_version d \<noteq> 3 then
           Option.bind (request_free (Some (bare_request d addr alen source vector_new))) (\<lambda>_.
             Some (None, send_status cx (bare_request d addr alen source vector_new) fd LBCD_STATUS_VERSION
                    (report Warn ''client %s: protocol version %u unsupported'' [MStr source, MNum (int (dg_version d))] s)))
         else
           Option.bind (recv_services config raw 0 (dg_n d) vector_new) (\<lambda>r. case r of
               Inr w \<Rightarrow> Some (Some (bare_request d addr alen source w), s)
             | Inl (service, w) \<Rightarrow>
                 Option.bind (request_free (Some (bare_request d addr alen source w))) (\<lambda>_.
                   Some (None, send_status cx (bare_request d addr alen source vector_new) fd LBCD_STATUS_ERROR
                     (report Warn ''client %s: service %s not allowed'' [MStr source, MStr service] s)))))"
  unfolding request_check_fields[OF assms] Let_def dg_n_sizes
  by (simp only: bare_request_def request.update_convs dg_n_def)

lemma bare_request_of:
  "vec_inv w \<Longrightarrow> request_of d addr alen (dg_version d) (vec_items w) (bare_request d addr alen source w)"
  by (simp add: request_of_def bare_request_def)

lemma bare_request_free: "vec_inv w \<Longrightarrow> request_free (Some (bare_request d addr alen source w)) = Some []"
  by (simp add: request_free_def bare_request_def vector_free_no_leak)

lemma bare_request_status:
  "sent (send_status cx (bare_request d addr alen source w) fd stc (report l f a s)) =
      (fd, wire_header 3 (dg_id d) (dg_op d) (status_code stc), addr, alen) # sent s"
  by (subst send_status_sent[where i = "dg_id d" and p = "dg_op d"]) (auto simp: bare_request_def)

text \<open>The names of a datagram of the right length, received and checked.\<close>

lemma recv_services_judge:
  assumes "vec_inv (allowed_services config)" "length d = HEADER_SIZE + dg_n d * NAME_SIZE"
  shows "\<exists>r. recv_services config (filled buf d) 0 (dg_n d) vector_new = Some r
      \<and> (case r of Inr w \<Rightarrow> vec_inv w \<and> vec_items w = dg_names d (dg_n d) \<and> (\<forall>nm \<in> set (dg_names d (dg_n d)). name_ok config nm)
         | Inl (nm, w) \<Rightarrow> vec_inv w \<and> \<not> (\<forall>nm \<in> set (dg_names d (dg_n d)). name_ok config nm))"
proof -
  define n where "n = dg_n d"
  have len: "HEADER_SIZE + (0 + n) * NAME_SIZE \<le> length (filled buf d)"
    using assms(2) unfolding n_def by (simp add: filled_def)
  have names: "dg_names d n = map (\<lambda>j. c_str (name_field (filled buf d) j)) [0..<0 + n]"
    using dg_names_filled[of n d buf] assms(2) by (simp add: n_def)
  obtain r where r: "recv_services config (filled buf d) 0 n vector_new = Some r"
    "case r of Inr w \<Rightarrow> vec_inv w \<and> vec_items w = vec_items vector_new @ map (\<lambda>j. c_str (name_field (filled buf d) j)) [0..<0 + n]
                   \<and> (\<forall>j \<in> set [0..<0 + n]. name_ok config (c_str (name_field (filled buf d) j)))
       | Inl (nm, w) \<Rightarrow> vec_inv w \<and> \<not> name_ok config nm
                   \<and> (\<exists>j \<in> set [0..<0 + n]. nm = c_str (name_field (filled buf d) j))"
    using recv_services_ok[OF assms(1) vtab.tnew_inv len] by blast
  have "case r of Inr w \<Rightarrow> vec_inv w \<and> vec_items w = dg_names d n \<and> (\<forall>nm \<in> set (dg_names d n). name_ok config nm)
         | Inl (nm, w) \<Rightarrow> vec_inv w \<and> \<not> (\<forall>nm \<in> set (dg_names d n). name_ok config nm)"
    using r(2) unfolding names set_map vtab.tnew_items by (cases r) auto
  with r(1) show ?thesis unfolding n_def by blast
qed

lemma request_check_ok:
  fixes s2 :: "'z sys_scheme"
  assumes "vec_inv (allowed_services config)" "raw = filled buf d"
  shows "\<exists>r s'. request_check cx config fd raw d addr alen source s2 = Some (r, s') \<and>
    (case judge config d of
       Ignore \<Rightarrow> r = None \<and> sent s' = sent s2
     | Reject st \<Rightarrow> r = None \<and> sent s' = (fd, wire_header 3 (dg_id d) (dg_op d) (status_code st), addr, alen) # sent s2
     | Accept v names \<Rightarrow> sent s' = sent s2 \<and> (\<exists>rq. r = Some rq \<and> request_of d addr alen v names rq))"
proof (cases "length d < HEADER_SIZE")
  case True
  then have "judge config d = Ignore" by (simp add: judge_def Let_def)
  then show ?thesis using request_check_short[OF True] by auto
next
  case False
  then have le: "HEADER_SIZE \<le> length d" by simp
  note rc = request_check_n[OF le assms(2), of cx config fd addr alen source s2]
  show ?thesis
  proof (cases "dg_n d > LBCD_MAX_SERVICES \<or> length d \<noteq> HEADER_SIZE + dg_n d * NAME_SIZE")
    case True
    then have "judge config d = Ignore" by (simp add: judge_n)
    with True show ?thesis unfolding rc by auto
  next
    case False
    then have sz: "\<not> dg_n d > LBCD_MAX_SERVICES" "length d = HEADER_SIZE + dg_n d * NAME_SIZE" by blast+
    show ?thesis
    proof (cases "dg_version d \<noteq> 2 \<and> dg_version d \<noteq> 3")
      case True
      then have "judge config d = Reject LBCD_STATUS_VERSION" unfolding judge_n using sz le by (simp only:) simp
      with True sz show ?thesis
        unfolding rc by (simp add: bare_request_free[OF vtab.tnew_inv] bare_request_status)
    next
      case ver: False
      have jd: "judge config d = (if \<forall>nm \<in> set (dg_names d (dg_n d)). name_ok config nm
          then Accept (dg_version d) (dg_names d (dg_n d)) else Reject LBCD_STATUS_ERROR)"
      proof -
        have c: "(length d < HEADER_SIZE \<or> dg_n d > LBCD_MAX_SERVICES \<or> length d \<noteq> HEADER_SIZE + dg_n d * NAME_SIZE) = False"
          "(dg_version d \<noteq> 2 \<and> dg_version d \<noteq> 3) = False" using sz le ver by auto
        show ?thesis unfolding judge_n c if_False ..
      qed
      obtain r where r: "recv_services config raw 0 (dg_n d) vector_new = Some r"
        and rr: "case r of Inr w \<Rightarrow> vec_inv w \<and> vec_items w = dg_names d (dg_n d) \<and> (\<forall>nm \<in> set (dg_names d (dg_n d)). name_ok config nm)
         | Inl (nm, w) \<Rightarrow> vec_inv w \<and> \<not> (\<forall>nm \<in> set (dg_names d (dg_n d)). name_ok config nm)"
        using recv_services_judge[OF assms(1) sz(2), of buf] assms(2) by blast
      show ?thesis
      proof (cases r)
        case (Inr w)
        then have w: "vec_inv w" "vec_items w = dg_names d (dg_n d)"
          and "judge config d = Accept (dg_version d) (dg_names d (dg_n d))" using rr jd by simp_all
        with bare_request_of[OF w(1), of d addr alen source] show ?thesis
          unfolding rc using sz ver by (auto simp: r Inr)
      next
        case (Inl p)
        obtain nm w where p: "p = (nm, w)" by fastforce
        have w: "vec_inv w" and "judge config d = Reject LBCD_STATUS_ERROR" using rr jd unfolding Inl p by simp_all
        then show ?thesis
          unfolding rc using sz ver by (auto simp: r Inl p bare_request_free[OF w] bare_request_status)
      qed
    qed
  qed
qed

lemma client_source_sent: "sent (snd (client_source cx addr s)) = sent s"
  by (simp add: client_source_def split: sum.split)

lemma request_recv_ok:
  assumes "vec_inv (allowed_services config)"
    and rcv: "sys_recvfrom (cx_kernel cx) fd LBCD_MAXMESG s = (Some (d, addr, alen), s1)" and "d \<noteq> []"
  shows "\<exists>r s'. request_recv cx config fd s = Some (r, s') \<and>
    (case judge config d of
       Ignore \<Rightarrow> r = None \<and> sent s' = sent s
     | Reject st \<Rightarrow> r = None \<and> sent s' = (fd, wire_header 3 (dg_id d) (dg_op d) (status_code st), addr, alen) # sent s
     | Accept v names \<Rightarrow> sent s' = sent s \<and> (\<exists>rq. r = Some rq \<and> request_of d addr alen v names rq))"
proof -
  let ?s2 = "snd (client_source cx addr s1)"
  have "sent s1 = sent s" using recvfrom_sent[of "cx_kernel cx" fd LBCD_MAXMESG s] rcv by simp
  then have s2: "sent ?s2 = sent s" by (simp add: client_source_sent)
  have eq: "request_recv cx config fd s = request_check cx config fd (filled (fresh_buffer (cx_env cx) LBCD_MAXMESG) d)
      d addr alen (fst (client_source cx addr s1)) ?s2"
    using rcv assms(3) by (simp add: request_recv_def split_beta)
  show ?thesis unfolding eq by (rule request_check_ok[OF assms(1) refl, where ?s2.0 = ?s2, unfolded s2])
qed

end
