(* ===== verification/Answers.thy ===== *)
theory Answers
  imports Requests
begin

text \<open>
  The answer to a request: what of the reply is fixed before the weights are computed and kept
  until it is sent, and that an answer is always computed when no module has to wait for a child
  or a time server.
\<close>

section \<open>What the weight modules may change\<close>

lemma setweight_keeps:
  assumes "lbcd_setweight k ev g lb i sv s = Some (lb', s')"
  shows "i < length (weights lb) \<and> (\<exists>w. lb' = lb\<lparr>weights := (weights lb)[i := w]\<rparr>)"
  using assms by (auto simp: lbcd_setweight_def Let_def split: bind_splits if_splits)

text \<open>Two replies that differ at most in the weights from slot \<open>i\<close> on.\<close>

definition same_before :: "nat \<Rightarrow> lbcd_reply \<Rightarrow> lbcd_reply \<Rightarrow> bool" where
  "same_before i lb lb' \<longleftrightarrow>
     (\<exists>ws. lb' = lb\<lparr>weights := ws\<rparr> \<and> length ws = length (weights lb) \<and> take i ws = take i (weights lb))"

lemma same_before_refl [simp]: "same_before i lb lb"
  unfolding same_before_def by (rule exI[of _ "weights lb"]) simp

lemma same_before_trans: "same_before i lb1 lb2 \<Longrightarrow> same_before j lb2 lb3 \<Longrightarrow> i \<le> j \<Longrightarrow> same_before i lb1 lb3"
proof -
  assume a: "same_before i lb1 lb2" "same_before j lb2 lb3" "i \<le> j"
  obtain w2 where 2: "lb2 = lb1\<lparr>weights := w2\<rparr>" "length w2 = length (weights lb1)" "take i w2 = take i (weights lb1)"
    using a(1) unfolding same_before_def by blast
  obtain w3 where 3: "lb3 = lb2\<lparr>weights := w3\<rparr>" "length w3 = length (weights lb2)" "take j w3 = take j (weights lb2)"
    using a(2) unfolding same_before_def by blast
  have "take i (take j w3) = take i (take j (weights lb2))" using 3(3) by simp
  then have "take i w3 = take i (weights lb1)" using a(3) 2 by (simp add: min_absorb1)
  then show ?thesis unfolding same_before_def using 2 3 by (intro exI[of _ w3]) simp
qed

lemma same_before_update: "same_before i lb (lb\<lparr>weights := (weights lb)[i := w]\<rparr>)"
  unfolding same_before_def by (rule exI[of _ "(weights lb)[i := w]"]) simp

lemma slot_convert_keeps: "same_before i lb (slot_convert e i lb)"
  unfolding slot_convert_def by (rule same_before_update)

lemma setweight_same: "lbcd_setweight k ev g lb i sv s = Some (lb', s') \<Longrightarrow> same_before i lb lb'"
  using setweight_keeps same_before_update by blast

lemma set_services_same:
  "set_services cx i svs lb s = Some (lb', s') \<Longrightarrow> same_before i lb lb'"
proof (induction svs arbitrary: i lb s)
  case (Cons sv svs)
  obtain lb1 s1 where 1: "lbcd_setweight (cx_kernel cx) (cx_env cx) (cx_globals cx) lb i sv s = Some (lb1, s1)"
    "set_services cx (i + 1) svs (slot_convert (cx_order cx) i lb1) s1 = Some (lb', s')"
    using Cons.prems by (auto split: bind_splits)
  have "same_before i lb (slot_convert (cx_order cx) i lb1)"
    using setweight_same[OF 1(1)] slot_convert_keeps same_before_trans by blast
  then show ?case using Cons.IH[OF 1(2)] by (rule same_before_trans) simp
qed simp

lemma same_before_0: "same_before i lb lb' \<Longrightarrow> same_before 0 lb lb'"
  by (auto simp: same_before_def)

text \<open>The parts of \<open>lbcd_set_load\<close>: the default service, the sentinel file, the other services.\<close>

definition with_sentinel :: "bool \<Rightarrow> lbcd_reply \<Rightarrow> lbcd_reply" where
  "with_sentinel present lb =
     (if present then lb\<lparr>weights := (weights lb)[0 := (weights lb ! 0)\<lparr>host_weight := as_u32 (-1)\<rparr>]\<rparr> else lb)"

lemma set_load_parts:
  assumes "lbcd_set_load cx lb svs s = Some (lb', s')"
  obtains lb1 s1 names where
    "lbcd_setweight (cx_kernel cx) (cx_env cx) (cx_globals cx) (lb\<lparr>pad := 0, services := of_nat (v_count svs)\<rparr>) 0 ''default'' s
      = Some (lb1, s1)"
    "set_services cx 1 names
       (slot_convert (cx_order cx) 0 (with_sentinel (fst (sys_access (cx_kernel cx) (cx_sentinel cx) F_OK s1)) lb1))
       (snd (sys_access (cx_kernel cx) (cx_sentinel cx) F_OK s1)) = Some (lb', s')"
proof -
  let ?lb = "lb\<lparr>pad := 0, services := of_nat (v_count svs)\<rparr>"
  obtain lb1 s1 where 1: "lbcd_setweight (cx_kernel cx) (cx_env cx) (cx_globals cx) ?lb 0 ''default'' s = Some (lb1, s1)"
    using assms by (cases "lbcd_setweight (cx_kernel cx) (cx_env cx) (cx_globals cx) ?lb 0 ''default'' s")
      (simp_all add: lbcd_set_load_def Let_def split_paired_all)
  obtain names where names: "vec_strings svs = Some names"
    using assms 1 by (cases "vec_strings svs") (simp_all add: lbcd_set_load_def Let_def split_beta)
  show thesis
    using assms 1 names
    by (intro that[OF 1, of names]) (auto simp: lbcd_set_load_def Let_def with_sentinel_def split_beta split: if_split_asm)
qed

lemma set_load_same:
  fixes s :: "'z sys_scheme"
  assumes "lbcd_set_load cx lb svs s = Some (lb', s')"
  shows "same_before 0 (lb\<lparr>pad := 0, services := of_nat (v_count svs)\<rparr>) lb'"
  using assms
proof (rule set_load_parts)
  fix lb1 names and s1 :: "'z sys_scheme"
  let ?lb = "lb\<lparr>pad := 0, services := of_nat (v_count svs)\<rparr>"
    and ?lb2 = "with_sentinel (fst (sys_access (cx_kernel cx) (cx_sentinel cx) F_OK s1)) lb1"
  assume 1: "lbcd_setweight (cx_kernel cx) (cx_env cx) (cx_globals cx) ?lb 0 ''default'' s = Some (lb1, s1)"
    and 3: "set_services cx 1 names (slot_convert (cx_order cx) 0 ?lb2)
      (snd (sys_access (cx_kernel cx) (cx_sentinel cx) F_OK s1)) = Some (lb', s')"
  have "same_before 0 lb1 ?lb2" using same_before_update by (simp add: with_sentinel_def)
  then have "same_before 0 ?lb (slot_convert (cx_order cx) 0 ?lb2)"
    by (rule same_before_trans[OF same_before_trans[OF setweight_same[OF 1] _ le_refl] slot_convert_keeps le_refl])
  then show ?thesis using set_services_same[OF 3] by (rule same_before_trans) simp
qed

lemma pack_info_keeps:
  assumes "lbcd_pack_info cx lb protocol svs smp s = Some (lb', s')"
  shows "reply_h lb' = reply_h lb \<and> length (weights lb') = length (weights lb) \<and> services lb' = of_nat (v_count svs)"
proof -
  obtain lb1 lb2 s1 where 1: "lbcd_set_load cx lb1 svs s1 = Some (lb2, s')"
    and lb1: "reply_h lb1 = reply_h lb" "weights lb1 = weights lb"
    and lb': "lb' = (if \<not> smp \<and> protocol < 3 then lbcd_proto2_convert (cx_order cx) lb2 else lb2)"
    using assms by (auto simp: lbcd_pack_info_def Let_def split_beta split: bind_splits option.splits)
  show ?thesis using set_load_same[OF 1] lb1 unfolding lb'
    by (auto simp: same_before_def lbcd_proto2_convert_def Let_def)
qed

section \<open>The reply that is sent\<close>

text \<open>What the answer to a datagram looks like to the client: header, length and number of services.\<close>

definition answer :: "bytes \<Rightarrow> nat \<Rightarrow> nat \<Rightarrow> bytes \<Rightarrow> bool" where
  "answer d v n bs \<longleftrightarrow>
     parse_header bs = (of_nat v, dg_id d, dg_op d, status_code LBCD_STATUS_OK)
     \<and> length bs = 36 + SERVICE_SIZE * (n + 1) \<and> bs ! 35 = char_of n"

lemma take_reply_answer:
  assumes h: "reply_h lb = \<lparr>h_version = htons e (of_nat v), h_id = htons e (dg_id d), h_op = htons e (dg_op d),
                 h_status = htons e (status_code LBCD_STATUS_OK)\<rparr>"
    and l: "length (weights lb) = LBCD_MAX_SERVICES + 1" "n \<le> LBCD_MAX_SERVICES" "services lb = of_nat n"
  shows "answer d v n (take (REPLY_SIZE - (LBCD_MAX_SERVICES - n) * SERVICE_SIZE) (reply_bytes e lb))"
proof -
  let ?sz = "REPLY_SIZE - (LBCD_MAX_SERVICES - n) * SERVICE_SIZE"
  have sz: "?sz = 36 + SERVICE_SIZE * (n + 1)"
    using l(2) by (simp add: REPLY_SIZE_def LBCD_MAX_SERVICES_def SERVICE_SIZE_def)
  define mid where "mid = mem32 e (boot_time lb) @ mem32 e (current_time lb) @ mem32 e (user_mtime lb)
     @ mem16 e (l1 lb) @ mem16 e (l5 lb) @ mem16 e (l15 lb) @ mem16 e (tot_users lb) @ mem16 e (uniq_users lb)
     @ map byte_of [on_console lb, reserved lb, tmp_full_field lb, tmpdir_full lb, pad lb]"
  define hb where "hb = wire_header (of_nat v) (dg_id d) (dg_op d) (status_code LBCD_STATUS_OK)"
  let ?ws = "concat (map (service_bytes e) (weights lb))"
  have rb: "reply_bytes e lb = (hb @ mid @ [byte_of (services lb)]) @ ?ws"
    by (simp add: reply_bytes_def h header_bytes_wire mid_def hb_def del: map_map)
  have lh: "length hb = 8" "length mid = 27"
    by (simp_all add: hb_def wire_header_def mid_def)
  have lw: "length ?ws = 48" using l(1) length_services_bytes[of e "weights lb"]
    by (simp add: LBCD_MAX_SERVICES_def SERVICE_SIZE_def del: length_concat)
  have n5: "n \<le> 5" using l(2) by (simp add: LBCD_MAX_SERVICES_def)
  have tk: "take ?sz (reply_bytes e lb) = hb @ (mid @ [byte_of (services lb)] @ take (SERVICE_SIZE * (n + 1)) ?ws)"
    unfolding sz rb by (simp add: lh)
  have b: "byte_of (services lb) = char_of n"
  proof -
    have "unat (of_nat n :: u8) = n" using n5 by (simp add: unat_of_nat take_bit_eq_mod)
    then show ?thesis unfolding byte_of_def l(3) by simp
  qed
  show ?thesis unfolding answer_def tk using lw n5 lh
    by (auto simp: hb_def parse_header_wire nth_append b SERVICE_SIZE_def simp del: length_concat)
qed

lemma request_free_of: "request_of d addr alen v names rq \<Longrightarrow> request_free (Some rq) = Some []"
  by (simp add: request_of_def request_free_def vector_free_no_leak)

lemma handle_lb_request_ok:
  assumes rq: "request_of d addr alen v names rq" and len: "length names \<le> LBCD_MAX_SERVICES"
    and h: "handle_lb_request cx config rq fd s = Some s'"
  shows "\<exists>bs. sent s' = (fd, bs, addr, alen) # sent s \<and> answer d v (length names) bs"
proof -
  let ?h = "\<lparr>h_version = htons (cx_order cx) (of_nat v), h_id = htons (cx_order cx) (dg_id d),
             h_op = htons (cx_order cx) (dg_op d), h_status = htons (cx_order cx) (status_code LBCD_STATUS_OK)\<rparr>"
  note rq = rq[unfolded request_of_def]
  have n: "v_count (req_services rq) = length names" using rq vec_count_items[of "req_services rq"] by simp
  define s0 where "s0 = (if log_requests config
      then report Notice ''request from %s (version %d)'' [MStr (req_source rq), MNum (int (req_protocol rq))] s else s)"
  have s0: "sent s0 = sent s" by (simp add: s0_def)
  let ?sz = "REPLY_SIZE - (LBCD_MAX_SERVICES - length names) * SERVICE_SIZE"
  obtain lb s1 where p: "lbcd_pack_info cx ((stale_reply cx)\<lparr>reply_h := ?h\<rparr>) v (req_services rq) (simple config) s0 = Some (lb, s1)"
    and s': "sent s' = sent (snd (sys_sendto (cx_kernel cx) fd (take ?sz (reply_bytes (cx_order cx) lb)) addr alen s1))"
    using h len rq n unfolding handle_lb_request_def Let_def s0_def[symmetric]
    by (auto simp: split_beta split: bind_splits if_splits)
  have k: "reply_h lb = ?h" "length (weights lb) = LBCD_MAX_SERVICES + 1" "services lb = of_nat (length names)"
    using pack_info_keeps[OF p] n by (simp_all add: stale_reply_def)
  show ?thesis
    using take_reply_answer[OF k(1,2) len k(3)] s' pack_info_udp[OF p] s0 by (auto simp: sendto_sent)
qed

section \<open>An answer is computed\<close>

definition waits :: "weight_function \<Rightarrow> bool" where
  "waits f \<longleftrightarrow> f = W_cmd \<or> f = W_ldap \<or> f = W_ntp"

lemma load_weight_returns: "\<exists>r. lbcd_load_weight k ev wi t p lb s = Some r"
  by (simp add: load_weight_ok split_beta Let_def)

lemma tcp_connect_returns: "\<exists>r s'. tcp_connect k ev h p q s = Some (r, s')"
  using network_connect_returns surj_pair unfolding tcp_connect_def Let_def split_beta by metis

lemma probe_tcp_returns: "\<exists>r s'. probe_tcp k ev h sv p c t s = Some (r, s')"
  using tcp_connect_returns[of k ev "case h of Some h \<Rightarrow> h | None \<Rightarrow> ''localhost''" sv p s]
  by (auto simp: probe_tcp_def Let_def split_beta)

lemma probe_imap_returns: "\<exists>r s'. probe_imap k ev h t s = Some (r, s')"
  using tcp_connect_returns[of k ev "case h of Some h \<Rightarrow> h | None \<Rightarrow> ''localhost''" "Some ''imap''" 143 s]
  by (auto simp: probe_imap_def Let_def split_beta)

lemma probe_http_returns: "\<exists>r s'. probe_http k ev h t p s = Some (r, s')"
proof -
  obtain service prt where sp: "(case p of None \<Rightarrow> (Some ''http'', 80)
       | Some p \<Rightarrow> if short_atoi p < 1 then (Some ''http'', 80) else (None, short_atoi p)) = (service, prt)"
    by fastforce
  show ?thesis
    using tcp_connect_returns[of k ev "case h of Some h \<Rightarrow> h | None \<Rightarrow> ''localhost''" service prt s]
    unfolding probe_http_def sp by (auto simp: Let_def split_beta)
qed

lemma call_weight_returns:
  assumes "\<not> waits f" shows "\<exists>r s'. call_weight k ev g f wi t p lb s = Some (r, s')"
proof -
  note pt = probe_tcp_returns[of k ev]
  show ?thesis
  proof (cases f)
    case W_load then show ?thesis using load_weight_returns[of k ev wi t p lb s] by auto
  next
    case W_ftp then show ?thesis
      using pt[of "Some ''localhost''" "Some ''ftp''" 21 "Some ''220''" t s] by (auto simp: lbcd_ftp_weight_def probe_ftp_def)
  next
    case W_smtp then show ?thesis
      using pt[of "Some ''localhost''" "Some ''smtp''" 25 "Some ''220''" t s] by (auto simp: lbcd_smtp_weight_def probe_smtp_def)
  next
    case W_nntp then show ?thesis
      using pt[of "Some ''localhost''" "Some ''nntp''" 119 "Some ''200''" t s] by (auto simp: lbcd_nntp_weight_def probe_nntp_def)
  next
    case W_pop then show ?thesis
      using pt[of "Some ''localhost''" "Some ''pop''" 110 "Some ''+OK''" t s] by (auto simp: lbcd_pop_weight_def probe_pop_def)
  next
    case W_imap then show ?thesis
      using probe_imap_returns[of k ev "Some ''localhost''" t s] by (auto simp: lbcd_imap_weight_def)
  next
    case W_http then show ?thesis
      using probe_http_returns[of k ev "Some ''localhost''" t p s] by (auto simp: lbcd_http_weight_def)
  next
    case W_tcp
    have "\<exists>r. lbcd_tcp_weight k ev wi t p lb s = Some r"
    proof (cases p)
      case (Some q)
      then show ?thesis
        using pt[of "Some ''localhost''" "if list_all c_isdigit q then None else Some q"
            "if list_all c_isdigit q then short_atoi q else 0" None t s]
        by (auto simp: lbcd_tcp_weight_def Let_def)
    qed (simp add: lbcd_tcp_weight_def)
    then show ?thesis using W_tcp by auto
  qed (use assms in \<open>auto simp: waits_def lbcd_rr_weight_def lbcd_unknown_weight_def\<close>)
qed

text \<open>The module a name leads to exists and does not wait.\<close>

definition prompt :: "('d, 'y) ctx_scheme \<Rightarrow> string \<Rightarrow> bool" where
  "prompt cx sv \<longleftrightarrow>
     (case functab_of (service_to_func (cx_env cx) (cx_globals cx) (Some sv)) of
        None \<Rightarrow> False | Some (_, f) \<Rightarrow> \<not> waits f)"

lemma setweight_returns:
  assumes "prompt cx sv" "i < length (weights lb)"
  shows "\<exists>lb' s'. lbcd_setweight (cx_kernel cx) (cx_env cx) (cx_globals cx) lb i sv s = Some (lb', s')"
proof -
  obtain n f where f: "functab_of (service_to_func (cx_env cx) (cx_globals cx) (Some sv)) = Some (n, f)" "\<not> waits f"
    using assms(1) by (auto simp: prompt_def split: option.splits)
  let ?cp = "if sv = ''default'' then n else sv"
  obtain a w j s' where "call_weight (cx_kernel cx) (cx_env cx) (cx_globals cx) f
      (host_weight (weights lb ! i), default_increment (cx_globals cx)) (lbcd_timeout (cx_globals cx))
      (map_option tl (c_strchr ?cp (CHR '':''))) lb s = Some ((a, w, j), s')"
    using call_weight_returns[OF f(2)] by (metis surj_pair)
  then show ?thesis using assms(2) f(1) unfolding lbcd_setweight_def Let_def by (cases "sv = ''default''") auto
qed

lemma same_before_length: "same_before i lb lb' \<Longrightarrow> length (weights lb') = length (weights lb)"
  by (auto simp: same_before_def)

lemma set_services_returns:
  assumes "\<forall>sv \<in> set svs. prompt cx sv" "i + length svs \<le> length (weights lb)"
  shows "\<exists>lb' s'. set_services cx i svs lb s = Some (lb', s')"
  using assms
proof (induction svs arbitrary: i lb s)
  case (Cons sv svs)
  obtain lb1 s1 where 1: "lbcd_setweight (cx_kernel cx) (cx_env cx) (cx_globals cx) lb i sv s = Some (lb1, s1)"
    using setweight_returns[of cx sv i lb s] Cons.prems by auto
  have "length (weights (slot_convert (cx_order cx) i lb1)) = length (weights lb)"
    using setweight_same[OF 1] slot_convert_keeps same_before_length by metis
  then show ?case
    using Cons.IH[of "i + 1" "slot_convert (cx_order cx) i lb1" s1] Cons.prems 1 by simp
qed simp

lemma set_load_returns:
  assumes "prompt cx ''default''" "\<forall>sv \<in> set (vec_items svs). prompt cx sv" "vec_inv svs"
    and "length (vec_items svs) < length (weights lb)"
  shows "\<exists>lb' s'. lbcd_set_load cx lb svs s = Some (lb', s')"
proof -
  let ?lb = "lb\<lparr>pad := 0, services := of_nat (v_count svs)\<rparr>"
  obtain lb1 s1 where 1: "lbcd_setweight (cx_kernel cx) (cx_env cx) (cx_globals cx) ?lb 0 ''default'' s = Some (lb1, s1)"
  proof -
    have "0 < length (weights ?lb)" using assms(4) by (cases "weights lb") simp_all
    then show ?thesis using setweight_returns[OF assms(1), of 0 ?lb s] that by blast
  qed
  define lb2 where "lb2 = (if fst (sys_access (cx_kernel cx) (cx_sentinel cx) F_OK s1)
     then lb1\<lparr>weights := (weights lb1)[0 := (weights lb1 ! 0)\<lparr>host_weight := as_u32 (-1)\<rparr>]\<rparr> else lb1)"
  have "length (weights (slot_convert (cx_order cx) 0 lb2)) = length (weights lb)"
    using setweight_same[OF 1] by (auto simp: lb2_def slot_convert_def same_before_def)
  then show ?thesis
    using set_services_returns[OF assms(2), of 1 "slot_convert (cx_order cx) 0 lb2"
        "snd (sys_access (cx_kernel cx) (cx_sentinel cx) F_OK s1)"] 1 assms(4) vec_strings_items[OF assms(3)]
    by (auto simp: lbcd_set_load_def Let_def split_beta lb2_def)
qed

lemma uniq_add_returns:
  assumes "vec_inv (snd u)" shows "\<exists>u'. uniq_add cap name u = Some u' \<and> vec_inv (snd u')"
proof -
  obtain users where v: "vector_add (snd u) name = Some users" "vec_inv users" "vec_items users = vec_items (snd u) @ [c_str name]"
    using vtab.tadd_appends[OF assms, of name] by auto
  then show ?thesis using assms vec_last_slot[OF v(2,3)] by (cases u) (auto simp: uniq_add_def)
qed

lemma utmp_loop_returns:
  "vec_inv (snd u) \<Longrightarrow> \<exists>t c u'. utmp_loop cap uts tot console u = Some (t, c, u') \<and> vec_inv (snd u')"
proof (induction uts arbitrary: tot console u)
  case (Cons ut uts)
  show ?case
  proof (cases "ut_user_process ut")
    case True
    obtain u1 where u1: "uniq_add cap (c_str (ut_user ut)) u = Some u1" "vec_inv (snd u1)"
      using uniq_add_returns[OF Cons.prems, of cap "c_str (ut_user ut)"] by blast
    show ?thesis using Cons.IH[OF u1(2)] True u1(1) xstrndup_full[of "ut_user ut"] by simp
  qed (use Cons in simp)
qed simp

lemma get_user_stats_returns: "\<exists>r s'. get_user_stats k cap s = Some (r, s')"
proof -
  have v: "vec_inv (snd uniq_start)" using uniq_start_inv(1) by (simp add: uniq_inv_def)
  have 1: "utmp_loop cap uts tot con uniq_start \<noteq> None" for uts tot con
    using utmp_loop_returns[OF v, of cap uts tot con] by auto
  have 2: "uniq_end (snd (snd (the (utmp_loop cap uts tot con uniq_start)))) \<noteq> None" for uts tot con
    using utmp_loop_returns[OF v, of cap uts tot con] vector_free_no_leak by (auto simp: uniq_end_def)
  have "get_user_stats k cap s \<noteq> None"
    unfolding get_user_stats_def Let_def split_beta by (simp add: bind_eq_None_conv 1 2 del: not_None_eq)
  then show ?thesis by auto
qed


lemma pack_info_returns:
  assumes "prompt cx ''default''" "\<forall>sv \<in> set (vec_items svs). prompt cx sv" "vec_inv svs"
    and "length (vec_items svs) < length (weights lb)"
  shows "\<exists>lb' s'. lbcd_pack_info cx lb protocol svs smp s = Some (lb', s')"
proof -
  have 1: "lbcd_set_load cx lb' svs s \<noteq> None" if "weights lb' = weights lb" for lb' s
    using set_load_returns[OF assms(1-3), of lb' s] assms(4) that by auto
  have 2: "get_user_stats k cap s \<noteq> None" for k cap s
    using get_user_stats_returns[of k cap s] by auto
  have "lbcd_pack_info cx lb protocol svs smp s \<noteq> None"
    unfolding lbcd_pack_info_def Let_def split_beta
    by (simp add: bind_eq_None_conv 1 2 del: not_None_eq split: option.split)
  then show ?thesis by auto
qed

lemma handle_lb_request_returns:
  assumes rq: "request_of d addr alen v names rq" and len: "length names \<le> LBCD_MAX_SERVICES"
    and pr: "prompt cx ''default''" "\<forall>sv \<in> set names. prompt cx sv"
  shows "\<exists>s'. handle_lb_request cx config rq fd s = Some s'"
proof -
  have q: "vec_items (req_services rq) = names" "vec_inv (req_services rq)" using rq by (simp_all add: request_of_def)
  have n: "\<not> v_count (req_services rq) > LBCD_MAX_SERVICES" using vec_count_items[OF q(2)] q(1) len by simp
  have 1: "lbcd_pack_info cx lb p (req_services rq) smp s \<noteq> None" if "weights lb = weights (stale_reply cx)" for lb p smp s
    using pack_info_returns[of cx "req_services rq" lb p smp s] pr q len that by (simp add: stale_reply_def)
  have "handle_lb_request cx config rq fd s \<noteq> None"
    unfolding handle_lb_request_def Let_def split_beta
    by (simp add: bind_eq_None_conv 1 n del: not_None_eq)
  then show ?thesis by auto
qed

section \<open>One datagram\<close>

lemma judge_accept:
  assumes "judge config d = Accept v names"
  shows "(v = 2 \<or> v = 3) \<and> v = dg_version d \<and> length names \<le> LBCD_MAX_SERVICES
    \<and> (\<forall>nm \<in> set names. name_ok config nm) \<and> (v = 2 \<longrightarrow> names = [])"
  using assms by (auto simp: judge_n dg_n_def dg_names_def split: if_split_asm)

lemma serve_one_ok:
  fixes s :: "'z ustate_scheme"
  assumes "vec_inv (allowed_services config)"
    and rcv: "sys_recvfrom (cx_kernel cx) fd LBCD_MAXMESG s = (Some (d, addr, alen), s1)" "d \<noteq> []"
    and srv: "serve_one cx config fd s = Some s'"
  shows "case judge config d of
       Ignore \<Rightarrow> sent s' = sent s
     | Reject st \<Rightarrow> sent s' = (fd, wire_header 3 (dg_id d) (dg_op d) (status_code st), addr, alen) # sent s
     | Accept v names \<Rightarrow>
         if unat (dg_op d) = LBCD_OP_LBINFO
         then \<exists>bs. sent s' = (fd, bs, addr, alen) # sent s \<and> answer d v (length names) bs
         else sent s' = (fd, wire_header 3 (dg_id d) (dg_op d) (status_code LBCD_STATUS_UNKNOWN_OP), addr, alen) # sent s"
proof -
  obtain r s2 where rr: "request_recv cx config fd s = Some (r, s2)"
    and c: "case judge config d of
       Ignore \<Rightarrow> r = None \<and> sent s2 = sent s
     | Reject st \<Rightarrow> r = None \<and> sent s2 = (fd, wire_header 3 (dg_id d) (dg_op d) (status_code st), addr, alen) # sent s
     | Accept v names \<Rightarrow> sent s2 = sent s \<and> (\<exists>rq. r = Some rq \<and> request_of d addr alen v names rq)"
    using request_recv_ok[OF assms(1) rcv] by (elim exE conjE) (rule that)
  show ?thesis
  proof (cases "judge config d")
    case Ignore
    then show ?thesis using c srv rr by (simp add: serve_one_def)
  next
    case (Reject st)
    then show ?thesis using c srv rr by (simp add: serve_one_def)
  next
    case (Accept v names)
    then obtain rq where rq: "r = Some rq" "request_of d addr alen v names rq" and s2: "sent s2 = sent s" using c by auto
    have op: "req_operation rq = unat (dg_op d)" "req_id rq = unat (dg_id d)" "req_addr rq = addr" "req_addrlen rq = alen"
      using rq(2) by (simp_all add: request_of_def)
    show ?thesis
    proof (cases "unat (dg_op d) = LBCD_OP_LBINFO")
      case True
      then have h: "handle_lb_request cx config rq fd s2 = Some s'"
        using srv rr rq op request_free_of[OF rq(2)] by (auto simp: serve_one_def split: bind_splits)
      then show ?thesis
        using handle_lb_request_ok[OF rq(2) _ h] judge_accept[OF Accept] s2 True Accept by simp
    next
      case False
      then have "s' = send_status cx rq fd LBCD_STATUS_UNKNOWN_OP
          (report Warn ''client %s: unknown op %d requested'' [MStr (req_source rq), MNum (int (req_operation rq))] s2)"
        using srv rr rq op request_free_of[OF rq(2)] by (simp add: serve_one_def)
      then show ?thesis using False Accept s2 op
        by (simp add: send_status_sent[where i = "dg_id d" and p = "dg_op d"])
    qed
  qed
qed

lemma serve_one_returns:
  fixes s :: "'z ustate_scheme"
  assumes "vec_inv (allowed_services config)"
    and rcv: "sys_recvfrom (cx_kernel cx) fd LBCD_MAXMESG s = (Some (d, addr, alen), s1)" "d \<noteq> []"
    and pr: "\<And>v names. judge config d = Accept v names \<Longrightarrow> unat (dg_op d) = LBCD_OP_LBINFO \<Longrightarrow>
      prompt cx ''default'' \<and> (\<forall>sv \<in> set names. prompt cx sv)"
  shows "\<exists>s'. serve_one cx config fd s = Some s'"
proof -
  obtain r s2 where rr: "request_recv cx config fd s = Some (r, s2)"
    and c: "case judge config d of
       Ignore \<Rightarrow> r = None \<and> sent s2 = sent s
     | Reject st \<Rightarrow> r = None \<and> sent s2 = (fd, wire_header 3 (dg_id d) (dg_op d) (status_code st), addr, alen) # sent s
     | Accept v names \<Rightarrow> sent s2 = sent s \<and> (\<exists>rq. r = Some rq \<and> request_of d addr alen v names rq)"
    using request_recv_ok[OF assms(1) rcv] by (elim exE conjE) (rule that)
  show ?thesis
  proof (cases "judge config d")
    case (Accept v names)
    then obtain rq where rq: "r = Some rq" "request_of d addr alen v names rq" using c by auto
    then have op: "req_operation rq = unat (dg_op d)" by (simp add: request_of_def)
    show ?thesis
    proof (cases "unat (dg_op d) = LBCD_OP_LBINFO")
      case True
      then obtain s3 where "handle_lb_request cx config rq fd s2 = Some s3"
        using handle_lb_request_returns[OF rq(2)] judge_accept[OF Accept] pr[OF Accept] by blast
      then show ?thesis using rr rq op request_free_of[OF rq(2)] True by (simp add: serve_one_def)
    next
      case False
      then show ?thesis using rr rq op request_free_of[OF rq(2)] by (simp add: serve_one_def)
    qed
  qed (use rr c in \<open>simp_all add: serve_one_def\<close>)
qed

end
