(* ===== verification/Contracts.thy ===== *)
theory Contracts
  imports Answers
begin

text \<open>
  What the weight modules promise. The choice of the default module is compared with the forms of
  the \<open>-w\<close> argument, and the probes of a service share the contract \<open>probe_module\<close>, from which the
  contents of a slot follow once for all of them.
\<close>

section \<open>The table of services and the default module\<close>

lemma find_Some_entry: "find (\<lambda>(n, f). n = nm) t = Some (n, f) \<Longrightarrow> n = nm \<and> (n, f) \<in> set t"
  by (auto simp: find_Some_iff in_set_conv_nth)

text \<open>Looking up anything but the default always gives an entry: that of the name, or \<open>unknown\<close>.\<close>

definition service_module :: "string \<Rightarrow> string" where
  "service_module sv = takeWhile (\<lambda>c. c \<noteq> CHR '':'') (take (NAME_SIZE - 1) sv)"

lemma unknown_entry: "find (\<lambda>(n, f). n = ''unknown'') (service_table ev) = Some (''unknown'', W_unknown)"
  by (simp add: service_table_def)

lemma service_to_func_ok:
  assumes "sv \<noteq> ''default''"
  shows "service_to_func ev g (Some sv) =
    Found (case map_of (service_table ev) (service_module sv) of
             Some f \<Rightarrow> (service_module sv, f) | None \<Rightarrow> (''unknown'', W_unknown))"
proof -
  have fm: "find (\<lambda>(n, f). n = nm) t = map_option (Pair nm) (map_of t nm)" for nm and t :: "(string \<times> weight_function) list"
    by (induction t) auto
  show ?thesis
  proof (cases "map_of (service_table ev) (service_module sv)")
    case None
    then have "find (\<lambda>(n, f). n = service_module sv) (service_table ev) = None" by (subst fm) simp
    then show ?thesis using assms None unknown_entry by (simp add: service_to_func_def Let_def service_module_def)
  next
    case (Some f)
    then have "find (\<lambda>(n, f). n = service_module sv) (service_table ev) = Some (service_module sv, f)" by (subst fm) simp
    then show ?thesis using assms Some by (simp add: service_to_func_def Let_def service_module_def)
  qed
qed

text \<open>
  A name with a port leads to the entry of the name. One of more than 31 characters is cut, but the
  names of the table are shorter, so it is not found either way.
\<close>

lemma table_names_short: "map_of (service_table ev) n = Some f \<Longrightarrow> length n < NAME_SIZE - 1"
  by (drule map_of_SomeD) (auto simp: service_table_def NAME_SIZE_def split: if_splits)

lemma service_module_name:
  assumes "sv = n \<or> (\<exists>p. sv = n @ CHR '':'' # p)" "CHR '':'' \<notin> set n"
  shows "map_of (service_table ev) (service_module sv) = map_of (service_table ev) n"
    and "map_of (service_table ev) n \<noteq> None \<longrightarrow> service_module sv = n"
proof -
  have short: "service_module sv = n" if "length n < NAME_SIZE - 1"
  proof -
    have n: "\<forall>c \<in> set n. c \<noteq> CHR '':''" using assms(2) by blast
    then have tw: "takeWhile (\<lambda>c. c \<noteq> CHR '':'') n = n" by (simp add: takeWhile_eq_all_conv)
    show ?thesis
      using assms(1)
    proof
      assume "sv = n"
      then show ?thesis using that tw by (simp add: service_module_def)
    next
      assume "\<exists>p. sv = n @ CHR '':'' # p"
      then obtain p where sv: "sv = n @ CHR '':'' # p" by blast
      define m where "m = NAME_SIZE - 2 - length n"
      have "NAME_SIZE - 1 = length n + Suc m" using that unfolding m_def by arith
      then have "take (NAME_SIZE - 1) sv = n @ CHR '':'' # take m p" by (simp add: sv)
      then show ?thesis using n by (simp add: service_module_def takeWhile_append2)
    qed
  qed
  have long: "service_module sv = take (NAME_SIZE - 1) n" if "NAME_SIZE - 1 \<le> length n"
  proof -
    have "CHR '':'' \<notin> set (take (NAME_SIZE - 1) n)" using assms(2) by (meson in_set_takeD)
    then have "takeWhile (\<lambda>c. c \<noteq> CHR '':'') (take (NAME_SIZE - 1) n) = take (NAME_SIZE - 1) n"
      by (auto simp: takeWhile_eq_all_conv)
    moreover have "take (NAME_SIZE - 1) sv = take (NAME_SIZE - 1) n" using assms(1) that by auto
    ultimately show ?thesis by (simp add: service_module_def)
  qed
  have none: "map_of (service_table ev) m = None" if "NAME_SIZE - 1 \<le> length m" for m
    using table_names_short[of ev m] that by (cases "map_of (service_table ev) m") auto
  show "map_of (service_table ev) (service_module sv) = map_of (service_table ev) n"
  proof (cases "length n < NAME_SIZE - 1")
    case False
    then have "NAME_SIZE - 1 \<le> length (service_module sv)" "NAME_SIZE - 1 \<le> length n" using long by simp_all
    then show ?thesis using none by simp
  qed (simp add: short)
  show "map_of (service_table ev) n \<noteq> None \<longrightarrow> service_module sv = n"
    using short table_names_short by auto
qed

lemma functab_of_entry:
  "sv \<noteq> ''default'' \<Longrightarrow> functab_of (service_to_func ev g (Some sv)) =
    Some (case map_of (service_table ev) (service_module sv) of
             Some f \<Rightarrow> (service_module sv, f) | None \<Rightarrow> (''unknown'', W_unknown))"
  by (simp add: service_to_func_ok functab_of_def)

text \<open>The test for \<open>weight:increment\<close>.\<close>

lemma list_split_colon:
  "count_list sv c = 1 \<longleftrightarrow> (\<exists>a b. sv = a @ c # b \<and> c \<notin> set a \<and> c \<notin> set b)"
proof
  assume n: "count_list sv c = 1"
  then have "c \<in> set sv" by (metis count_notin zero_neq_one)
  then obtain a b where s: "sv = a @ c # b" "c \<notin> set a" by (metis split_list_first)
  then have "count_list b c = 0" using n by simp
  then show "\<exists>a b. sv = a @ c # b \<and> c \<notin> set a \<and> c \<notin> set b" using s by (metis count_list_0_iff)
qed (auto simp: count_notin)

lemma is_weights_ok:
  "is_weights (Some sv) \<longleftrightarrow>
    (\<exists>a b. sv = a @ CHR '':'' # b \<and> a \<noteq> [] \<and> b \<noteq> [] \<and> list_all c_isdigit a \<and> list_all c_isdigit b)"
proof
  assume w: "is_weights (Some sv)"
  then have "count_list sv (CHR '':'') = 1" by (auto simp: is_weights_def split: if_splits)
  then obtain a b where s: "sv = a @ CHR '':'' # b" "CHR '':'' \<notin> set a" "CHR '':'' \<notin> set b"
    unfolding list_split_colon by blast
  have d: "c_isdigit (hd sv)" "c_isdigit (last sv)" "list_all (\<lambda>c. c = CHR '':'' \<or> c_isdigit c) sv"
    using w by (simp_all add: is_weights_def split: if_splits)
  then have "a \<noteq> []" "b \<noteq> []" unfolding s(1) by (auto simp: c_isdigit_def)
  moreover have "list_all c_isdigit a \<and> list_all c_isdigit b"
  proof -
    have h: "\<And>c. c \<in> set a \<union> set b \<Longrightarrow> c \<noteq> CHR '':'' \<Longrightarrow> c_isdigit c"
      using d(3) unfolding s(1) by (auto simp: list_all_iff)
    show ?thesis using s(2,3) unfolding list_all_iff by (metis h UnI1 UnI2)
  qed
  ultimately show "\<exists>a b. sv = a @ CHR '':'' # b \<and> a \<noteq> [] \<and> b \<noteq> [] \<and> list_all c_isdigit a \<and> list_all c_isdigit b"
    using s(1) by (intro exI[of _ a] exI[of _ b]) simp
next
  assume "\<exists>a b. sv = a @ CHR '':'' # b \<and> a \<noteq> [] \<and> b \<noteq> [] \<and> list_all c_isdigit a \<and> list_all c_isdigit b"
  then obtain a b where s: "sv = a @ CHR '':'' # b" "a \<noteq> []" "b \<noteq> []" "list_all c_isdigit a" "list_all c_isdigit b" by blast
  then have n: "CHR '':'' \<notin> set a" "CHR '':'' \<notin> set b" by (auto simp: list_all_iff c_isdigit_def)
  have "count_list sv (CHR '':'') = 1" unfolding list_split_colon using s(1) n by blast
  moreover have "c_isdigit (hd sv)" "c_isdigit (last sv)" using s by (auto simp: list_all_iff)
  moreover have "list_all (\<lambda>c. c = CHR '':'' \<or> c_isdigit c) sv" using s by (auto simp: list_all_iff)
  ultimately show "is_weights (Some sv)" using s(1) by (simp add: is_weights_def)
qed

lemma atoi_show_nat:
  assumes "n < 2 ^ 63" shows "as_u32 (c_atoi (show_nat n)) = of_nat n"
proof -
  have v: "fst (c_strtol (show_nat n)) = int n"
    using assms scan_int_digits[of "show_nat n" "[]"] show_nat_digits[of n] by (simp add: c_strtol_def)
  show ?thesis by (simp add: as_u32_def c_atoi_def v)
qed

definition weight_arg :: "nat \<Rightarrow> nat \<Rightarrow> string" where
  "weight_arg w i = show_nat w @ CHR '':'' # show_nat i"

lemma takeWhile_weight_arg:
  "takeWhile (\<lambda>c. c \<noteq> CHR '':'') (weight_arg w i) = show_nat w"
  "tl (dropWhile (\<lambda>c. c \<noteq> CHR '':'') (weight_arg w i)) = show_nat i"
proof -
  have "\<forall>c \<in> set (show_nat w). c \<noteq> CHR '':''" using show_nat_digits[of w] c_isdigit_sign by blast
  then show "takeWhile (\<lambda>c. c \<noteq> CHR '':'') (weight_arg w i) = show_nat w"
    "tl (dropWhile (\<lambda>c. c \<noteq> CHR '':'') (weight_arg w i)) = show_nat i"
    by (simp_all add: weight_arg_def takeWhile_append dropWhile_append)
qed

lemma is_weights_arg: "is_weights (Some (weight_arg w i))"
  unfolding is_weights_ok weight_arg_def using show_nat_digits[of w] show_nat_digits[of i]
  by (intro exI[of _ "show_nat w"] exI[of _ "show_nat i"]) (auto simp: list_all_iff)

lemma table_entries:
  "map_of (service_table ev) ''rr'' = Some W_rr" "map_of (service_table ev) ''cmd'' = Some W_cmd"
  "map_of (service_table ev) ''load'' = Some W_load" "map_of (service_table ev) ''tcp'' = Some W_tcp"
  by (simp_all add: service_table_def)

lemma weight_init_fixed:
  assumes "w < 2 ^ 63" "i < 2 ^ 63"
  shows "lbcd_weight_init ev cmd (Some (weight_arg w i)) t g =
    (0, g\<lparr>lbcd_command := cmd, lbcd_service_name := Some (show_nat w), lbcd_timeout := t,
          default_weight := of_nat w, default_increment := of_nat i, lbcd_default_functab := Some (''rr'', W_rr)\<rparr>)"
  using assms functab_of_entry[of "''rr''" ev]
  by (simp add: lbcd_weight_init_def Let_def is_weights_arg takeWhile_weight_arg atoi_show_nat
      service_module_def NAME_SIZE_def table_entries)

text \<open>The module a name leads to.\<close>

definition entry_of :: "env \<Rightarrow> string \<Rightarrow> string \<times> weight_function" where
  "entry_of ev sv = (case map_of (service_table ev) (service_module sv) of
     Some f \<Rightarrow> (service_module sv, f) | None \<Rightarrow> (''unknown'', W_unknown))"

lemma weight_init_module:
  assumes "\<not> is_weights service" "service \<noteq> Some ''default'' \<or> cmd \<noteq> None"
  shows "\<exists>g'. lbcd_weight_init ev cmd service t g = (0, g') \<and>
    lbcd_default_functab g' = Some (if cmd \<noteq> None then (''cmd'', W_cmd)
      else entry_of ev (case service of Some sv \<Rightarrow> sv | None \<Rightarrow> ''load''))"
proof (cases "cmd = None")
  case False
  then show ?thesis using assms functab_of_entry[of "''cmd''" ev]
    by (simp add: lbcd_weight_init_def Let_def service_module_def NAME_SIZE_def table_entries)
next
  case True
  then show ?thesis using assms functab_of_entry[of _ ev]
    by (cases service) (simp_all add: lbcd_weight_init_def Let_def entry_of_def)
qed

lemma weight_init_default:
  "lbcd_default_functab (snd (lbcd_weight_init ev None (Some ''default'') t zero_globals)) = None"
  by (simp add: lbcd_weight_init_def Let_def is_weights_def c_isdigit_def service_to_func_def zero_globals_def functab_of_def)


section \<open>The probes\<close>

text \<open>Calls that neither open nor close a socket.\<close>

lemma quiet_fds [simp]:
  "fds_in (snd (sys_getaddrinfo k h sv fl fa ty s)) = fds_in s"
  "fds_in (snd (sys_select_read k n fds tv s)) = fds_in s"
  "fds_in (snd (sys_read k fd m s)) = fds_in s" "fds_in (snd (sys_write k fd d s)) = fds_in s"
  "fds_in (snd (sys_access k pth md s)) = fds_in s"
  by (simp_all add: sys_defs split_beta)

lemma check_reply_ok:
  "lbcd_check_reply k ev sd t tok s = (r, s') \<Longrightarrow> (r = 0 \<or> r = -1) \<and> fds_in s' = fds_in s"
  by (auto simp: lbcd_check_reply_def Let_def split_beta split: option.splits if_splits)

lemma tcp_resolve_fds: "fds_in (snd (tcp_resolve k h p q s)) = fds_in s"
  by (simp add: tcp_resolve_def Let_def split: option.split)

lemma tcp_connect_fds:
  assumes "tcp_connect k ev h p q s = Some (sd, s')"
  shows "fds_in s' = (if sd = INVALID_SOCKET then fds_in s else add_mset sd (fds_in s))"
  using assms tcp_resolve_fds[of k h p q s]
  by (auto simp: tcp_connect_def Let_def split_beta INVALID_SOCKET_def dest!: network_connect_fds split: if_splits)

text \<open>What one probe does: it succeeds or fails, and every socket it opened is closed again.\<close>

definition probed :: "'z sys_scheme \<Rightarrow> (int \<times> 'z sys_scheme) option \<Rightarrow> bool" where
  "probed s m \<longleftrightarrow> (\<exists>r s'. m = Some (r, s') \<and> (r = 0 \<or> r = -1) \<and> fds_in s' = fds_in s \<and> sent s' = sent s)"

lemma probedI:
  "\<exists>r s'. m = Some (r, s') \<Longrightarrow>
   (\<And>r s'. m = Some (r, s') \<Longrightarrow> (r = 0 \<or> r = -1) \<and> fds_in s' = fds_in s \<and> sent s' = sent s) \<Longrightarrow> probed s m"
  unfolding probed_def by blast

lemma probe_tcp_probed: "probed s (probe_tcp k ev h sv p c t s)"
proof (rule probedI[OF probe_tcp_returns])
  fix r s' assume pr: "probe_tcp k ev h sv p c t s = Some (r, s')"
  obtain sd s1 where c1: "tcp_connect k ev (case h of Some h \<Rightarrow> h | None \<Rightarrow> ''localhost'') sv p s = Some (sd, s1)"
    using tcp_connect_returns by blast
  have "(r = 0 \<or> r = -1) \<and> fds_in s' = fds_in s"
    using pr c1 tcp_connect_fds[OF c1]
    by (cases "lbcd_check_reply k ev sd t c s1")
       (auto simp: probe_tcp_def Let_def split_beta dest: check_reply_ok split: if_splits option.splits)
  then show "(r = 0 \<or> r = -1) \<and> fds_in s' = fds_in s \<and> sent s' = sent s" using probe_tcp_udp[OF pr] by simp
qed

lemma probe_imap_probed: "probed s (probe_imap k ev h t s)"
proof (rule probedI[OF probe_imap_returns])
  fix r s' assume pr: "probe_imap k ev h t s = Some (r, s')"
  obtain sd s1 where c1: "tcp_connect k ev (case h of Some h \<Rightarrow> h | None \<Rightarrow> ''localhost'') (Some ''imap'') 143 s = Some (sd, s1)"
    using tcp_connect_returns by blast
  have "(r = 0 \<or> r = -1) \<and> fds_in s' = fds_in s"
    using pr c1 tcp_connect_fds[OF c1]
    by (cases "lbcd_check_reply k ev sd t (Some ''* OK'') s1")
       (auto simp: probe_imap_def Let_def split_beta dest: check_reply_ok split: if_splits)
  then show "(r = 0 \<or> r = -1) \<and> fds_in s' = fds_in s \<and> sent s' = sent s" using probe_imap_udp[OF pr] by simp
qed

lemma probe_http_probed: "probed s (probe_http k ev h t p s)"
proof (rule probedI[OF probe_http_returns])
  fix r s' assume pr: "probe_http k ev h t p s = Some (r, s')"
  obtain service prt where sp: "(case p of None \<Rightarrow> (Some ''http'', 80)
       | Some p \<Rightarrow> if short_atoi p < 1 then (Some ''http'', 80) else (None, short_atoi p)) = (service, prt)"
    by fastforce
  obtain sd s1 where c1: "tcp_connect k ev (case h of Some h \<Rightarrow> h | None \<Rightarrow> ''localhost'') service prt s = Some (sd, s1)"
    using tcp_connect_returns by blast
  have "(r = 0 \<or> r = -1) \<and> fds_in s' = fds_in s"
    using pr c1 tcp_connect_fds[OF c1] unfolding probe_http_def sp
    by (auto simp: Let_def split_beta split: if_splits option.splits)
  then show "(r = 0 \<or> r = -1) \<and> fds_in s' = fds_in s \<and> sent s' = sent s" using probe_http_udp[OF pr] by simp
qed

text \<open>
  The contract: the module \<open>f\<close> stores the result of a probe as the weight, leaves the increment alone
  and returns the weight.
\<close>

locale probe_module =
  fixes k :: kernel and ev :: env and f :: weight_function
    and probe :: "int \<Rightarrow> string option \<Rightarrow> 'z sys_scheme \<Rightarrow> (int \<times> 'z sys_scheme) option"
  assumes module: "call_weight k ev g f wi t p lb s =
      Option.bind (probe t p s) (\<lambda>(r, s). Some ((sint (as_u32 r), as_u32 r, snd wi), s))"
    and probe_probed: "probed s (probe t p s)"
begin

text \<open>The slot of a probed service holds zero or the largest weight, and the default increment.\<close>

lemma setweight_probe:
  fixes s :: "'z sys_scheme"
  assumes "functab_of (service_to_func ev g (Some sv)) = Some (n, f)" "i < length (weights lb)"
  shows "\<exists>w s'. lbcd_setweight k ev g lb i sv s =
      Some (lb\<lparr>weights := (weights lb)[i := \<lparr>host_weight = w, host_incr = default_increment g\<rparr>]\<rparr>, s')
    \<and> (w = 0 \<or> w = 0xffffffff) \<and> fds_in s' = fds_in s \<and> sent s' = sent s"
proof -
  let ?p = "map_option tl (c_strchr (if sv = ''default'' then n else sv) (CHR '':''))"
  obtain r s' where r: "probe (lbcd_timeout g) ?p s = Some (r, s')" "r = 0 \<or> r = -1"
    and s': "fds_in s' = fds_in s" "sent s' = sent s"
    using probe_probed[of s "lbcd_timeout g" ?p] by (auto simp: probed_def)
  have w: "as_u32 r = 0 \<or> as_u32 r = 0xffffffff" using r(2) by (auto simp: as_u32_def)
  have "lbcd_setweight k ev g lb i sv s =
      Some (lb\<lparr>weights := (weights lb)[i := \<lparr>host_weight = as_u32 r, host_incr = default_increment g\<rparr>]\<rparr>, s')"
    using assms r(1) unfolding lbcd_setweight_def Let_def by (cases "sv = ''default''") (simp_all add: module)
  then show ?thesis using w s' by blast
qed

end

interpretation ftp: probe_module k ev W_ftp "\<lambda>t p. probe_ftp k ev (Some ''localhost'') t" for k ev
  by unfold_locales (simp_all add: lbcd_ftp_weight_def probe_ftp_def probe_tcp_probed)

interpretation smtp: probe_module k ev W_smtp "\<lambda>t p. probe_smtp k ev (Some ''localhost'') t" for k ev
  by unfold_locales (simp_all add: lbcd_smtp_weight_def probe_smtp_def probe_tcp_probed)

interpretation nntp: probe_module k ev W_nntp "\<lambda>t p. probe_nntp k ev (Some ''localhost'') t" for k ev
  by unfold_locales (simp_all add: lbcd_nntp_weight_def probe_nntp_def probe_tcp_probed)

interpretation pop: probe_module k ev W_pop "\<lambda>t p. probe_pop k ev (Some ''localhost'') t" for k ev
  by unfold_locales (simp_all add: lbcd_pop_weight_def probe_pop_def probe_tcp_probed)

interpretation imap: probe_module k ev W_imap "\<lambda>t p. probe_imap k ev (Some ''localhost'') t" for k ev
  by unfold_locales (simp_all add: lbcd_imap_weight_def probe_imap_probed)

interpretation http: probe_module k ev W_http "\<lambda>t p. probe_http k ev (Some ''localhost'') t p" for k ev
  by unfold_locales (simp_all add: lbcd_http_weight_def probe_http_probed)

text \<open>The generic probe does not meet the contract: without a port it writes no weight.\<close>

lemma tcp_default_stale:
  assumes "lbcd_default_functab g = Some (''tcp'', W_tcp)" "i < length (weights lb)"
  shows "lbcd_setweight k ev g lb i ''default'' s =
    Some (lb\<lparr>weights := (weights lb)[i := (weights lb ! i)\<lparr>host_incr := default_increment g\<rparr>]\<rparr>, s)"
proof -
  have n: "c_strchr ''tcp'' (CHR '':'') = None" by simp
  show ?thesis using assms
    by (cases "weights lb ! i") (simp add: n lbcd_setweight_def Let_def service_to_func_def functab_of_def lbcd_tcp_weight_def)
qed

section \<open>The weight of the default service\<close>

lemma load_spec_fields:
  "load_spec e (lb\<lparr>weights := ws\<rparr>) = load_spec e lb" "load_spec e (lb\<lparr>pad := p, services := n\<rparr>) = load_spec e lb"
  by (simp_all add: load_spec_def tmp_used_def)

text \<open>
  A weight computed by the load module, in a slot that is in network byte order: the formula, or the
  largest weight when the kernel said that \<open>/etc/nologin\<close> or the sentinel is there, at the two moments
  at which it was asked.
\<close>

definition load_slot :: "endian \<Rightarrow> kernel \<Rightarrow> string \<Rightarrow> lbcd_reply \<Rightarrow> lbcd_service \<Rightarrow> bool" where
  "load_slot e k sentinel lb sv \<longleftrightarrow>
     (\<exists>h1 h2. let w = (if k h1 (File (CAccess ''/etc/nologin'' F_OK)) = ROk \<or> k h2 (File (CAccess sentinel F_OK)) = ROk
                       then -1 else load_spec e lb)
       in ntohl e (host_weight sv) = as_u32 w \<and> ntohl e (host_incr sv) = 200)"

lemma access_ok: "fst (sys_access k path m s) \<longleftrightarrow> k (trace s) (File (CAccess path m)) = ROk"
  by (simp add: sys_access_def perform_def Let_def)

lemma setweight_load:
  assumes "lbcd_default_functab g = Some (''load'', W_load)"
    and "lbcd_setweight k ev g lb i ''default'' s = Some (lb', s')"
  shows "\<exists>w. i < length (weights lb) \<and> lb' = lb\<lparr>weights := (weights lb)[i := \<lparr>host_weight = as_u32 w, host_incr = 200\<rparr>]\<rparr> \<and>
    w = (if fst (sys_access k ''/etc/nologin'' F_OK s) then -1 else load_spec (byte_order (pf ev)) lb)"
  using assms
  by (auto simp: lbcd_setweight_def Let_def service_to_func_def functab_of_def load_weight_ok split_beta split: if_splits)

lemma set_load_slot:
  fixes s :: "'z sys_scheme"
  assumes "lbcd_default_functab (cx_globals cx) = Some (''load'', W_load)" "lbcd_set_load cx lb svs s = Some (lb', s')"
  shows "load_slot (cx_order cx) (cx_kernel cx) (cx_sentinel cx) lb' (weights lb' ! 0) \<and> tmp_used lb' = tmp_used lb"
  using assms(2)
proof (rule set_load_parts)
  fix lb1 names and s1 :: "'z sys_scheme"
  let ?lb = "lb\<lparr>pad := 0, services := of_nat (v_count svs)\<rparr>" and ?e = "cx_order cx" and ?k = "cx_kernel cx"
  let ?present = "fst (sys_access ?k (cx_sentinel cx) F_OK s1)"
  let ?lb2 = "slot_convert ?e 0 (with_sentinel ?present lb1)"
  assume 1: "lbcd_setweight ?k (cx_env cx) (cx_globals cx) ?lb 0 ''default'' s = Some (lb1, s1)"
    and 3: "set_services cx 1 names ?lb2 (snd (sys_access ?k (cx_sentinel cx) F_OK s1)) = Some (lb', s')"
  obtain w where w: "0 < length (weights ?lb)" "lb1 = ?lb\<lparr>weights := (weights ?lb)[0 := \<lparr>host_weight = as_u32 w, host_incr = 200\<rparr>]\<rparr>"
    "w = (if fst (sys_access ?k ''/etc/nologin'' F_OK s) then -1 else load_spec ?e ?lb)"
    using setweight_load[OF assms(1) 1] by blast
  obtain ws where ws: "lb' = ?lb2\<lparr>weights := ws\<rparr>" "length ws = length (weights ?lb2)" "take 1 ws = take 1 (weights ?lb2)"
    using set_services_same[OF 3] unfolding same_before_def by blast
  have "weights lb' ! 0 = weights ?lb2 ! 0"
    using arg_cong[OF ws(3), of "\<lambda>xs. xs ! 0"] by (simp add: ws(1))
  also have "\<dots> = slot_to_network ?e \<lparr>host_weight = as_u32 (if ?present then -1 else w), host_incr = 200\<rparr>"
    using w(1) by (simp add: w(2) slot_convert_def with_sentinel_def)
  finally have slot: "weights lb' ! 0 = slot_to_network ?e \<lparr>host_weight = as_u32 (if ?present then -1 else w), host_incr = 200\<rparr>" .
  have "load_spec ?e lb' = load_spec ?e ?lb"
    by (simp add: ws(1) w(2) slot_convert_def with_sentinel_def load_spec_fields)
  then have "load_slot ?e ?k (cx_sentinel cx) lb' (weights lb' ! 0)"
    unfolding load_slot_def slot using w(3)
    by (intro exI[of _ "trace s"] exI[of _ "trace s1"]) (simp add: slot_to_network_def access_ok Let_def)
  moreover have "tmp_used lb' = tmp_used lb"
    by (simp add: ws(1) w(2) slot_convert_def with_sentinel_def tmp_used_def)
  ultimately show ?thesis by blast
qed

lemma weight_init_load:
  assumes "lbcd_weight_init ev None None t zero_globals = (0, g)"
  shows "lbcd_default_functab g = Some (''load'', W_load)"
  using weight_init_module[of None None ev t zero_globals] assms
  by (simp add: is_weights_def entry_of_def service_module_def NAME_SIZE_def table_entries)

text \<open>A percentage fits in its field.\<close>

lemma tmp_full_field_bound: "uint (word_of_int (fst (tmp_full k fpu path s)) :: u8) \<le> 100"
proof -
  have b: "0 \<le> fst (tmp_full k fpu path s) \<and> fst (tmp_full k fpu path s) \<le> 100"
    using tmp_full_bounds[of k fpu path s] by (cases "tmp_full k fpu path s") simp
  then have "fst (tmp_full k fpu path s) mod 256 = fst (tmp_full k fpu path s)" by simp
  then show ?thesis using b by (simp add: unsigned_of_int take_bit_eq_mod)
qed

lemma pack_info_load:
  assumes "lbcd_default_functab (cx_globals cx) = Some (''load'', W_load)"
    and "lbcd_pack_info cx lb protocol svs smp s = Some (lb', s')" "smp \<or> 3 \<le> protocol"
  shows "load_slot (cx_order cx) (cx_kernel cx) (cx_sentinel cx) lb' (weights lb' ! 0) \<and> tmp_used lb' \<le> 100"
proof -
  have "\<exists>lb1 s1. lbcd_set_load cx lb1 svs s1 = Some (lb', s') \<and> tmp_used lb1 \<le> 100"
    using assms(2,3)
    by (auto simp: lbcd_pack_info_def Let_def split_beta split: bind_splits option.splits)
       (intro exI conjI, assumption, simp add: tmp_used_def tmp_full_field_bound)+
  then show ?thesis using set_load_slot[OF assms(1)] by (metis (no_types))
qed

section \<open>Clients of version two\<close>

lemma proto2_convert_ok:
  "ntohs e (l1 (lbcd_proto2_convert e lb)) = of_nat (min (unat (ntohl e (host_weight (weights lb ! 0)))) 65535)"
  "tot_users (lbcd_proto2_convert e lb) = 0" "uniq_users (lbcd_proto2_convert e lb) = 0"
  "l5 (lbcd_proto2_convert e lb) = l1 (lbcd_proto2_convert e lb)"
  "l15 (lbcd_proto2_convert e lb) = l1 (lbcd_proto2_convert e lb)"
proof -
  let ?w = "ntohl e (host_weight (weights lb ! 0))"
  have "(if ?w > 0xffff then 0xffff else ucast ?w :: u16) = of_nat (min (unat ?w) 65535)"
  proof (cases "?w > 0xffff")
    case True
    then have "65535 < unat ?w" by (simp add: word_less_nat_alt)
    then show ?thesis using True by simp
  next
    case False
    then have "unat ?w \<le> 65535" by (simp add: word_less_nat_alt)
    then show ?thesis using False by (simp add: min_absorb1 unsigned_of_nat word_eq_iff_unsigned unsigned_ucast_eq take_bit_nat_eq_self)
  qed
  then show "ntohs e (l1 (lbcd_proto2_convert e lb)) = of_nat (min (unat ?w) 65535)"
    by (simp add: lbcd_proto2_convert_def Let_def)
qed (simp_all add: lbcd_proto2_convert_def Let_def)

end
