(* ===== verification/Run.thy ===== *)
theory Run
  imports Contracts
begin

text \<open>
  Runs of the server. \<open>server_step\<close> is one turn of the main loop as a relation between states: a wait that a
  signal interrupted, or a datagram served. The lemmas show that the loop makes exactly such steps,
  that each of them receives at most one datagram and sends what is due for it, and so what a whole run
  has received and sent.
\<close>

section \<open>What one turn receives\<close>

lemma recvfrom_received:
  "received_from (snd (sys_recvfrom k fd n s)) =
     (case fst (sys_recvfrom k fd n s) of Some (d, a, l) \<Rightarrow> (fd, d, a, l) # received_from s | None \<Rightarrow> received_from s)"
  by (simp add: sys_recvfrom_def split_beta udp_of_def split: ret.split)

lemma sendto_received [simp]: "received_from (snd (sys_sendto k fd d a l s)) = received_from s"
  by (simp add: sys_sendto_def split_beta)

lemma send_status_received [simp]: "received_from (send_status cx rq fd status s) = received_from s"
  by (simp add: send_status_def Let_def split_beta)

lemma client_source_received [simp]: "received_from (snd (client_source cx addr s)) = received_from s"
  by (simp add: client_source_def split: sum.split)

lemma request_check_received:
  "request_check cx config fd raw d addr l src s = Some (r, s') \<Longrightarrow> received_from s' = received_from s"
  by (auto simp: request_check_def Let_def split: if_splits bind_splits sum.splits)

lemma request_recv_received:
  assumes "request_recv cx config fd s = Some (r, s')"
  shows "received_from s' = (case fst (sys_recvfrom (cx_kernel cx) fd LBCD_MAXMESG s) of
     Some (d, a, l) \<Rightarrow> (fd, d, a, l) # received_from s | None \<Rightarrow> received_from s)"
  using assms
  by (auto simp: request_recv_def Let_def split_beta recvfrom_received dest!: request_check_received
      split: option.splits if_splits)

lemma handle_lb_request_received:
  "handle_lb_request cx config rq fd s = Some s' \<Longrightarrow> received_from s' = received_from s"
  by (auto simp: handle_lb_request_def Let_def split_beta dest!: pack_info_udp split: bind_splits if_splits)

lemma serve_one_received:
  assumes "serve_one cx config fd s = Some s'"
  shows "received_from s' = (case fst (sys_recvfrom (cx_kernel cx) fd LBCD_MAXMESG s) of
     Some (d, a, l) \<Rightarrow> (fd, d, a, l) # received_from s | None \<Rightarrow> received_from s)"
proof -
  obtain r s1 where r: "request_recv cx config fd s = Some (r, s1)"
    using assms by (auto simp: serve_one_def split: bind_splits)
  have "received_from s' = received_from s1"
    using assms r by (auto simp: serve_one_def dest!: handle_lb_request_received split: bind_splits option.splits if_splits)
  then show ?thesis using request_recv_received[OF r] by simp
qed

text \<open>Without data nothing is sent.\<close>

lemma serve_one_nothing:
  assumes "serve_one cx config fd s = Some s'"
    and "case fst (sys_recvfrom (cx_kernel cx) fd LBCD_MAXMESG s) of Some (d, a, l) \<Rightarrow> d = [] | None \<Rightarrow> True"
  shows "sent s' = sent s"
proof -
  obtain r s1 where "request_recv cx config fd s = Some (r, s1)" "r = None" "sent s1 = sent s"
    using assms recvfrom_sent[of "cx_kernel cx" fd LBCD_MAXMESG s]
    by (auto simp: serve_one_def request_recv_def Let_def split_beta split: bind_splits option.splits)
  then show ?thesis using assms(1) by (simp add: serve_one_def)
qed

section \<open>What a datagram is due\<close>

type_synonym dgram = "int \<times> bytes \<times> sockaddr \<times> nat"

text \<open>The datagrams sent for one that was received: none or one, to its sender, on the socket it came in on.\<close>

definition due :: "lbcd_config \<Rightarrow> dgram \<Rightarrow> dgram list \<Rightarrow> bool" where
  "due config g out \<longleftrightarrow>
     (case g of (fd, d, addr, alen) \<Rightarrow>
        if d = [] then out = []
        else (case judge config d of
            Ignore \<Rightarrow> out = []
          | Reject st \<Rightarrow> out = [(fd, wire_header 3 (dg_id d) (dg_op d) (status_code st), addr, alen)]
          | Accept v names \<Rightarrow>
              if unat (dg_op d) = LBCD_OP_LBINFO
              then \<exists>bs. out = [(fd, bs, addr, alen)] \<and> answer d v (length names) bs
              else out = [(fd, wire_header 3 (dg_id d) (dg_op d) (status_code LBCD_STATUS_UNKNOWN_OP), addr, alen)]))"

lemma due_one: "due config (fd, d, addr, alen) out \<Longrightarrow> out = [] \<or> (\<exists>bs. out = [(fd, bs, addr, alen)])"
  by (auto simp: due_def split: if_splits verdict.splits)

lemma serve_one_due:
  fixes s :: "'z ustate_scheme"
  assumes "vec_inv (allowed_services config)" "serve_one cx config fd s = Some s'"
  shows "(received_from s' = received_from s \<and> sent s' = sent s) \<or>
    (\<exists>d addr alen out. received_from s' = (fd, d, addr, alen) # received_from s \<and> sent s' = out @ sent s \<and>
       due config (fd, d, addr, alen) out)"
proof (cases "fst (sys_recvfrom (cx_kernel cx) fd LBCD_MAXMESG s)")
  case None
  then show ?thesis using serve_one_received[OF assms(2)] serve_one_nothing[OF assms(2)] by simp
next
  case (Some m)
  obtain d addr alen where m: "m = (d, addr, alen)" by (cases m)
  have rec: "received_from s' = (fd, d, addr, alen) # received_from s"
    using serve_one_received[OF assms(2)] Some m by simp
  show ?thesis
  proof (cases "d = []")
    case True
    then show ?thesis
      using rec serve_one_nothing[OF assms(2)] Some m by (auto simp: due_def)
  next
    case False
    have "sys_recvfrom (cx_kernel cx) fd LBCD_MAXMESG s =
        (Some (d, addr, alen), snd (sys_recvfrom (cx_kernel cx) fd LBCD_MAXMESG s))"
      using Some m by (metis prod.collapse)
    from serve_one_ok[OF assms(1) this False assms(2)]
    have "\<exists>out. sent s' = out @ sent s \<and> due config (fd, d, addr, alen) out"
      using False by (auto simp: due_def split: verdict.splits if_splits)
    then show ?thesis using rec by blast
  qed
qed

section \<open>The loop as a relation\<close>

inductive server_step ::
  "('d, 'y) ctx_scheme \<Rightarrow> lbcd_config \<Rightarrow> (history \<Rightarrow> bool) \<Rightarrow> int list \<Rightarrow> 'z ustate_scheme \<Rightarrow> 'z ustate_scheme \<Rightarrow> bool"
  for cx config signaled fds where
  interrupted: "\<lbrakk>\<not> exit_handler signaled s; network_wait_any (cx_kernel cx) fds s = (INVALID_SOCKET, s'); err s' = EINTR\<rbrakk>
    \<Longrightarrow> server_step cx config signaled fds s s'"
| served: "\<lbrakk>\<not> exit_handler signaled s; network_wait_any (cx_kernel cx) fds s = (fd, s1); fd \<noteq> INVALID_SOCKET;
      serve_one cx config fd s1 = Some s'\<rbrakk>
    \<Longrightarrow> server_step cx config signaled fds s s'"

inductive_cases server_stepE: "server_step cx config signaled fds s s'"

text \<open>How the loop ends: a signal, or a wait that fails.\<close>

inductive server_end ::
  "('d, 'y) ctx_scheme \<Rightarrow> (history \<Rightarrow> bool) \<Rightarrow> int list \<Rightarrow> 'z ustate_scheme \<Rightarrow> unit Lbcd.outcome \<times> 'z ustate_scheme \<Rightarrow> bool"
  for cx signaled fds where
  signal: "exit_handler signaled s \<Longrightarrow>
    server_end cx signaled fds s (Ret (), report Notice ''signal received, exiting'' [] s)"
| failed: "\<lbrakk>\<not> exit_handler signaled s; network_wait_any (cx_kernel cx) fds s = (INVALID_SOCKET, s'); err s' \<noteq> EINTR\<rbrakk>
    \<Longrightarrow> server_end cx signaled fds s (Exit 1, report Sysdie ''cannot wait for incoming connections'' [] s')"

lemma main_loop_steps:
  assumes "main_loop cx config signaled fds s = Some rs"
  shows "\<exists>s1. (server_step cx config signaled fds)\<^sup>*\<^sup>* s s1 \<and> server_end cx signaled fds s1 rs"
proof (rule main_loop.raw_induct[OF _ assms], goal_cases)
  case (1 f cx config signaled fds s rs)
  define w where "w = network_wait_any (cx_kernel cx) fds s"
  have w': "network_wait_any (cx_kernel cx) fds s = (fst w, snd w)" by (simp add: w_def)
  consider "exit_handler signaled s" | "\<not> exit_handler signaled s" "fst w = INVALID_SOCKET" "err (snd w) \<noteq> EINTR"
    | "\<not> exit_handler signaled s" "fst w = INVALID_SOCKET" "err (snd w) = EINTR"
    | "\<not> exit_handler signaled s" "fst w \<noteq> INVALID_SOCKET"
    by blast
  then show ?case
  proof cases
    case 1
    then show ?thesis using \<open>_ = Some rs\<close> by (auto intro: server_end.signal)
  next
    case 2
    then show ?thesis
      using \<open>_ = Some rs\<close> w' server_end.failed[OF 2(1), of cx fds "snd w"]
      by (auto simp: w_def[symmetric] Let_def)
  next
    case 3
    then have "f cx config signaled fds (snd w) = Some rs"
      using \<open>_ = Some rs\<close> by (simp add: w_def[symmetric] Let_def)
    moreover have "server_step cx config signaled fds s (snd w)"
      using server_step.interrupted[OF 3(1)] w' 3 by simp
    ultimately show ?thesis using 1(1) by (meson converse_rtranclp_into_rtranclp)
  next
    case 4
    then obtain s2 where s2: "serve_one cx config (fst w) (snd w) = Some s2" "f cx config signaled fds s2 = Some rs"
      using \<open>_ = Some rs\<close> by (auto simp: w_def[symmetric] Let_def split: bind_splits)
    then have "server_step cx config signaled fds s s2"
      using server_step.served[OF 4(1) w' 4(2)] by blast
    then show ?thesis using 1(1) s2(2) by (meson converse_rtranclp_into_rtranclp)
  qed
qed

text \<open>Steps are the turns of the loop and nothing else.\<close>

lemma server_step_loop:
  "server_step cx config signaled fds s s' \<Longrightarrow>
   main_loop cx config signaled fds s = main_loop cx config signaled fds s'"
  by (erule server_stepE; subst (1) main_loop.simps) (simp_all add: Let_def)

lemma server_steps_loop:
  "(server_step cx config signaled fds)\<^sup>*\<^sup>* s s' \<Longrightarrow>
   main_loop cx config signaled fds s = main_loop cx config signaled fds s'"
  by (induction rule: converse_rtranclp_induct) (simp_all add: server_step_loop)

lemma server_end_loop: "server_end cx signaled fds s rs \<Longrightarrow> main_loop cx config signaled fds s = Some rs"
  by (erule server_end.cases; subst main_loop.simps) (simp_all add: Let_def)

lemma main_loop_iff:
  "main_loop cx config signaled fds s = Some rs \<longleftrightarrow>
   (\<exists>s1. (server_step cx config signaled fds)\<^sup>*\<^sup>* s s1 \<and> server_end cx signaled fds s1 rs)"
proof
  assume "\<exists>s1. (server_step cx config signaled fds)\<^sup>*\<^sup>* s s1 \<and> server_end cx signaled fds s1 rs"
  then obtain s1 where "(server_step cx config signaled fds)\<^sup>*\<^sup>* s s1" "server_end cx signaled fds s1 rs" by blast
  then show "main_loop cx config signaled fds s = Some rs"
    by (induction rule: converse_rtranclp_induct) (simp_all add: server_end_loop server_step_loop)
qed (rule main_loop_steps)

section \<open>What a run receives and sends\<close>

lemma wait_any_udp [simp]: "udp (snd (network_wait_any k fds s)) = udp s"
  by (simp add: network_wait_any_def Let_def split_beta split: option.split)

lemma wait_any_member: "network_wait_any k fds s = (fd, s') \<Longrightarrow> fd \<noteq> INVALID_SOCKET \<Longrightarrow> fd \<in> set fds"
  by (auto simp: network_wait_any_def Let_def split_beta find_Some_iff split: option.splits)

definition exchanged :: "lbcd_config \<Rightarrow> int list \<Rightarrow> 'z sys_scheme \<Rightarrow> 'z sys_scheme \<Rightarrow> bool" where
  "exchanged config fds s s' \<longleftrightarrow>
     (\<exists>gs outs. received_from s' = gs @ received_from s \<and> sent s' = concat outs @ sent s \<and>
        list_all2 (due config) gs outs \<and> (\<forall>g \<in> set gs. fst g \<in> set fds))"

lemma exchanged_refl: "received_from s' = received_from s \<Longrightarrow> sent s' = sent s \<Longrightarrow> exchanged config fds s s'"
  unfolding exchanged_def by (intro exI[of _ "[]"]) simp

lemma exchanged_trans:
  "exchanged config fds s1 s2 \<Longrightarrow> exchanged config fds s2 s3 \<Longrightarrow> exchanged config fds s1 s3"
proof -
  assume "exchanged config fds s1 s2" "exchanged config fds s2 s3"
  then obtain g1 o1 g2 o2 where
    1: "received_from s2 = g1 @ received_from s1" "sent s2 = concat o1 @ sent s1" "list_all2 (due config) g1 o1"
      "\<forall>g \<in> set g1. fst g \<in> set fds"
    and 2: "received_from s3 = g2 @ received_from s2" "sent s3 = concat o2 @ sent s2" "list_all2 (due config) g2 o2"
      "\<forall>g \<in> set g2. fst g \<in> set fds"
    unfolding exchanged_def by blast
  then show ?thesis unfolding exchanged_def
    by (intro exI[of _ "g2 @ g1"] exI[of _ "o2 @ o1"]) (auto intro: list_all2_appendI)
qed

lemma server_step_exchanged:
  assumes "vec_inv (allowed_services config)" "server_step cx config signaled fds s s'"
  shows "exchanged config fds s s'"
  using assms(2)
proof cases
  case interrupted
  then have "udp s' = udp s" using wait_any_udp[of "cx_kernel cx" fds s] by simp
  then show ?thesis by (simp add: exchanged_refl)
next
  case (served fd s1)
  then have u: "udp s1 = udp s" and fd: "fd \<in> set fds"
    using wait_any_udp[of "cx_kernel cx" fds s] wait_any_member by fastforce+
  from serve_one_due[OF assms(1) served(4)] show ?thesis
  proof (elim disjE exE conjE)
    assume "received_from s' = received_from s1" "sent s' = sent s1"
    then show ?thesis using u by (simp add: exchanged_refl)
  next
    fix d addr alen out
    assume "received_from s' = (fd, d, addr, alen) # received_from s1" "sent s' = out @ sent s1"
      "due config (fd, d, addr, alen) out"
    then show ?thesis unfolding exchanged_def
      using u fd by (intro exI[of _ "[(fd, d, addr, alen)]"] exI[of _ "[out]"]) simp
  qed
qed

lemma server_steps_exchanged:
  assumes "vec_inv (allowed_services config)" "(server_step cx config signaled fds)\<^sup>*\<^sup>* s s'"
  shows "exchanged config fds s s'"
  using assms(2)
  by (induction rule: rtranclp_induct)
    (auto intro: exchanged_refl exchanged_trans server_step_exchanged[OF assms(1)])

lemma server_end_udp: "server_end cx signaled fds s (r, s') \<Longrightarrow> udp s' = udp s"
proof (erule server_end.cases, goal_cases)
  case (2 s1 s2)
  then show ?case using wait_any_udp[of "cx_kernel cx" fds s1] by simp
qed simp

lemma due_length: "list_all2 (due config) gs outs \<Longrightarrow> length (concat outs) \<le> length gs"
proof (induction rule: list_all2_induct)
  case (Cons g gs out outs)
  then have "length out \<le> 1" by (cases g) (auto dest!: due_one)
  then show ?case using Cons by simp
qed simp

text \<open>Everything sent goes to where a datagram came from.\<close>

lemma due_target:
  "list_all2 (due config) gs outs \<Longrightarrow> (fd, bs, addr, alen) \<in> set (concat outs) \<Longrightarrow> \<exists>d. (fd, d, addr, alen) \<in> set gs"
proof (induction rule: list_all2_induct)
  case (Cons g gs out outs)
  obtain gfd gd ga gl where g: "g = (gfd, gd, ga, gl)" by (cases g)
  have "out = [] \<or> (\<exists>bs. out = [(gfd, bs, ga, gl)])"
    using Cons.hyps(1) unfolding g by (rule due_one)
  then show ?case using Cons.IH Cons.prems g by auto
qed simp

section \<open>Progress\<close>

lemma serve_one_no_data:
  assumes "case fst (sys_recvfrom (cx_kernel cx) fd LBCD_MAXMESG s) of Some (d, a, l) \<Rightarrow> d = [] | None \<Rightarrow> True"
  shows "\<exists>s'. serve_one cx config fd s = Some s'"
  using assms by (auto simp: serve_one_def request_recv_def Let_def split_beta split: option.splits)

text \<open>No module that the server may be asked for waits for a child or for a time server.\<close>

definition all_prompt :: "('d, 'y) ctx_scheme \<Rightarrow> lbcd_config \<Rightarrow> bool" where
  "all_prompt cx config \<longleftrightarrow>
     prompt cx ''default'' \<and> (\<forall>sv \<in> set (vec_items (allowed_services config)). prompt cx sv)"

lemma name_prompt: "all_prompt cx config \<Longrightarrow> name_ok config sv \<Longrightarrow> prompt cx sv"
  by (cases "sv = ''default''") (simp_all add: all_prompt_def name_ok_def)

lemma accepted_prompt:
  assumes "all_prompt cx config" "judge config d = Accept v names"
  shows "prompt cx ''default'' \<and> (\<forall>sv \<in> set names. prompt cx sv)"
proof -
  have "\<forall>sv \<in> set names. name_ok config sv" using judge_accept[OF assms(2)] by simp
  moreover have "prompt cx ''default''" using assms(1) by (simp add: all_prompt_def)
  ultimately show ?thesis using name_prompt[OF assms(1)] by simp
qed

lemma serve_one_total:
  fixes s :: "'z ustate_scheme"
  assumes "vec_inv (allowed_services config)" "all_prompt cx config"
  shows "\<exists>s'. serve_one cx config fd s = Some s'"
proof (cases "case fst (sys_recvfrom (cx_kernel cx) fd LBCD_MAXMESG s) of Some (d, a, l) \<Rightarrow> d = [] | None \<Rightarrow> True")
  case True
  then show ?thesis by (rule serve_one_no_data)
next
  case False
  then obtain d addr alen where
    "sys_recvfrom (cx_kernel cx) fd LBCD_MAXMESG s = (Some (d, addr, alen), snd (sys_recvfrom (cx_kernel cx) fd LBCD_MAXMESG s))"
    "d \<noteq> []"
    by (cases "sys_recvfrom (cx_kernel cx) fd LBCD_MAXMESG s") (auto split: option.splits)
  from serve_one_returns[OF assms(1) this] accepted_prompt[OF assms(2)] show ?thesis by blast
qed

text \<open>Every state is an end or has a successor.\<close>

lemma server_progress:
  fixes s :: "'z ustate_scheme"
  assumes "vec_inv (allowed_services config)" "all_prompt cx config"
  shows "(\<exists>rs. server_end cx signaled fds s rs) \<or> (\<exists>s'. server_step cx config signaled fds s s')"
proof -
  obtain fd s1 where w: "network_wait_any (cx_kernel cx) fds s = (fd, s1)" by fastforce
  consider "exit_handler signaled s" | "\<not> exit_handler signaled s" "fd = INVALID_SOCKET" "err s1 = EINTR"
    | "\<not> exit_handler signaled s" "fd = INVALID_SOCKET" "err s1 \<noteq> EINTR"
    | "\<not> exit_handler signaled s" "fd \<noteq> INVALID_SOCKET"
    by blast
  then show ?thesis
    using w serve_one_total[OF assms, of fd s1]
    by cases (meson server_end.intros server_step.intros)+
qed

text \<open>A machine on which a datagram is always waiting: the wait finds a socket, and reading it gives data.\<close>

definition always_ready :: "kernel \<Rightarrow> int list \<Rightarrow> bool" where
  "always_ready k fds \<longleftrightarrow>
     (\<forall>h. \<exists>ready. k h (Io (CSelectRead (max_fd fds + 1) fds None)) = RFds ready \<and> (\<exists>fd \<in> set fds. fd \<in> set ready)) \<and>
     (\<forall>h. \<forall>fd \<in> set fds. \<exists>d a l. k h (Io (CRecvfrom fd LBCD_MAXMESG)) = RFrom d a l)"

lemma always_ready_wait:
  assumes "always_ready k fds" "INVALID_SOCKET \<notin> set fds"
  shows "fst (network_wait_any k fds s) \<in> set fds"
proof -
  obtain ready where r: "k (trace s) (Io (CSelectRead (max_fd fds + 1) fds None)) = RFds ready" "\<exists>fd \<in> set fds. fd \<in> set ready"
    using assms(1) unfolding always_ready_def by blast
  then obtain fd where "find (\<lambda>fd. fd \<in> set ready) fds = Some fd" by (fastforce simp: find_None_iff)
  moreover from this have "fd \<in> set fds" by (auto simp: find_Some_iff)
  ultimately show ?thesis using r(1) by (simp add: network_wait_any_ok)
qed

lemma always_ready_step:
  fixes s :: "'z ustate_scheme"
  assumes "vec_inv (allowed_services config)" "all_prompt cx config" "always_ready (cx_kernel cx) fds"
    and "INVALID_SOCKET \<notin> set fds" "\<not> exit_handler signaled s"
  shows "\<exists>s'. server_step cx config signaled fds s s' \<and> length (received_from s') = Suc (length (received_from s))"
proof -
  obtain fd s1 where w: "network_wait_any (cx_kernel cx) fds s = (fd, s1)" by fastforce
  have fd: "fd \<in> set fds" using always_ready_wait[OF assms(3,4), of s] w by simp
  obtain s' where s': "serve_one cx config fd s1 = Some s'" using serve_one_total[OF assms(1,2)] by blast
  obtain d a l where "cx_kernel cx (trace s1) (Io (CRecvfrom fd LBCD_MAXMESG)) = RFrom d a l"
    using assms(3) fd unfolding always_ready_def by blast
  then have "\<exists>m. fst (sys_recvfrom (cx_kernel cx) fd LBCD_MAXMESG s1) = Some m"
    by (simp add: sys_recvfrom_def split_beta)
  then have "length (received_from s') = Suc (length (received_from s1))"
    using serve_one_received[OF s'] by auto
  moreover have "udp s1 = udp s" using wait_any_udp[of "cx_kernel cx" fds s] w by simp
  moreover have "server_step cx config signaled fds s s'"
    using server_step.served[OF assms(5) w _ s'] fd assms(4) by auto
  ultimately show ?thesis by auto
qed

lemma always_ready_steps:
  fixes s :: "'z ustate_scheme"
  assumes "vec_inv (allowed_services config)" "all_prompt cx config" "always_ready (cx_kernel cx) fds"
    and "INVALID_SOCKET \<notin> set fds" "\<And>h. signaled h \<Longrightarrow> n + length (received_from s) \<le> length (gets (traffic h))"
  shows "\<exists>s'. (server_step cx config signaled fds)\<^sup>*\<^sup>* s s' \<and> length (received_from s') = n + length (received_from s)"
  using assms(5)
proof (induction n arbitrary: s)
  case (Suc n)
  have "\<not> exit_handler signaled s" using Suc.prems[of "trace s"] by (auto simp: exit_handler_def)
  then obtain s1 where 1: "server_step cx config signaled fds s s1" "length (received_from s1) = Suc (length (received_from s))"
    using always_ready_step[OF assms(1-4)] by blast
  then obtain s' where "(server_step cx config signaled fds)\<^sup>*\<^sup>* s1 s'"
    "length (received_from s') = n + length (received_from s1)"
    using Suc.IH[of s1] Suc.prems by auto
  then show ?case using 1 by (auto intro: converse_rtranclp_into_rtranclp)
qed auto

end
