(* ===== verification/Program.thy ===== *)
theory Program
  imports Run
begin

text \<open>
  The whole server, from the command line to the exit status: the options decide which services are allowed, and
  whatever \<open>main\<close> does before and after the main loop sends nothing.
\<close>

section \<open>The options\<close>

text \<open>The services a command line allows: the arguments of the options \<open>-a\<close> and \<open>-w\<close>, in order.\<close>

definition requested_services :: "(char \<times> string) list \<Rightarrow> string list" where
  "requested_services parsed =
     map (\<lambda>p. c_str (snd p)) (filter (\<lambda>p. fst p = CHR ''a'' \<or> fst p = CHR ''w'') parsed)"

abbreviation services_of :: "options \<Rightarrow> string vec" where
  "services_of opts \<equiv> allowed_services (op_config opts)"

lemma vector_add_inv:
  "vector_add v x = Some v' \<Longrightarrow> vec_inv v \<Longrightarrow> vec_inv v' \<and> vec_items v' = vec_items v @ [c_str x]"
  using vector_add_ok[of v x] by auto

lemma parse_option_effect:
  assumes "parse_option k c arg opts s = Some (r, s')" "vec_inv (services_of opts)"
  shows "udp s' = udp s"
    and "case r of Exit n \<Rightarrow> n = 0 \<or> n = 1
       | Ret opts' \<Rightarrow> vec_inv (services_of opts') \<and>
           vec_items (services_of opts') = vec_items (services_of opts) @ requested_services [(c, arg)]"
  using assms
  by (auto simp: parse_option_def Let_def split_beta usage_def requested_services_def dest!: vector_add_inv
      split: if_splits bind_splits)

lemma parse_options_effect:
  assumes "parse_options k parsed opts s = Some (r, s')" "vec_inv (services_of opts)"
  shows "udp s' = udp s \<and> (case r of Exit n \<Rightarrow> n = 0 \<or> n = 1
     | Ret opts' \<Rightarrow> vec_inv (services_of opts') \<and>
         vec_items (services_of opts') = vec_items (services_of opts) @ requested_services parsed)"
  using assms
proof (induction parsed arbitrary: opts s)
  case Nil
  then show ?case by (auto simp: requested_services_def)
next
  case (Cons p parsed)
  obtain c arg where p: "p = (c, arg)" by (cases p)
  obtain r1 s1 where 1: "parse_option k c arg opts s = Some (r1, s1)"
    using Cons.prems(1) by (auto simp: p split: bind_splits)
  note eff = parse_option_effect[OF 1 Cons.prems(2)]
  show ?case
  proof (cases r1)
    case (Exit n)
    then show ?thesis using Cons.prems(1) 1 eff by (auto simp: p)
  next
    case (Ret opts1)
    then have "parse_options k parsed opts1 s1 = Some (r, s')" "vec_inv (services_of opts1)"
      using Cons.prems(1) 1 eff by (auto simp: p)
    from Cons.IH[OF this] show ?thesis
      using eff Ret by (auto simp: p requested_services_def split: outcome.splits)
  qed
qed

text \<open>Only the services matter for what a datagram is due.\<close>

lemma judge_services:
  "vec_items (allowed_services c1) = vec_items (allowed_services c2) \<Longrightarrow> judge c1 = judge c2"
  by (auto simp: judge_def name_ok_def Let_def fun_eq_iff)

lemma due_services:
  "vec_items (allowed_services c1) = vec_items (allowed_services c2) \<Longrightarrow> due c1 = due c2"
  by (simp add: due_def judge_services[of c1 c2] fun_eq_iff)

section \<open>Before and after the loop\<close>

lemma sys_number_udp [simp]: "udp (snd (sys_number k c s)) = udp s"
  by (auto simp: sys_number_def Let_def split_beta)

lemma flags_udp [simp]:
  "udp (snd (fdflag_close_exec k fd b s)) = udp s"
  by (auto simp: fdflag_close_exec_def sys_getflags_def sys_setflags_def Let_def split_beta)

lemma socket_options_udp [simp]:
  "udp (network_set_reuseaddr k fd s) = udp s" "udp (network_set_v6only k fd s) = udp s"
  "udp (network_set_freebind k fd s) = udp s"
  by (auto simp: network_set_reuseaddr_def network_set_v6only_def network_set_freebind_def sys_setsockopt_def
      Let_def split_beta)

lemma bind_udp [simp]:
  "udp (snd (network_bind_ipv4 k p ty a prt s)) = udp s" "udp (snd (network_bind_ipv6 k p ty a prt s)) = udp s"
  by (auto simp: network_bind_ipv4_def network_bind_ipv6_def Let_def split_beta split: option.splits)

lemma bind_all_loop_udp: "udp (snd (bind_all_loop k p ty prt ais nm fds s)) = udp s"
  by (induction ais arbitrary: nm fds s) (simp_all add: Let_def split_beta split: sum.split)

lemma network_bind_all_udp: "network_bind_all k p junk ty prt s = Some (r, s') \<Longrightarrow> udp s' = udp s"
  by (auto simp: network_bind_all_def bind_all_loop_udp Let_def split_beta split: if_splits)

lemma bind_addresses_udp: "udp (snd (bind_addresses cx prt addrs fds s)) = udp s"
  by (induction addrs arbitrary: fds s) (simp_all add: Let_def split_beta)

lemma bind_addresses_exit: "fst (bind_addresses cx prt addrs fds s) = Exit n \<Longrightarrow> n = 1"
  by (induction addrs arbitrary: fds s) (simp_all add: Let_def split_beta split: if_splits)

lemma bind_addresses_result:
  "bind_addresses cx prt addrs fds s = (r, s') \<Longrightarrow> udp s' = udp s \<and> (\<forall>n. r = Exit n \<longrightarrow> n = 1)"
  using bind_addresses_udp[of cx prt addrs fds s] bind_addresses_exit[of cx prt addrs fds s] by auto

lemma bind_sockets_udp:
  assumes "bind_sockets cx config s = Some (r, s')"
  shows "udp s' = udp s" "r = Exit n \<Longrightarrow> n = 1"
  using assms
  by (auto simp: bind_sockets_def Let_def split_beta dest!: network_bind_all_udp bind_addresses_result
      split: if_splits bind_splits)

lemma sigaction_udp [simp]: "udp (sigaction_warn k sig ig w s) = udp s"
  by (auto simp: sigaction_warn_def Let_def split_beta)

lemma pid_file_udp [simp]: "udp (write_pid_file k path s) = udp s"
  by (auto simp: write_pid_file_def Let_def split_beta split: option.split)

lemma unlink_udp [simp]: "udp (snd (perform k (File (CUnlink f)) s)) = udp s"
  by simp

lemma close_all_udp [simp]: "udp (foldl (\<lambda>s fd. sys_close k fd s) s fds) = udp s"
  by (induction fds arbitrary: s) simp_all

section \<open>The program\<close>

lemma main_loop_exchanged:
  assumes "vec_inv (allowed_services config)" "main_loop cx config signaled fds s = Some (r, s')"
  shows "exchanged config fds s s'" "case r of Exit n \<Rightarrow> n = 1 | Ret _ \<Rightarrow> True"
proof -
  obtain s1 where s1: "(server_step cx config signaled fds)\<^sup>*\<^sup>* s s1" "server_end cx signaled fds s1 (r, s')"
    using main_loop_steps[OF assms(2)] by blast
  show "exchanged config fds s s'"
    using server_steps_exchanged[OF assms(1) s1(1)] server_end_udp[OF s1(2)] by (simp add: exchanged_def)
  show "case r of Exit n \<Rightarrow> n = 1 | Ret _ \<Rightarrow> True" using s1(2) by cases auto
qed

lemma exchanged_udp: "udp s1 = udp s2 \<Longrightarrow> udp s1' = udp s2' \<Longrightarrow> exchanged config fds s1 s1' = exchanged config fds s2 s2'"
  by (simp add: exchanged_def)

text \<open>What comes before the binding, and between it and the loop.\<close>

abbreviation with_handlers :: "kernel \<Rightarrow> 'z sys_scheme \<Rightarrow> 'z sys_scheme" where
  "with_handlers k s \<equiv> sigaction_warn k SIGTERM False ''cannot set SIGTERM handler''
     (sigaction_warn k SIGINT False ''cannot set SIGINT handler'' (sigaction_warn k SIGHUP True ''cannot set SIGHUP handler'' s))"

definition announced :: "kernel \<Rightarrow> lbcd_config \<Rightarrow> 'z sys_scheme \<Rightarrow> 'z sys_scheme" where
  "announced k config s =
     (let s = report Notice ''ready to accept requests'' [] (write_pid_file k (pid_file config) s);
          (status, s) = sys_number k (CSdNotify ''READY=1'') s;
          s = (if status < 0 then report Warn ''cannot notify systemd of startup: %s'' [MNum (- status)] s else s)
      in if upstart config
         then (let (r, s) = sys_number k (CRaise SIGSTOP) s
               in if r < 0 then report Syswarn ''cannot notify upstart of startup'' [] s else s)
         else s)"

lemma announced_udp [simp]: "udp (announced k config s) = udp s"
  by (simp add: announced_def Let_def split_beta)

lemma handle_requests_bound:
  assumes "bind_sockets cx config (with_handlers (cx_kernel cx) s) = Some (Ret fds, s1)"
  shows "handle_requests cx config signaled s =
    Option.bind (main_loop cx config signaled fds (announced (cx_kernel cx) config s1)) (\<lambda>(r, s).
       case r of Exit n \<Rightarrow> Some (Exit n, s)
       | Ret _ \<Rightarrow>
           (let s = (case pid_file config of None \<Rightarrow> s | Some file \<Rightarrow> snd (perform (cx_kernel cx) (File (CUnlink file)) s))
            in Some (Ret (), foldl (\<lambda>s fd. sys_close (cx_kernel cx) fd s) s fds)))"
  using assms by (simp add: handle_requests_def announced_def Let_def split_beta)

lemma handle_requests_exchanged:
  assumes "vec_inv (allowed_services config)" "handle_requests cx config signaled s = Some (r, s')"
  shows "\<exists>fds. exchanged config fds s s'" "case r of Exit n \<Rightarrow> n = 1 | Ret _ \<Rightarrow> True"
proof -
  let ?k = "cx_kernel cx"
  obtain b s1 where b: "bind_sockets cx config (with_handlers ?k s) = Some (b, s1)"
    using assms(2) by (auto simp: handle_requests_def Let_def split: bind_splits)
  have u: "udp s1 = udp s" and bx: "case b of Exit n \<Rightarrow> n = 1 | Ret _ \<Rightarrow> True"
    using bind_sockets_udp[OF b] by (simp_all split: outcome.split)
  have "(\<exists>fds. exchanged config fds s s') \<and> (case r of Exit n \<Rightarrow> n = 1 | Ret _ \<Rightarrow> True)"
  proof (cases b)
    case (Exit n)
    then show ?thesis using assms(2) b u bx
      by (auto simp: handle_requests_def Let_def intro!: exchanged_refl)
  next
    case (Ret fds)
    let ?s2 = "announced ?k config s1"
    obtain r3 s3 where 3: "main_loop cx config signaled fds ?s2 = Some (r3, s3)"
      and r: "udp s' = udp s3" "(case r3 of Exit n \<Rightarrow> r = Exit n | Ret _ \<Rightarrow> r = Ret ())"
      using assms(2) unfolding handle_requests_bound[OF b[unfolded Ret]]
      by (auto split: bind_splits outcome.splits option.splits)
    have "exchanged config fds s s'"
      using main_loop_exchanged(1)[OF assms(1) 3] exchanged_udp[of ?s2 s s3 s'] u r(1) by simp
    then show ?thesis using main_loop_exchanged(2)[OF assms(1) 3] r(2) by (auto split: outcome.splits)
  qed
  then show "\<exists>fds. exchanged config fds s s'" "case r of Exit n \<Rightarrow> n = 1 | Ret _ \<Rightarrow> True" by simp_all
qed

text \<open>Sockets that the service manager has bound are taken as they are.\<close>

lemma bind_sockets_given:
  assumes "fst (sys_number (cx_kernel cx) CSdListen s) = int n" "0 < n"
  shows "bind_sockets cx config s = Some (Ret (map (\<lambda>i. SD_LISTEN_FDS_START + int i) [0..<n]), snd (sys_number (cx_kernel cx) CSdListen s))"
  using assms by (simp add: bind_sockets_def split_beta)

lemma lbcd_test_udp: "lbcd_test cx argv s = Some (r, s') \<Longrightarrow> udp s' = udp s"
  by (auto simp: lbcd_test_def Let_def dest!: pack_info_udp split: bind_splits)

lemma default_services: "vec_inv (services_of default_options) \<and> vec_items (services_of default_options) = []"
  by (simp add: default_options_def vector_new_vec_of)

lemma exchanged_services:
  "vec_items (allowed_services c1) = vec_items (allowed_services c2) \<Longrightarrow> exchanged c1 fds s s' = exchanged c2 fds s s'"
  by (simp add: exchanged_def due_services[of c1 c2])

lemma long_option_exit: "long_option a = Exit n \<Longrightarrow> n = 0 \<or> n = 1"
  by (auto simp: long_option_def usage_def version_def split: option.splits list.splits if_splits)

text \<open>What \<open>main\<close> does once the options are known.\<close>

lemma main_exchanged:
  assumes "main cx first parsed rest signaled s = Some ((status, lines), s')"
    and "vec_items (allowed_services config) = requested_services parsed"
  shows "(\<exists>fds. exchanged config fds s s') \<and> (status = 0 \<or> status = 1)"
proof (cases "long_option first")
  case (Exit n)
  then show ?thesis using assms(1) long_option_exit[OF Exit] by (auto simp: main_def intro!: exchanged_refl)
next
  case (Ret _)
  obtain r s1 where 1: "parse_options (cx_kernel cx) parsed default_options s = Some (r, s1)"
    using assms(1) Ret by (auto simp: main_def split: bind_splits)
  note eff = parse_options_effect[OF 1 conjunct1[OF default_services]]
  show ?thesis
  proof (cases r)
    case (Exit n)
    then show ?thesis using assms(1) \<open>long_option first = Ret _\<close> 1 eff by (auto simp: main_def intro!: exchanged_refl)
  next
    case (Ret opts)
    let ?w = "lbcd_weight_init (cx_env cx) (op_helper opts) (op_weight opts) (op_timeout opts) zero_globals"
    let ?cx = "cx\<lparr>cx_globals := snd ?w\<rparr>"
    let ?d = "if op_foreground opts then (0, s1) else sys_number (cx_kernel cx) CDaemon s1"
    have sv: "vec_inv (services_of opts)" "vec_items (services_of opts) = vec_items (allowed_services config)"
      and u: "udp s1 = udp s"
      using eff Ret default_services assms(2) by auto
    have d: "udp (snd ?d) = udp s" using u by simp
    consider "udp s' = udp s" "status = 0 \<or> status = 1"
      | r2 s2 where "handle_requests ?cx (op_config opts) signaled (snd ?d) = Some (r2, s2)" "udp s' = udp s2"
          "case r2 of Exit n \<Rightarrow> status = n | Ret _ \<Rightarrow> status = 0"
      using assms(1) \<open>long_option first = Ret _\<close> 1 Ret u
      by (auto simp: main_def Let_def split_beta dest!: lbcd_test_udp split: bind_splits if_splits outcome.splits)
    then show ?thesis
    proof cases
      case 1
      then show ?thesis by (auto intro!: exchanged_refl)
    next
      case 2
      obtain fds where "exchanged (op_config opts) fds (snd ?d) s2"
        using handle_requests_exchanged(1)[OF sv(1) 2(1)] by blast
      then have "exchanged (op_config opts) fds s s'"
        using exchanged_udp[OF d 2(2)[symmetric]] by simp
      then have "exchanged config fds s s'" by (simp only: exchanged_services[OF sv(2)])
      then show ?thesis using handle_requests_exchanged(2)[OF sv(1) 2(1)] 2(3) by (auto split: outcome.splits)
    qed
  qed
qed

text \<open>A server in the foreground that a signal ends.\<close>

lemma main_foreground:
  assumes "parse_options (cx_kernel cx) parsed default_options s = Some (Ret opts, s1)" "op_foreground opts" "\<not> op_testmode opts"
    and "lbcd_weight_init (cx_env cx) (op_helper opts) (op_weight opts) (op_timeout opts) zero_globals = (0, g)"
    and "handle_requests (cx\<lparr>cx_globals := g\<rparr>) (op_config opts) signaled s1 = Some (Ret (), s')"
    and "vec_inv (bindaddrs (op_config opts))" "vec_inv (services_of opts)"
  shows "main cx None parsed rest signaled s = Some ((0, []), s')"
  using assms by (simp add: main_def long_option_def vector_free_no_leak)

end
