(* ===== verification/NetAddr.thy ===== *)
theory NetAddr
  imports Network
begin

text \<open>
  \<open>util/network.c\<close>, the functions on addresses: equality up to IPv4 mapping, the port, and matching
  under a mask. The specification of matching compares the leading bits of the two addresses.
\<close>

definition network_sockaddr_equal :: "platform \<Rightarrow> sockaddr \<Rightarrow> sockaddr \<Rightarrow> bool" where
  "network_sockaddr_equal pf a b =
     (let (a, b) = (if have_inet6 pf \<and> sa_family a = AF_INET \<and> sa_family b = AF_INET6 then (b, a) else (a, b))
      in if have_inet6 pf \<and> sa_family a = AF_INET6 then
           (if sa_family b = AF_INET6 then sin6_addr a = sin6_addr b
            else if sa_family b \<noteq> AF_INET then False
            else if \<not> is_v4mapped (sin6_addr a) then False
            else load32 (byte_order pf) (drop 12 (sin6_addr a)) = sin_addr b)
         else if sa_family a \<noteq> AF_INET \<or> sa_family b \<noteq> AF_INET then False
         else sin_addr a = sin_addr b)"

definition network_sockaddr_port :: "platform \<Rightarrow> sockaddr \<Rightarrow> u16" where
  "network_sockaddr_port pf sa =
     (if have_inet6 pf \<and> sa_family sa = AF_INET6 then htons (byte_order pf) (sin6_port sa)
      else if sa_family sa \<noteq> AF_INET then 0
      else htons (byte_order pf) (sin_port sa))"

text \<open>The loop that sets the leading bits of a mask of \<open>width\<close> bits.\<close>

definition leading_bits :: "nat \<Rightarrow> nat \<Rightarrow> 'l::len word" where
  "leading_bits width n = foldl (\<lambda>bits i. bits OR push_bit (width - 1 - i) 1) 0 [0..<n]"

fun match6_loop :: "bytes \<Rightarrow> bytes \<Rightarrow> nat \<Rightarrow> nat \<Rightarrow> bool" where
  "match6_loop [] _ cidr i = True"
| "match6_loop (x # xs) [] cidr i = True"
| "match6_loop (x # xs) (y # ys) cidr i =
     (if i * 8 < cidr then
        (if (i + 1) * 8 \<le> cidr then (if x \<noteq> y then False else match6_loop xs ys cidr (i + 1))
         else (let addr_mask = (leading_bits 8 (cidr mod 8) :: u8)
               in if (of_nat (of_char x) AND addr_mask) \<noteq> (of_nat (of_char y) AND addr_mask) then False
                  else match6_loop xs ys cidr (i + 1)))
      else True)"

text \<open>
  For IPv4 \<open>bits\<close> is an \<open>unsigned long\<close> of which \<open>htonl\<close> keeps the low 32 bits. A mask of a mask
  string: with a period an address, without one a prefix length.
\<close>

definition cidr_mask4 :: "platform \<Rightarrow> string option \<Rightarrow> u32 option" where
  "cidr_mask4 pf msk =
     (case msk of None \<Rightarrow> Some (htonl (byte_order pf) 0xffffffff)
      | Some m \<Rightarrow>
          if c_strchr m (CHR ''.'') = None then
            (let (cidr, rest) = c_strtoul m
             in if cidr > 32 \<or> rest \<noteq> [] then None
                else Some (htonl (byte_order pf) (leading_bits 32 cidr)))
          else aton pf m)"

definition cidr_len6 :: "string option \<Rightarrow> nat option" where
  "cidr_len6 msk =
     (case msk of None \<Rightarrow> Some 128
      | Some m \<Rightarrow> (let (cidr, rest) = c_strtoul m in if cidr > 128 \<or> rest \<noteq> [] then None else Some cidr))"

definition network_addr_match :: "platform \<Rightarrow> string \<Rightarrow> string \<Rightarrow> string option \<Rightarrow> bool" where
  "network_addr_match pf a b msk =
     (if a = [] \<or> b = [] then False
      else case (aton pf a, aton pf b) of
        (Some a4, Some b4) \<Rightarrow>
          (case cidr_mask4 pf msk of None \<Rightarrow> False
           | Some addr_mask \<Rightarrow> (a4 AND addr_mask) = (b4 AND addr_mask))
      | _ \<Rightarrow>
          if have_inet6 pf then
            (case (inet_pton6 pf a, inet_pton6 pf b) of
               (Some a6, Some b6) \<Rightarrow>
                 (case cidr_len6 msk of None \<Rightarrow> False | Some cidr \<Rightarrow> match6_loop a6 b6 cidr 0)
             | _ \<Rightarrow> False)
          else False)"

section \<open>Equality\<close>

text \<open>The address a socket address stands for: a mapped IPv6 address stands for the IPv4 address.\<close>

datatype who = IP4 u32 | IP6 bytes

fun who_of :: "platform \<Rightarrow> sockaddr \<Rightarrow> who option" where
  "who_of pf (SIn a p) = Some (IP4 a)"
| "who_of pf (SIn6 a p) =
     (if \<not> have_inet6 pf then None
      else if is_v4mapped a then Some (IP4 (load32 (byte_order pf) (drop 12 a))) else Some (IP6 a))"
| "who_of pf (SOther f) = None"

fun sockaddr_wf :: "sockaddr \<Rightarrow> bool" where
  "sockaddr_wf (SIn6 a p) \<longleftrightarrow> length a = 16"
| "sockaddr_wf _ \<longleftrightarrow> True"

lemma load32_inj:
  assumes "length x = 4" "length y = 4" "load32 e x = load32 e y"
  shows "x = y"
proof -
  obtain a b c d where x: "x = [a, b, c, d]"
    using assms(1) by (auto simp: numeral_eq_Suc length_Suc_conv)
  obtain a' b' c' d' where y: "y = [a', b', c', d']"
    using assms(2) by (auto simp: numeral_eq_Suc length_Suc_conv)
  show ?thesis
  proof (cases e)
    case Big
    then have "be32 (de32 x) = be32 (de32 y)" using assms(3) by simp
    then show ?thesis unfolding x y by simp
  next
    case Little
    then have "be32 (de32 (rev x)) = be32 (de32 (rev y))" using assms(3) unfolding x y by simp
    then show ?thesis unfolding x y by simp
  qed
qed

lemma v4mapped_eq:
  assumes "is_v4mapped a" "is_v4mapped b" "length a = 16" "length b = 16"
    "load32 e (drop 12 a) = load32 e (drop 12 b)"
  shows "a = b"
proof -
  have "drop 12 a = drop 12 b" by (rule load32_inj[OF _ _ assms(5)]) (use assms(3,4) in auto)
  moreover have "take 12 a = take 12 b" using assms(1,2) by (simp add: is_v4mapped_def)
  ultimately show ?thesis by (metis append_take_drop_id)
qed

lemma network_sockaddr_equal_ok:
  assumes "sockaddr_wf a" "sockaddr_wf b"
  shows "network_sockaddr_equal pf a b \<longleftrightarrow> who_of pf a \<noteq> None \<and> who_of pf a = who_of pf b"
  using assms v4mapped_eq
  by (cases a; cases b) (auto simp: network_sockaddr_equal_def Let_def)

section \<open>Matching\<close>

lemma leading_bits_bit:
  "n \<le> w \<Longrightarrow> w \<le> LENGTH('l) \<Longrightarrow> bit (leading_bits w n :: 'l::len word) i \<longleftrightarrow> i < w \<and> w - n \<le> i"
proof (induction n)
  case 0
  then show ?case by (auto simp: leading_bits_def)
next
  case (Suc n)
  then show ?case
    by (auto simp: leading_bits_def bit_or_iff bit_push_bit_iff bit_1_iff bit_exp_iff)
qed

text \<open>Swapping the bytes of a word permutes its bits, so it commutes with masking.\<close>

lemma bit_cat2: "b < 256 \<Longrightarrow> bit (cat2 a b) i \<longleftrightarrow> (if i < 8 then bit b i else bit a (i - 8))"
proof -
  assume b: "b < 256"
  have t: "take_bit 8 (cat2 a b) = b" using b by (simp add: take_bit_eq_mod cat2_def)
  have d: "drop_bit 8 (cat2 a b) = a" using b by (simp add: drop_bit_eq_div cat2_def)
  show ?thesis
  proof (cases "i < 8")
    case True
    then show ?thesis using t by (metis bit_take_bit_iff)
  next
    case False
    then have "bit (drop_bit 8 (cat2 a b)) (i - 8) = bit (cat2 a b) i" by (simp add: bit_drop_bit_eq)
    then show ?thesis using d False by simp
  qed
qed

lemma bit_byte_mod: "bit (n mod 256 :: nat) i \<longleftrightarrow> i < 8 \<and> bit n i"
  using bit_take_bit_iff[of 8 n i] by (simp add: take_bit_eq_mod)

lemma bit_byte_div: "bit (n div 256 :: nat) i \<longleftrightarrow> bit n (8 + i)"
  using bit_drop_bit_eq[of 8 n] by (simp add: drop_bit_eq_div)

lemma swap32_bytes:
  "unat (htonl Little w) = cat2 (cat2 (cat2 (unat w mod 256) (unat w div 256 mod 256))
     (unat w div 256 div 256 mod 256)) (unat w div 256 div 256 div 256)"
  "unat w div 256 div 256 div 256 < 256"
proof -
  show top: "unat w div 256 div 256 div 256 < 256"
    using unat_u32_less[of w] by (simp add: less_mult_imp_div_less)
  then show "unat (htonl Little w) = cat2 (cat2 (cat2 (unat w mod 256) (unat w div 256 mod 256))
     (unat w div 256 div 256 mod 256)) (unat w div 256 div 256 div 256)"
    by (simp add: be32_def unat_de32 cat4_def del: div_mult2_eq)
qed

lemma bit_swap32:
  "bit (htonl Little w) i \<longleftrightarrow> i < 32 \<and> bit w (i mod 8 + 8 * (3 - i div 8))"
proof (cases "i < 32")
  case False
  then show ?thesis by (auto dest: bit_imp_le_length)
next
  case True
  have w: "bit v j = bit (unat v) j" if "j < 32" for v :: u32 and j
    using that by (simp add: bit_unsigned_iff)
  have eq: "bit (htonl Little w) i \<longleftrightarrow> bit (cat2 (cat2 (cat2 (unat w mod 256) (unat w div 256 mod 256))
     (unat w div 256 div 256 mod 256)) (unat w div 256 div 256 div 256)) i"
    using w[OF True] swap32_bytes(1)[of w] by (simp only:)
  have lt: "i mod 8 + 8 * (3 - i div 8) < 32" by auto
  obtain q r where i: "i = 8 * q + r" "r < 8" "i div 8 = q" "i mod 8 = r"
    by (metis mult_div_mod_eq mod_less_divisor zero_less_numeral)
  have "bit (cat2 (cat2 (cat2 (unat w mod 256) (unat w div 256 mod 256)) (unat w div 256 div 256 mod 256))
      (unat w div 256 div 256 div 256)) (8 * q + r) = bit (unat w) (r + 8 * (3 - q))"
    if "q = 0 \<or> q = 1 \<or> q = 2 \<or> q = 3"
    using that i(2)
    by (elim disjE) (simp_all add: bit_cat2 swap32_bytes(2) bit_byte_div bit_byte_mod add.commute del: div_mult2_eq)
  moreover have "q = 0 \<or> q = 1 \<or> q = 2 \<or> q = 3" using True i(1) by linarith
  ultimately show ?thesis using True w[OF lt] unfolding eq i(3,4) by (simp only: i(1)[symmetric]) simp
qed

lemma htonl_and: "htonl e (a AND b) = htonl e a AND htonl e b"
  by (cases e) (auto intro!: bit_word_eqI simp: bit_swap32 bit_and_iff simp del: htonl.simps(2))

lemma bit_u32_less: "bit (v :: u32) m \<Longrightarrow> m < 32"
  using bit_imp_le_length[of v m] by simp

lemma masked_eq:
  assumes "n \<le> 32"
  shows "(a AND htonl e (leading_bits 32 n)) = (b AND htonl e (leading_bits 32 n)) \<longleftrightarrow>
    drop_bit (32 - n) (ntohl e a) = drop_bit (32 - n) (ntohl e b)"
proof -
  have "(a AND htonl e (leading_bits 32 n)) = htonl e (ntohl e a AND leading_bits 32 n)" for a
    by (simp add: htonl_and)
  then have "(a AND htonl e (leading_bits 32 n)) = (b AND htonl e (leading_bits 32 n)) \<longleftrightarrow>
    (ntohl e a AND leading_bits 32 n) = (ntohl e b AND leading_bits 32 n)" by simp
  also have "\<dots> \<longleftrightarrow> (\<forall>i < 32. 32 - n \<le> i \<longrightarrow> bit (ntohl e a) i = bit (ntohl e b) i)"
    using assms by (auto simp: bit_eq_iff bit_and_iff leading_bits_bit)
  also have "\<dots> \<longleftrightarrow> drop_bit (32 - n) (ntohl e a) = drop_bit (32 - n) (ntohl e b)"
  proof
    assume "\<forall>i < 32. 32 - n \<le> i \<longrightarrow> bit (ntohl e a) i = bit (ntohl e b) i"
    then show "drop_bit (32 - n) (ntohl e a) = drop_bit (32 - n) (ntohl e b)"
      by (intro bit_word_eqI) (simp add: bit_drop_bit_eq, metis bit_u32_less le_add1)
  next
    assume *: "drop_bit (32 - n) (ntohl e a) = drop_bit (32 - n) (ntohl e b)"
    show "\<forall>i < 32. 32 - n \<le> i \<longrightarrow> bit (ntohl e a) i = bit (ntohl e b) i"
    proof (intro allI impI)
      fix i :: nat assume "32 - n \<le> i"
      then have "bit (ntohl e x) i = bit (drop_bit (32 - n) (ntohl e x)) (i - (32 - n))" for x
        by (simp add: bit_drop_bit_eq)
      then show "bit (ntohl e a) i = bit (ntohl e b) i" using * by simp
    qed
  qed
  finally show ?thesis .
qed

lemma strtoul_show_nat: "n < 2 ^ 64 \<Longrightarrow> c_strtoul (show_nat n) = (n, [])"
  using scan_int_digits[of "show_nat n" "[]"] show_nat_digits[of n] by (simp add: c_strtoul_def)

lemma cidr_mask4_prefix: "n \<le> 32 \<Longrightarrow> cidr_mask4 pf (Some (show_nat n)) = Some (htonl (byte_order pf) (leading_bits 32 n))"
  by (simp add: cidr_mask4_def show_nat_no_dot strtoul_show_nat)

lemma addr_match4_ok:
  assumes "aton pf a = Some x" "aton pf b = Some y" "a \<noteq> []" "b \<noteq> []" "n \<le> 32"
  shows "network_addr_match pf a b (Some (show_nat n)) \<longleftrightarrow>
    drop_bit (32 - n) (ntohl (byte_order pf) x) = drop_bit (32 - n) (ntohl (byte_order pf) y)"
  using assms by (simp add: network_addr_match_def cidr_mask4_prefix masked_eq)

text \<open>The bits of a byte string, the most significant bit of each byte first.\<close>

definition byte_bits :: "byte \<Rightarrow> bool list" where
  "byte_bits c = map (\<lambda>i. bit (of_char c :: nat) (7 - i)) [0..<8]"

definition addr_bits :: "bytes \<Rightarrow> bool list" where
  "addr_bits bs = concat (map byte_bits bs)"

lemma take_byte_bits:
  "r \<le> 8 \<Longrightarrow> take r (byte_bits x) = take r (byte_bits y) \<longleftrightarrow>
   (\<forall>i < 8. 8 - r \<le> i \<longrightarrow> bit (of_char x :: nat) i = bit (of_char y :: nat) i)"
proof -
  assume r: "r \<le> 8"
  have "take r (byte_bits c) = map (\<lambda>i. bit (of_char c :: nat) (7 - i)) [0..<r]" for c
    using r by (simp add: byte_bits_def take_map min_def)
  then have "take r (byte_bits x) = take r (byte_bits y) \<longleftrightarrow>
    (\<forall>j < r. bit (of_char x :: nat) (7 - j) = bit (of_char y :: nat) (7 - j))" by auto
  also have "\<dots> \<longleftrightarrow> (\<forall>i < 8. 8 - r \<le> i \<longrightarrow> bit (of_char x :: nat) i = bit (of_char y :: nat) i)"
  proof
    assume *: "\<forall>j < r. bit (of_char x :: nat) (7 - j) = bit (of_char y :: nat) (7 - j)"
    show "\<forall>i < 8. 8 - r \<le> i \<longrightarrow> bit (of_char x :: nat) i = bit (of_char y :: nat) i"
    proof (intro allI impI)
      fix i :: nat assume "i < 8" "8 - r \<le> i"
      then have "7 - i < r" "7 - (7 - i) = i" using r by auto
      then show "bit (of_char x :: nat) i = bit (of_char y :: nat) i" using * by metis
    qed
  next
    assume *: "\<forall>i < 8. 8 - r \<le> i \<longrightarrow> bit (of_char x :: nat) i = bit (of_char y :: nat) i"
    show "\<forall>j < r. bit (of_char x :: nat) (7 - j) = bit (of_char y :: nat) (7 - j)"
      using * r by auto
  qed
  finally show ?thesis .
qed

lemma bit_of_char: "bit (of_char c :: nat) i \<Longrightarrow> i < 8"
proof -
  have "take_bit 8 (of_char c :: nat) = of_char c"
    using nat_of_char_less_256[of c] by (simp add: take_bit_nat_eq_self)
  then show "bit (of_char c :: nat) i \<Longrightarrow> i < 8" by (metis bit_take_bit_iff)
qed

lemma byte_bits_eq: "byte_bits x = byte_bits y \<longleftrightarrow> x = y"
proof
  assume "byte_bits x = byte_bits y"
  then have "take 8 (byte_bits x) = take 8 (byte_bits y)" by simp
  then have "\<forall>i < 8. bit (of_char x :: nat) i = bit (of_char y :: nat) i" using take_byte_bits[of 8] by simp
  then have "(of_char x :: nat) = of_char y" by (intro bit_eqI) (use bit_of_char in blast)
  then show "x = y" by simp
qed simp

lemma length_byte_bits [simp]: "length (byte_bits x) = 8"
  by (simp add: byte_bits_def)

lemma bit_byte_word: "bit (of_nat (of_char x) :: u8) i \<longleftrightarrow> i < 8 \<and> bit (of_char x :: nat) i"
proof -
  have "unat (of_nat (of_char x) :: u8) = of_char x"
    using nat_of_char_less_256[of x] by (simp only: unat_of_nat) simp
  moreover have "bit (of_nat (of_char x) :: u8) i \<longleftrightarrow> i < 8 \<and> bit (unat (of_nat (of_char x) :: u8)) i"
    using bit_imp_le_length[of "of_nat (of_char x) :: u8" i] by (auto simp: bit_unsigned_iff)
  ultimately show ?thesis by simp
qed

lemma masked_byte_eq:
  "r \<le> 8 \<Longrightarrow> (of_nat (of_char x) AND leading_bits 8 r :: u8) = (of_nat (of_char y) AND leading_bits 8 r)
    \<longleftrightarrow> take r (byte_bits x) = take r (byte_bits y)"
  unfolding take_byte_bits
  by (auto simp: bit_eq_iff bit_and_iff leading_bits_bit bit_byte_word)

lemma match6_loop_ok:
  "length xs = length ys \<Longrightarrow>
   match6_loop xs ys cidr i \<longleftrightarrow> take (cidr - 8 * i) (addr_bits xs) = take (cidr - 8 * i) (addr_bits ys)"
proof (induction xs ys cidr i rule: match6_loop.induct)
  case (3 x xs y ys cidr i)
  show ?case
  proof (cases "(i + 1) * 8 \<le> cidr")
    case True
    define r where "r = cidr - 8 * (i + 1)"
    have e: "cidr - 8 * i = 8 + r" using True by (simp add: r_def)
    have "take (8 + r) (addr_bits (x # xs)) = take (8 + r) (addr_bits (y # ys)) \<longleftrightarrow>
      x = y \<and> take r (addr_bits xs) = take r (addr_bits ys)"
      by (auto simp: addr_bits_def byte_bits_eq)
    moreover have "match6_loop xs ys cidr (i + 1) \<longleftrightarrow> take r (addr_bits xs) = take r (addr_bits ys)" if "x = y"
      using 3(1) 3(3) True that by (simp add: r_def)
    ultimately show ?thesis using True unfolding e by auto
  next
    case False
    show ?thesis
    proof (cases "i * 8 < cidr")
      case True
      then obtain r where r0: "cidr = 8 * i + r" "0 < r" by (metis less_imp_add_positive mult.commute)
      then have "r < 8" using False by simp
      then have r: "cidr mod 8 = cidr - 8 * i" "cidr - 8 * i \<le> 8" using r0 by simp_all
      have "match6_loop xs ys cidr (i + 1)" using False by (cases xs; cases ys) auto
      then show ?thesis using True False r(2) by (simp add: Let_def r(1) masked_byte_eq addr_bits_def)
    next
      case False
      then show ?thesis by simp
    qed
  qed
qed auto

lemma addr_match6_ok:
  assumes "aton pf a = None \<or> aton pf b = None" "have_inet6 pf" "a \<noteq> []" "b \<noteq> []"
    and "inet_pton6 pf a = Some x" "inet_pton6 pf b = Some y" "length x = length y" "n \<le> 128"
  shows "network_addr_match pf a b (Some (show_nat n)) \<longleftrightarrow> take n (addr_bits x) = take n (addr_bits y)"
  using assms
  by (auto simp: network_addr_match_def cidr_len6_def strtoul_show_nat match6_loop_ok split: option.splits)

end
