(* ===== verification/Fmt.thy ===== *)
theory Fmt
  imports Strl "HOL-Library.Monad_Syntax"
begin

text \<open>
  The output side of \<open>portable/snprintf.c\<close>: \<open>dopr_outch\<close>, which stores one character if there is
  room for it, and the formatting of strings and integers, \<open>fmtstr\<close> and \<open>fmtint\<close>. The pointer
  \<open>buffer\<close> and the counter \<open>currlen\<close> are the record \<open>out\<close>; a null pointer is \<open>None\<close>, and a write
  through it or past the end of the buffer is the result \<open>None\<close>. Every routine returns the number
  of characters it formatted, stored or not. An \<open>int\<close> is 32 bits and a \<open>long long\<close> 64 bits wide.

  The lemmas reduce every routine to \<open>emit\<close> of a text: \<open>fmtstr\<close> pads a prefix of the string, and
  \<open>fmtint\<close> prints what C99 asks for in all cases but those of \<open>c99_plain\<close>.
\<close>

type_synonym u64 = "64 word"

section \<open>Storing characters\<close>

record out =
  o_buf :: "bytes option"
  o_cur :: nat

definition dopr_outch :: "nat \<Rightarrow> byte \<Rightarrow> out \<Rightarrow> (int \<times> out) option" where
  "dopr_outch maxlen c w =
     (if o_cur w + 1 < maxlen
      then (case o_buf w of None \<Rightarrow> None
            | Some b \<Rightarrow> (case mem_write b (o_cur w) [c] of None \<Rightarrow> None
                         | Some b' \<Rightarrow> Some (1, w\<lparr>o_buf := Some b', o_cur := o_cur w + 1\<rparr>)))
      else Some (1, w))"

text \<open>
  The statement \<open>total += dopr_outch (buffer, currlen, maxlen, c)\<close> for one character after another: the
  body of every loop that puts out characters, as that over the digits in \<open>fmtint\<close>.
\<close>

fun emit :: "nat \<Rightarrow> string \<Rightarrow> int \<times> out \<Rightarrow> (int \<times> out) option" where
  "emit maxlen [] tw = Some tw"
| "emit maxlen (c # cs) (tot, w) = do {
     (n, w) \<leftarrow> dopr_outch maxlen c w;
     emit maxlen cs (tot + n, w) }"

text \<open>The loop \<open>while (n > 0) { total += dopr_outch (c); --n; }\<close>.\<close>

definition pad :: "nat \<Rightarrow> byte \<Rightarrow> int \<Rightarrow> int \<times> out \<Rightarrow> (int \<times> out) option" where
  "pad maxlen c n tw = emit maxlen (replicate (nat n) c) tw"

section \<open>Flags and conversions between integer types\<close>

datatype pflag = DP_F_MINUS | DP_F_PLUS | DP_F_SPACE | DP_F_NUM | DP_F_ZERO | DP_F_UP
  | DP_F_UNSIGNED | DP_F_FP_G

text \<open>The value of an unsigned or wider expression after the assignment to an \<open>int\<close>.\<close>

definition as_int :: "int \<Rightarrow> int" where
  "as_int x = sint (word_of_int x :: u32)"

abbreviation INT_MAX :: int where
  "INT_MAX \<equiv> 2147483647"

abbreviation INT_MIN :: int where
  "INT_MIN \<equiv> - 2147483648"

section \<open>fmtstr\<close>

text \<open>
  The value is the memory the pointer leads to, or \<open>None\<close> for a null pointer. With a precision the
  length is the bounded scan of \<open>strndup\<close>, without one it is \<open>strlen\<close>. The second loop walks over
  the same memory again; reading past its end is \<open>None\<close>, and so is an overflow of \<open>min - strln\<close>.
\<close>

fun fmtstr_walk :: "nat \<Rightarrow> int \<Rightarrow> int \<Rightarrow> bytes \<Rightarrow> int \<times> out \<Rightarrow> (int \<times> out) option" where
  "fmtstr_walk maxlen mx cnt [] tw = None"
| "fmtstr_walk maxlen mx cnt (c # mem) (tot, w) =
     (if c \<noteq> NUL \<and> (mx < 0 \<or> cnt < mx)
      then do {
        (n, w) \<leftarrow> dopr_outch maxlen c w;
        fmtstr_walk maxlen mx (cnt + 1) mem (tot + n, w) }
      else Some (tot, w))"

definition fmtstr :: "nat \<Rightarrow> bytes option \<Rightarrow> pflag set \<Rightarrow> int \<Rightarrow> int \<Rightarrow> out \<Rightarrow> (int \<times> out) option" where
  "fmtstr maxlen value flags mn mx w = do {
     let mem = (case value of None \<Rightarrow> ''(null)'' @ [NUL] | Some m \<Rightarrow> m);
     len \<leftarrow> (if mx < 0 then c_strlen mem else strndup_scan mem (nat mx));
     let strln = as_int (int len);
     if mn - strln < INT_MIN \<or> mn - strln > INT_MAX then None else do {
       let padlen = (if mn - strln < 0 then 0 else mn - strln);
       let padlen = (if DP_F_MINUS \<in> flags then - padlen else padlen);
       tw \<leftarrow> pad maxlen (CHR '' '') padlen (0, w);
       tw \<leftarrow> fmtstr_walk maxlen mx 0 mem tw;
       pad maxlen (CHR '' '') (- padlen) tw
     } }"

section \<open>fmtint\<close>

definition CONVERT_SIZE :: nat where
  "CONVERT_SIZE = 24"

text \<open>The loop that fills \<open>convert\<close>, with the digits in reverse; the last argument is the part filled.\<close>

function convert_digits :: "string \<Rightarrow> nat \<Rightarrow> nat \<Rightarrow> string \<Rightarrow> string" where
  "convert_digits digits base uvalue convert =
     (let convert = convert @ [digits ! (uvalue mod base)];
          uvalue = uvalue div base
      in if uvalue \<noteq> 0 \<and> length convert < CONVERT_SIZE
         then convert_digits digits base uvalue convert else convert)"
  by pat_completeness auto
termination
  by (relation "measure (\<lambda>(_, _, _, convert). CONVERT_SIZE - length convert)") auto

declare convert_digits.simps [simp del]

definition hex_digits :: "pflag set \<Rightarrow> string" where
  "hex_digits flags = (if DP_F_UP \<in> flags then ''0123456789ABCDEF'' else ''0123456789abcdef'')"

definition signvalue :: "bool \<Rightarrow> pflag set \<Rightarrow> byte option" where
  "signvalue negative flags =
     (if negative then Some (CHR ''-'')
      else if DP_F_PLUS \<in> flags then Some (CHR ''+'')
      else if DP_F_SPACE \<in> flags then Some (CHR '' '') else None)"

text \<open>
  The negation of the least \<open>long long\<close> overflows, which is \<open>None\<close>. The differences that give
  \<open>zpadlen\<close> and \<open>spadlen\<close> are computed in \<open>unsigned int\<close> and then assigned to an \<open>int\<close>.
\<close>

definition fmtint ::
  "nat \<Rightarrow> u64 \<Rightarrow> nat \<Rightarrow> int \<Rightarrow> int \<Rightarrow> pflag set \<Rightarrow> out \<Rightarrow> (int \<times> out) option" where
  "fmtint maxlen value base mn mx flags w =
     (let mx = (if mx < 0 then 0 else mx);
          is_signed = DP_F_UNSIGNED \<notin> flags;
          sign = (if is_signed then signvalue (sint value < 0) flags else None);
          uvalue = (if is_signed \<and> sint value < 0 then nat (- sint value) else unat value);
          convert = convert_digits (hex_digits flags) base uvalue [];
          place = (if length convert = CONVERT_SIZE then length convert - 1 else length convert);
          zpadlen = as_int (mx - int place);
          spadlen = as_int (mn - (if mx \<ge> int place then mx else int place)
                            - (if sign \<noteq> None then 1 else 0));
          zpadlen = (if zpadlen < 0 then 0 else zpadlen);
          spadlen = (if spadlen < 0 then 0 else spadlen);
          zpadlen = (if DP_F_ZERO \<in> flags then (if zpadlen \<ge> spadlen then zpadlen else spadlen) else zpadlen);
          spadlen = (if DP_F_ZERO \<in> flags then 0 else spadlen);
          spadlen = (if DP_F_MINUS \<in> flags then - spadlen else spadlen)
      in if is_signed \<and> sint value = - (2 ^ 63) then None
         else do {
           tw \<leftarrow> pad maxlen (CHR '' '') spadlen (0, w);
           tw \<leftarrow> emit maxlen (case sign of None \<Rightarrow> [] | Some c \<Rightarrow> [c]) tw;
           tw \<leftarrow> pad maxlen (CHR ''0'') zpadlen tw;
           tw \<leftarrow> emit maxlen (rev (take place convert)) tw;
           pad maxlen (CHR '' '') (- spadlen) tw
         })"

section \<open>What storing does\<close>

lemma emit_append: "emit m (a @ b) tw = Option.bind (emit m a tw) (emit m b)"
  by (induction m a tw rule: emit.induct) (auto split: Option.bind_splits)

text \<open>
  A buffer fits its length argument: there is a buffer of at least \<open>maxlen\<close> bytes, or a null pointer
  and nothing may be stored.
\<close>

definition out_fits :: "nat \<Rightarrow> out \<Rightarrow> bool" where
  "out_fits maxlen w =
     (case o_buf w of None \<Rightarrow> maxlen \<le> 1 | Some b \<Rightarrow> maxlen \<le> length b \<and> o_cur w \<le> maxlen - 1)"

definition room :: "nat \<Rightarrow> out \<Rightarrow> nat" where
  "room maxlen w = maxlen - 1 - o_cur w"

definition put :: "nat \<Rightarrow> string \<Rightarrow> out \<Rightarrow> out" where
  "put maxlen cs w =
     (case o_buf w of None \<Rightarrow> w
      | Some b \<Rightarrow> (let cs = take (room maxlen w) cs
                   in w\<lparr>o_buf := Some (take (o_cur w) b @ cs @ drop (o_cur w + length cs) b),
                        o_cur := o_cur w + length cs\<rparr>))"

lemma put_Nil [simp]: "put m [] w = w"
  by (cases w) (auto simp: put_def split: option.splits)

lemma outch_put: "out_fits m w \<Longrightarrow> dopr_outch m c w = Some (1, put m [c] w)"
  by (cases w)
    (auto simp: dopr_outch_def out_fits_def put_def room_def mem_write_def Let_def take_Cons' split: option.splits)

lemma put_fits: "out_fits m w \<Longrightarrow> out_fits m (put m cs w)"
  by (auto simp: out_fits_def put_def room_def Let_def split: option.splits)

lemma put_Cons: "out_fits m w \<Longrightarrow> put m cs (put m [c] w) = put m (c # cs) w"
proof -
  have "Suc (m - 2) = m - Suc 0" if "\<not> m \<le> Suc (o_cur w)" using that by simp
  then show "out_fits m w \<Longrightarrow> put m cs (put m [c] w) = put m (c # cs) w"
    by (cases w) (auto simp: put_def room_def out_fits_def Let_def take_Cons' min_def add.commute
        split: option.splits)
qed

lemma emit_put: "out_fits m w \<Longrightarrow> emit m cs (t, w) = Some (t + int (length cs), put m cs w)"
  by (induction cs arbitrary: t w) (simp_all add: outch_put put_fits put_Cons)

lemma emit_ret: "emit m [] tw = Some tw"
  by simp

lemma emit_shift:
  "out_fits m w \<Longrightarrow> emit m cs (t, w) = map_option (\<lambda>(n, w). (t + n, w)) (emit m cs (0, w))"
  by (simp add: emit_put)

text \<open>A first store that makes a text out of two.\<close>

lemma put_put: "out_fits m w \<Longrightarrow> put m b (put m a w) = put m (a @ b) w"
proof (induction a arbitrary: w)
  case (Cons c a)
  then have "put m b (put m a (put m [c] w)) = put m (a @ b) (put m [c] w)"
    by (simp add: put_fits)
  with Cons.prems show ?case by (simp add: put_Cons)
qed simp

section \<open>The text of a padded string\<close>

definition spaces :: "int \<Rightarrow> string" where
  "spaces n = replicate (nat n) (CHR '' '')"

text \<open>What C99 asks of \<open>%s\<close>: a precision cuts the string, a width pads it.\<close>

definition c99_str :: "pflag set \<Rightarrow> int \<Rightarrow> int \<Rightarrow> bytes \<Rightarrow> string" where
  "c99_str flags width prec mem =
     (let s = (if prec < 0 then c_str mem else c_str (take (nat prec) mem));
          fill = spaces (width - int (length s))
      in if DP_F_MINUS \<in> flags then s @ fill else fill @ s)"

lemma sint_word_of_int_small: "- 2147483648 \<le> x \<Longrightarrow> x < 2147483648 \<Longrightarrow> sint (word_of_int x :: u32) = x"
  by (rule signed_take_bit_int_eq_self[where n = 31, THEN trans[OF signed_of_int[where ?'a = int and ?'b = 32, simplified]]]) auto

lemma as_int_id: "INT_MIN \<le> x \<Longrightarrow> x \<le> INT_MAX \<Longrightarrow> as_int x = x"
  by (simp add: as_int_def sint_word_of_int_small)

lemma pad_emit: "pad m c n = emit m (replicate (nat n) c)"
  by (simp add: pad_def fun_eq_iff)

lemma emit_append_fun: "emit m (a @ b) = (\<lambda>tw. Option.bind (emit m a tw) (emit m b))"
  by (simp add: emit_append fun_eq_iff)

lemma walk_emit_all:
  "no_nul s \<Longrightarrow> mx < 0 \<Longrightarrow> fmtstr_walk m mx cnt (s @ NUL # junk) tw = emit m s tw"
proof (induction s arbitrary: cnt tw)
  case (Cons c s)
  then show ?case by (cases tw) (simp split: Option.bind_split)
next
  case Nil
  then show ?case by (cases tw) simp
qed

lemma walk_emit_prefix:
  "strndup_scan mem n = Some len \<Longrightarrow> int n = mx - cnt \<Longrightarrow> 0 \<le> mx \<Longrightarrow> mem \<noteq> [] \<Longrightarrow> n < length mem \<or> len < n
    \<Longrightarrow> fmtstr_walk m mx cnt mem tw = emit m (take len mem) tw"
proof (induction mem n arbitrary: len cnt tw rule: strndup_scan.induct)
  case (1 mem)
  then show ?case by (cases mem; cases tw) auto
next
  case (3 c mem n)
  show ?case
  proof (cases "c = NUL")
    case False
    then obtain l where l: "len = Suc l" "strndup_scan mem n = Some l" using "3.prems"(1) by auto
    then have ne: "mem \<noteq> []" using "3.prems" by (cases n; cases mem) auto
    have "fmtstr_walk m mx (cnt + 1) mem tw' = emit m (take l mem) tw'" for tw'
      using "3.IH"[OF False l(2) _ "3.prems"(3) ne] "3.prems"(2,5) l(1) by auto
    then show ?thesis using False l "3.prems" by (cases tw) auto
  next
    case True
    then show ?thesis using 3 by (cases tw) auto
  qed
qed simp

text \<open>The memory \<open>%s\<close> may read: a terminated string, or one byte more than the precision.\<close>

definition str_readable :: "int \<Rightarrow> bytes \<Rightarrow> bool" where
  "str_readable mx mem = (if mx < 0 then NUL \<in> set mem else NUL \<in> set mem \<or> nat mx < length mem)"

definition str_part :: "int \<Rightarrow> bytes \<Rightarrow> string" where
  "str_part mx mem = (if mx < 0 then c_str mem else c_str (take (nat mx) mem))"

lemma strndup_scan_exists:
  "NUL \<in> set mem \<or> n \<le> length mem \<Longrightarrow> strndup_scan mem n = Some (length (c_str (take n mem)))"
  by (induction mem n rule: strndup_scan.induct) (auto simp: c_str_def)

lemma c_str_take_prefix: "take (length (c_str (take n mem))) mem = c_str (take n mem)"
  by (induction mem arbitrary: n) (auto simp: c_str_def take_Cons' split: nat.splits)

lemma length_c_str_take_less: "NUL \<in> set mem \<Longrightarrow> n \<ge> length mem \<Longrightarrow> length (c_str (take n mem)) < n"
proof -
  assume a: "NUL \<in> set mem" "n \<ge> length mem"
  then obtain s r where "mem = s @ NUL # r" "no_nul s" by (metis no_nul_def split_list_first)
  with a(2) show ?thesis by (simp add: no_nul_def[symmetric])
qed

lemma walk_str_part:
  assumes "str_readable mx mem"
  shows "fmtstr_walk m mx 0 mem tw = emit m (str_part mx mem) tw"
proof (cases "mx < 0")
  case True
  with assms obtain s r where "mem = s @ NUL # r" "no_nul s"
    by (metis str_readable_def no_nul_def split_list_first)
  with True show ?thesis by (simp add: str_part_def walk_emit_all)
next
  case False
  let ?l = "length (c_str (take (nat mx) mem))"
  have "strndup_scan mem (nat mx) = Some ?l"
    using assms False by (intro strndup_scan_exists) (auto simp: str_readable_def)
  moreover have "nat mx < length mem \<or> ?l < nat mx"
    using assms False length_c_str_take_less[of mem "nat mx"]
    by (cases "nat mx < length mem") (auto simp: str_readable_def)
  moreover have "mem \<noteq> []" using assms False by (auto simp: str_readable_def)
  ultimately have "fmtstr_walk m mx 0 mem tw = emit m (take ?l mem) tw"
    using False by (intro walk_emit_prefix) auto
  then show ?thesis using False by (simp add: str_part_def c_str_take_prefix)
qed

lemma emit_bind: "Option.bind (emit m a tw) (emit m b) = emit m (a @ b) tw"
  by (simp add: emit_append)

lemma fmtstr_c99:
  assumes "str_readable mx mem" and "0 \<le> mn" "mn \<le> INT_MAX" and "int (length (str_part mx mem)) \<le> INT_MAX"
  shows "fmtstr m (Some mem) flags mn mx w = emit m (c99_str flags mn mx mem) (0, w)"
proof -
  let ?s = "str_part mx mem"
  have len: "(if mx < 0 then c_strlen mem else strndup_scan mem (nat mx)) = Some (length ?s)"
    using assms(1) strndup_scan_exists[of mem "nat mx"]
    by (auto simp: str_readable_def str_part_def c_strlen_def)
  have id: "as_int (int (length ?s)) = int (length ?s)"
    using assms(4) by (intro as_int_id) auto
  have body: "c99_str flags mn mx mem =
      (if DP_F_MINUS \<in> flags then ?s @ spaces (mn - int (length ?s)) else spaces (mn - int (length ?s)) @ ?s)"
    by (simp add: c99_str_def str_part_def Let_def)
  have ov: "\<not> (mn - int (length ?s) < INT_MIN \<or> mn - int (length ?s) > INT_MAX)"
    using assms(2,3,4) by auto
  define d where "d = (if mn - int (length ?s) < 0 then 0 else mn - int (length ?s))"
  have d: "0 \<le> d" "nat d = nat (mn - int (length ?s))" by (auto simp: d_def)
  have "fmtstr m (Some mem) flags mn mx w =
      (let p = (if DP_F_MINUS \<in> flags then - d else d)
       in emit m (spaces p @ ?s @ spaces (- p)) (0, w))"
    unfolding fmtstr_def option.case len Let_def bind.bind_lunit id if_not_P[OF ov] d_def[symmetric]
    by (simp only: pad_emit walk_str_part[OF assms(1)] emit_append_fun spaces_def)
  also have "\<dots> = emit m (c99_str flags mn mx mem) (0, w)"
    using d by (simp add: body spaces_def)
  finally show ?thesis .
qed

text \<open>Without a terminator the second loop reads the byte after the precision.\<close>

lemma walk_overread:
  "no_nul s \<Longrightarrow> fmtstr_walk m (cnt + int (length s)) cnt s tw = None"
proof (induction s arbitrary: cnt tw)
  case (Cons c s)
  have "fmtstr_walk m (cnt + int (length (c # s))) (cnt + 1) s tw' = None" for tw'
    using Cons.IH[of "cnt + 1" tw'] Cons.prems by (simp add: add.assoc)
  with Cons.prems show ?case by (cases tw) (simp split: Option.bind_split)
qed simp

lemma fmtstr_overread:
  assumes "no_nul s"
  shows "fmtstr m (Some s) flags mn (int (length s)) w = None"
  using walk_overread[OF assms, where cnt = 0]
  by (auto simp: fmtstr_def Let_def split: Option.bind_split)

section \<open>The text of an integer\<close>

function base_text :: "(nat \<Rightarrow> byte) \<Rightarrow> nat \<Rightarrow> nat \<Rightarrow> string" where
  "base_text d b n = (if b < 2 \<or> n < b then [d n] else base_text d b (n div b) @ [d (n mod b)])"
  by pat_completeness auto
termination
  by (relation "measure (\<lambda>(_, _, n). n)") auto

declare base_text.simps [simp del]

lemma base_text_show_nat: "base_text digit_char 10 n = show_nat n"
proof (induction n rule: show_nat.induct)
  case (1 n)
  then show ?case by (subst base_text.simps, subst show_nat.simps) simp
qed

lemma length_base_text: "2 \<le> b \<Longrightarrow> n < b ^ Suc j \<Longrightarrow> length (base_text d b n) \<le> Suc j"
proof (induction j arbitrary: n)
  case 0
  then show ?case by (subst base_text.simps) simp
next
  case (Suc j)
  have "length (base_text d b (n div b)) \<le> Suc j" if "\<not> n < b"
    using Suc that by (intro Suc.IH) (auto simp: less_mult_imp_div_less mult.commute)
  then show ?case by (subst base_text.simps) (auto simp: le_SucI)
qed

lemma base_text_nonempty [simp]: "base_text d b n \<noteq> []"
  by (subst base_text.simps) simp

text \<open>The reversed \<open>convert\<close> is the text of the number, if it has fewer than 24 digits.\<close>

lemma convert_digits_text:
  "2 \<le> b \<Longrightarrow> length acc + length (base_text ((!) ds) b u) < CONVERT_SIZE \<Longrightarrow>
   rev (convert_digits ds b u acc) = base_text ((!) ds) b u @ rev acc"
proof (induction ds b u acc rule: convert_digits.induct)
  case (1 ds b u acc)
  show ?case
  proof (cases "u < b")
    case True
    then show ?thesis using 1(2) by (subst convert_digits.simps, subst base_text.simps) (simp add: Let_def)
  next
    case False
    then have t: "base_text ((!) ds) b u = base_text ((!) ds) b (u div b) @ [ds ! (u mod b)]"
      using 1(2) by (subst base_text.simps) simp
    have u: "u div b \<noteq> 0" using False 1(2) by (simp add: div_eq_0_iff)
    have l: "length (acc @ [ds ! (u mod b)]) < CONVERT_SIZE" using 1(3) by (simp add: t)
    have "rev (convert_digits ds b (u div b) (acc @ [ds ! (u mod b)])) =
        base_text ((!) ds) b (u div b) @ rev (acc @ [ds ! (u mod b)])"
      using 1(2,3) u l by (intro 1(1)) (simp_all add: t)
    then show ?thesis using u l by (subst convert_digits.simps) (simp add: Let_def t)
  qed
qed

text \<open>
  What C99 asks of \<open>%d\<close> and \<open>%u\<close> in a base: the sign, at least as many digits as the precision says, and
  blanks or zeros up to the width. A precision of zero prints the number 0 as no digits, and the
  flag for zeros counts only without a precision and without the flag for left justification.
\<close>

definition c99_int :: "pflag set \<Rightarrow> nat \<Rightarrow> int \<Rightarrow> int \<Rightarrow> int \<Rightarrow> string" where
  "c99_int flags base width prec v =
     (let sign = (if DP_F_UNSIGNED \<in> flags then ''''
                  else if v < 0 then ''-'' else if DP_F_PLUS \<in> flags then ''+''
                  else if DP_F_SPACE \<in> flags then '' '' else '''');
          ds = (if v = 0 \<and> prec = 0 then '''' else base_text ((!) (hex_digits flags)) base (nat (abs v)));
          ds = replicate (nat prec - length ds) (CHR ''0'') @ ds;
          fill = width - int (length sign) - int (length ds)
      in if DP_F_MINUS \<in> flags then sign @ ds @ spaces fill
         else if DP_F_ZERO \<in> flags \<and> prec < 0 then sign @ replicate (nat fill) (CHR ''0'') @ ds
         else spaces fill @ sign @ ds)"

text \<open>The cases in which the code does it.\<close>

definition c99_plain :: "pflag set \<Rightarrow> int \<Rightarrow> int \<Rightarrow> bool" where
  "c99_plain flags prec v \<longleftrightarrow>
     DP_F_NUM \<notin> flags \<and> (DP_F_ZERO \<in> flags \<longrightarrow> DP_F_MINUS \<notin> flags \<and> prec < 0) \<and> (v = 0 \<longrightarrow> prec \<noteq> 0)"

text \<open>The number that the 64 bits stand for.\<close>

definition int_value :: "pflag set \<Rightarrow> u64 \<Rightarrow> int" where
  "int_value flags value = (if DP_F_UNSIGNED \<in> flags then uint value else sint value)"

lemma convert_fits:
  assumes "b \<in> {8, 10, 16}" and "u < 2 ^ 64"
  shows "rev (convert_digits ds b u []) = base_text ((!) ds) b u"
    and "length (base_text ((!) ds) b u) < CONVERT_SIZE"
proof -
  have "u < b ^ Suc 21" using assms by auto
  then have "length (base_text ((!) ds) b u) \<le> Suc 21" using assms(1) by (intro length_base_text) auto
  then show l: "length (base_text ((!) ds) b u) < CONVERT_SIZE" by (simp add: CONVERT_SIZE_def)
  show "rev (convert_digits ds b u []) = base_text ((!) ds) b u"
    using assms(1) l convert_digits_text[of b "[]" ds u] by auto
qed

lemma int_value_bounds: "nat \<bar>int_value flags x\<bar> < 2 ^ 64"
proof -
  have "uint x < 2 ^ 64" "0 \<le> uint x" using uint_bounded[of x] by auto
  moreover have "- (2 ^ 63) \<le> sint x" "sint x < 2 ^ 63"
    using sint_greater_eq[of x] sint_less[of x] by auto
  moreover have "nat (uint x) < 2 ^ 64"
    using \<open>uint x < 2 ^ 64\<close> by (simp only: nat_less_numeral_power_cancel_iff)
  moreover have "nat \<bar>sint x\<bar> < 2 ^ 64"
    using \<open>- (2 ^ 63) \<le> sint x\<close> \<open>sint x < 2 ^ 63\<close> by simp
  ultimately show ?thesis by (simp add: int_value_def)
qed

lemma uint_eq_sint: "0 \<le> sint x \<Longrightarrow> uint x = sint x" for x :: u64
  using sint_less[of x] by (simp add: uint_sint take_bit_int_eq_self)

lemma unat_eq_sint: "0 \<le> sint x \<Longrightarrow> unat x = nat (sint x)" for x :: u64
  using uint_eq_sint[of x] by (metis unat_eq_nat_uint)

text \<open>The same text from the counts of \<open>fmtint\<close>, without their conversion to \<open>int\<close>.\<close>

lemma c99_int_pieces:
  fixes mn mx v :: int and base :: nat and flags :: "pflag set"
  assumes "c99_plain flags mx v"
  defines "t \<equiv> base_text ((!) (hex_digits flags)) base (nat \<bar>v\<bar>)"
    and "sg \<equiv> (if DP_F_UNSIGNED \<notin> flags then signvalue (v < 0) flags else None)"
  defines "S \<equiv> (case sg of None \<Rightarrow> [] | Some c \<Rightarrow> [c])"
    and "M \<equiv> (if mx < 0 then 0 else mx)" and "L \<equiv> int (length t)"
  defines "zp \<equiv> (if M - L < 0 then 0 else M - L)"
    and "sp \<equiv> (if mn - (if L \<le> M then M else L) - int (length S) < 0 then 0
                else mn - (if L \<le> M then M else L) - int (length S))"
  defines "zp' \<equiv> (if DP_F_ZERO \<in> flags then (if sp \<le> zp then zp else sp) else zp)"
    and "sp' \<equiv> (if DP_F_MINUS \<in> flags then - (if DP_F_ZERO \<in> flags then 0 else sp)
                 else (if DP_F_ZERO \<in> flags then 0 else sp))"
  shows "c99_int flags base mn mx v =
    spaces sp' @ S @ replicate (nat zp') (CHR ''0'') @ t @ spaces (- sp')"
proof -
  have bounds: "0 \<le> M" "0 \<le> L" by (auto simp: M_def L_def)
  have pl: "DP_F_ZERO \<in> flags \<longrightarrow> DP_F_MINUS \<notin> flags \<and> mx < 0" "\<not> (v = 0 \<and> mx = 0)"
    using assms(1) by (auto simp: c99_plain_def)
  have Sg: "(if DP_F_UNSIGNED \<in> flags then '''' else if v < 0 then ''-'' else if DP_F_PLUS \<in> flags then ''+''
      else if DP_F_SPACE \<in> flags then '' '' else '''') = S"
    by (simp add: S_def sg_def signvalue_def)
  have zeros: "nat mx - length t = nat zp" by (auto simp: zp_def M_def L_def)
  have ds: "int (length (replicate (nat zp) (CHR ''0'') @ t)) = (if L \<le> M then M else L)"
    using bounds by (auto simp: zp_def L_def)
  define fill where "fill = mn - int (length S) - (if L \<le> M then M else L)"
  have sp: "nat sp = nat fill" "0 \<le> sp" "sp \<le> 0 \<longleftrightarrow> fill \<le> 0" by (auto simp: sp_def fill_def)
  have c99: "c99_int flags base mn mx v =
      (if DP_F_MINUS \<in> flags then S @ (replicate (nat zp) (CHR ''0'') @ t) @ spaces fill
       else if DP_F_ZERO \<in> flags \<and> mx < 0 then S @ replicate (nat fill) (CHR ''0'') @ replicate (nat zp) (CHR ''0'') @ t
       else spaces fill @ S @ replicate (nat zp) (CHR ''0'') @ t)"
    unfolding c99_int_def Let_def Sg t_def[symmetric] if_not_P[OF pl(2)] zeros ds fill_def by simp
  consider (minus) "DP_F_MINUS \<in> flags" "DP_F_ZERO \<notin> flags" | (zero) "DP_F_ZERO \<in> flags" "DP_F_MINUS \<notin> flags" "mx < 0"
    | (blank) "DP_F_MINUS \<notin> flags" "DP_F_ZERO \<notin> flags"
    using pl(1) by blast
  then show ?thesis
  proof cases
    case minus
    then show ?thesis unfolding c99 by (simp add: sp'_def zp'_def spaces_def sp)
  next
    case zero
    then have "zp = 0" using bounds by (simp add: zp_def M_def)
    then show ?thesis unfolding c99 using zero by (auto simp: sp'_def zp'_def spaces_def sp)
  next
    case blank
    then show ?thesis unfolding c99 by (simp add: sp'_def zp'_def spaces_def sp)
  qed
qed

lemma fmtint_c99:
  assumes base: "base \<in> {8, 10, 16}"
    and plain: "c99_plain flags mx (int_value flags x)"
    and range: "0 \<le> mn" "mn \<le> INT_MAX" "mx \<le> INT_MAX"
    and least: "DP_F_UNSIGNED \<notin> flags \<longrightarrow> sint x \<noteq> - (2 ^ 63)"
  shows "fmtint m x base mn mx flags w = emit m (c99_int flags base mn mx (int_value flags x)) (0, w)"
proof -
  define v where "v = int_value flags x"
  define t where "t = base_text ((!) (hex_digits flags)) base (nat \<bar>v\<bar>)"
  define c where "c = convert_digits (hex_digits flags) base (nat \<bar>v\<bar>) []"
  define sg where "sg = (if DP_F_UNSIGNED \<notin> flags then signvalue (v < 0) flags else None)"
  have fits: "nat \<bar>v\<bar> < 2 ^ 64" unfolding v_def by (rule int_value_bounds)
  have c: "rev c = t" unfolding c_def t_def by (rule convert_fits(1)[OF base fits])
  then have lc: "length c = length t" by (metis length_rev)
  have lt: "length t < 24" using convert_fits(2)[OF base fits] by (simp add: t_def CONVERT_SIZE_def)
  have u: "(if DP_F_UNSIGNED \<notin> flags \<and> sint x < 0 then nat (- sint x) else unat x) = nat \<bar>v\<bar>"
    using unat_eq_sint[of x] by (auto simp: v_def int_value_def)
  have sg: "(if DP_F_UNSIGNED \<notin> flags then signvalue (sint x < 0) flags else None) = sg"
    by (simp add: sg_def v_def int_value_def)
  have place: "(if length c = CONVERT_SIZE then length c - 1 else length c) = length t"
    using lc lt by (simp add: CONVERT_SIZE_def)
  have tk: "rev (take (length t) c) = t" using c lc by simp
  have least': "\<not> (DP_F_UNSIGNED \<notin> flags \<and> sint x = - (2 ^ 63))" using least by blast
  define S where "S = (case sg of None \<Rightarrow> [] | Some c \<Rightarrow> [c])"
  define M where "M = (if mx < 0 then 0 else mx)"
  define L where "L = int (length t)"
  have Sl: "(if sg \<noteq> None then 1 else 0) = int (length S)" "length S \<le> 1"
    by (auto simp: S_def split: option.splits)
  have bounds: "0 \<le> M" "M \<le> INT_MAX" "0 \<le> L" "L < 24" using range lt by (auto simp: M_def L_def)
  have z: "as_int (M - L) = M - L" using bounds by (intro as_int_id) auto
  have p: "as_int (mn - (if L \<le> M then M else L) - int (length S)) = mn - (if L \<le> M then M else L) - int (length S)"
    using bounds range Sl(2) by (intro as_int_id) auto
  define zp where "zp = (if M - L < 0 then 0 else M - L)"
  define sp where "sp = (if mn - (if L \<le> M then M else L) - int (length S) < 0 then 0
                         else mn - (if L \<le> M then M else L) - int (length S))"
  define zp' where "zp' = (if DP_F_ZERO \<in> flags then (if sp \<le> zp then zp else sp) else zp)"
  define sp' where "sp' = (if DP_F_MINUS \<in> flags then - (if DP_F_ZERO \<in> flags then 0 else sp)
                           else (if DP_F_ZERO \<in> flags then 0 else sp))"
  have "fmtint m x base mn mx flags w =
      emit m (spaces sp' @ S @ replicate (nat zp') (CHR ''0'') @ t @ spaces (- sp')) (0, w)"
    unfolding fmtint_def Let_def u c_def[symmetric] sg place if_not_P[OF least'] tk M_def[symmetric]
      L_def[symmetric] Sl(1) z p zp_def[symmetric] sp_def[symmetric] zp'_def[symmetric] sp'_def[symmetric] S_def[symmetric]
    by (simp only: pad_emit emit_append_fun spaces_def)
  moreover have "spaces sp' @ S @ replicate (nat zp') (CHR ''0'') @ t @ spaces (- sp') = c99_int flags base mn mx v"
    unfolding t_def S_def sg_def M_def L_def zp_def sp_def zp'_def sp'_def
    by (rule c99_int_pieces[symmetric]) (use plain in \<open>simp add: v_def\<close>)
  ultimately show ?thesis by (simp add: v_def)
qed

end
