(* ===== verification/FmtFp.thy ===== *)
theory FmtFp
  imports Complex_Main Fmt
begin

text \<open>
  Floating point in \<open>portable/snprintf.c\<close>: \<open>abs_val\<close>, \<open>pow10_int\<close>, \<open>round_int\<close> and \<open>fmtfp\<close>. A finite
  \<open>long double\<close> is the rational number it stands for, and the rounding of the machine after each
  operation is the parameter \<open>rnd\<close>; infinities and NaNs are not values of the model. A conversion
  to \<open>long long\<close> that does not fit is undefined in C and \<open>None\<close> here, as is the overflow of an
  \<open>int\<close> or \<open>long long\<close>.

  The lemmas show that \<open>%f\<close> prints the decimal fraction with the given number of places that the
  rounded product says, rounding halves up.
\<close>

section \<open>Helpers\<close>

definition to_llong :: "rat \<Rightarrow> int option" where
  "to_llong x =
     (let i = (if x < 0 then \<lceil>x\<rceil> else \<lfloor>x\<rfloor>)
      in if - (2 ^ 63) \<le> i \<and> i < 2 ^ 63 then Some i else None)"

definition llong_succ :: "int \<Rightarrow> int option" where
  "llong_succ i = (if i < 2 ^ 63 - 1 then Some (i + 1) else None)"

definition abs_val :: "rat \<Rightarrow> rat" where
  "abs_val x = (if x < 0 then - x else x)"

fun pow10_loop :: "(rat \<Rightarrow> rat) \<Rightarrow> nat \<Rightarrow> rat \<Rightarrow> rat" where
  "pow10_loop rnd 0 r = r"
| "pow10_loop rnd (Suc e) r = pow10_loop rnd e (rnd (r * 10))"

definition pow10_int :: "(rat \<Rightarrow> rat) \<Rightarrow> nat \<Rightarrow> rat" where
  "pow10_int rnd e = pow10_loop rnd e 1"

definition round_int :: "(rat \<Rightarrow> rat) \<Rightarrow> rat \<Rightarrow> int option" where
  "round_int rnd x = do {
     i \<leftarrow> to_llong x;
     let x = rnd (x - rnd (of_int i));
     if x \<ge> 1 / 2 then llong_succ i else Some i }"

text \<open>The constant 0.1, as a \<open>double\<close>.\<close>

definition TENTH :: rat where
  "TENTH = 3602879701896397 / 36028797018963968"

definition MAX_DIGITS :: int where
  "MAX_DIGITS = 18"

text \<open>The two loops that turn significant digits into decimal places for \<open>%g\<close>.\<close>

fun g_int_loop :: "nat \<Rightarrow> int \<Rightarrow> int" where
  "g_int_loop temp mx = (if temp = 0 then mx else g_int_loop (temp div 10) (mx - 1))"

declare g_int_loop.simps [simp del]

partial_function (option) g_frac_loop :: "(rat \<Rightarrow> rat) \<Rightarrow> rat \<Rightarrow> int \<Rightarrow> int option" where
  "g_frac_loop rnd temp mx =
     (if temp < TENTH
      then (if mx < INT_MAX then g_frac_loop rnd (rnd (temp * 10)) (mx + 1) else None)
      else Some mx)"

text \<open>The loop that counts the zeros after the decimal point.\<close>

function lead_zeros :: "nat \<Rightarrow> nat \<Rightarrow> nat \<Rightarrow> nat" where
  "lead_zeros fracpart mask10 n =
     (if fracpart < mask10 div 10 then lead_zeros fracpart (mask10 div 10) (n + 1) else n)"
  by pat_completeness auto
termination
  by (relation "measure (\<lambda>(_, mask10, _). mask10)") auto

declare lead_zeros.simps [simp del]

section \<open>fmtfp\<close>

text \<open>
  The two parts of the number as the arrays \<open>iconvert\<close> and \<open>fconvert\<close>, both reversed, the number of
  places, and how many digits at the end of the fraction are left out. A negative \<open>fracpart\<close> makes
  the loop over \<open>leadingfrac0s\<close> run until that counter overflows.
\<close>

definition fp_convert ::
  "(rat \<Rightarrow> rat) \<Rightarrow> rat \<Rightarrow> int \<Rightarrow> pflag set \<Rightarrow> (string \<times> string \<times> int \<times> bool \<times> nat) option" where
  "fp_convert rnd fvalue mx flags = do {
     let mx = (if mx < 0 then 6 else mx);
     let ufvalue = abs_val fvalue;
     intpart \<leftarrow> to_llong ufvalue;
     mx \<leftarrow> (if DP_F_FP_G \<notin> flags then Some mx
            else if intpart \<noteq> 0 then
              (let mx = g_int_loop (nat intpart) mx in Some (if mx < 0 then 0 else mx))
            else if ufvalue > 0 then g_frac_loop rnd ufvalue mx
            else Some mx);
     let omitzeros = (DP_F_FP_G \<in> flags \<and> DP_F_NUM \<notin> flags);
     let mx = (if mx > MAX_DIGITS then MAX_DIGITS else mx);
     mask10 \<leftarrow> to_llong (pow10_int rnd (nat mx));
     fracpart \<leftarrow> round_int rnd (rnd (rnd (of_int mask10) * rnd (ufvalue - rnd (of_int intpart))));
     (intpart, fracpart, leadingfrac0s) \<leftarrow>
       (if fracpart \<ge> mask10
        then map_option (\<lambda>i. (i, fracpart - mask10, 0)) (llong_succ intpart)
        else if fracpart = 0 then Some (intpart, fracpart, 0)
        else if fracpart < 0 then None
        else Some (intpart, fracpart, lead_zeros (nat fracpart) (nat mask10) 0));
     let iconvert = convert_digits ''0123456789'' 10 (nat intpart) [];
     let iconvert = (if length iconvert = CONVERT_SIZE then take (CONVERT_SIZE - 1) iconvert else iconvert);
     let fconvert = convert_digits ''0123456789'' 10 (nat fracpart) [];
     let fconvert = take CONVERT_SIZE (fconvert @ replicate leadingfrac0s (CHR ''0''));
     let fconvert = (if length fconvert = CONVERT_SIZE then take (CONVERT_SIZE - 1) fconvert else fconvert);
     let omitcount = (if omitzeros then length (takeWhile (\<lambda>c. c = CHR ''0'') fconvert) else 0);
     Some (iconvert, fconvert, mx, omitzeros, omitcount)
   }"

text \<open>
  The widths are computed in \<open>size_t\<close> and assigned to an \<open>int\<close>. With the flag for zeros, the sign
  comes before the zeros and counts as one character of the padding.
\<close>

definition fmtfp ::
  "(rat \<Rightarrow> rat) \<Rightarrow> nat \<Rightarrow> rat \<Rightarrow> int \<Rightarrow> int \<Rightarrow> pflag set \<Rightarrow> out \<Rightarrow> (int \<times> out) option" where
  "fmtfp rnd maxlen fvalue mn mx flags w = do {
     (iconvert, fconvert, mx, omitzeros, omitcount) \<leftarrow> fp_convert rnd fvalue mx flags;
     let sign = signvalue (fvalue < 0) flags;
     let iplace = length iconvert;
     let fplace = length fconvert;
     let padlen = as_int (mn - int iplace - (mx - int omitcount) - 1 - (if sign \<noteq> None then 1 else 0));
     let zpadlen = (if omitzeros then 0 else as_int (mx - int fplace));
     let zpadlen = (if zpadlen < 0 then 0 else zpadlen);
     let padlen = (if padlen < 0 then 0 else padlen);
     let padlen = (if DP_F_MINUS \<in> flags then - padlen else padlen);
     let zeroed = (DP_F_ZERO \<in> flags \<and> padlen > 0);
     let signtext = (case sign of None \<Rightarrow> [] | Some c \<Rightarrow> [c]);
     tw \<leftarrow> emit maxlen (if zeroed then signtext else []) (0, w);
     tw \<leftarrow> (if zeroed then pad maxlen (CHR ''0'') (padlen - int (length signtext)) tw
           else pad maxlen (CHR '' '') padlen tw);
     tw \<leftarrow> emit maxlen (if zeroed then [] else signtext) tw;
     tw \<leftarrow> emit maxlen (rev iconvert) tw;
     tw \<leftarrow> emit maxlen (if mx > 0 \<and> (fplace > omitcount \<or> zpadlen > 0)
                      then ''.'' @ rev (drop omitcount fconvert) else []) tw;
     tw \<leftarrow> pad maxlen (CHR ''0'') zpadlen tw;
     pad maxlen (CHR '' '') (- padlen) tw
   }"

section \<open>Correctness of \<open>%f\<close>\<close>

text \<open>
  What is assumed of the rounding: it is monotone, a rounded value stays as it is, integers of up to
  64 bits are exact, and so is the fraction that is left when the integer part of a value is
  subtracted. The extended format with its significand of 64 bits does this.
\<close>

definition rounding :: "(rat \<Rightarrow> rat) \<Rightarrow> bool" where
  "rounding rnd \<longleftrightarrow>
     (\<forall>x y. x \<le> y \<longrightarrow> rnd x \<le> rnd y) \<and> (\<forall>x. rnd (rnd x) = rnd x)
     \<and> (\<forall>i. \<bar>i\<bar> \<le> 2 ^ 64 \<longrightarrow> rnd (of_int i) = of_int i)
     \<and> (\<forall>x. 0 \<le> x \<longrightarrow> rnd x = x \<longrightarrow> rnd (x - of_int \<lfloor>x\<rfloor>) = x - of_int \<lfloor>x\<rfloor>)"

text \<open>The digits after the point: as many as the precision says.\<close>

definition places_text :: "nat \<Rightarrow> nat \<Rightarrow> string" where
  "places_text p f = replicate (p - length (show_nat f)) (CHR ''0'') @ show_nat f"

definition fixed_digits :: "nat \<Rightarrow> nat \<Rightarrow> string" where
  "fixed_digits p n =
     show_nat (n div 10 ^ p) @ (if p = 0 then [] else ''.'' @ places_text p (n mod 10 ^ p))"

text \<open>The number to print, in units of the last place.\<close>

definition scaled :: "(rat \<Rightarrow> rat) \<Rightarrow> nat \<Rightarrow> rat \<Rightarrow> nat" where
  "scaled rnd p x =
     nat \<lfloor>\<bar>x\<bar>\<rfloor> * 10 ^ p + nat \<lfloor>rnd (10 ^ p * (\<bar>x\<bar> - of_int \<lfloor>\<bar>x\<bar>\<rfloor>)) + 1 / 2\<rfloor>"

text \<open>The whole field, as C99 asks for it.\<close>

definition c99_fixed :: "pflag set \<Rightarrow> int \<Rightarrow> nat \<Rightarrow> bool \<Rightarrow> nat \<Rightarrow> string" where
  "c99_fixed flags width p negative n =
     (let sign = (case signvalue negative flags of None \<Rightarrow> [] | Some c \<Rightarrow> [c]);
          ds = fixed_digits p n;
          fill = width - int (length sign) - int (length ds)
      in if DP_F_MINUS \<in> flags then sign @ ds @ spaces fill
         else if DP_F_ZERO \<in> flags then sign @ replicate (nat fill) (CHR ''0'') @ ds
         else spaces fill @ sign @ ds)"

text \<open>
  The cases in which the code prints it: the code counts a decimal point that it does not print
  without decimal places, and it counts the sign twice when it fills with zeros.
\<close>

definition fp_plain :: "pflag set \<Rightarrow> nat \<Rightarrow> bool \<Rightarrow> bool" where
  "fp_plain flags p negative \<longleftrightarrow>
     DP_F_FP_G \<notin> flags \<and> 0 < p \<and> p \<le> 18 \<and>
     (DP_F_ZERO \<in> flags \<longrightarrow> DP_F_MINUS \<in> flags \<or> signvalue negative flags = None)"

lemma pow10_exact: "rounding rnd \<Longrightarrow> a + e \<le> 19 \<Longrightarrow> pow10_loop rnd e (10 ^ a) = 10 ^ (a + e)"
proof (induction e arbitrary: a)
  case (Suc e)
  have le: "(10::int) ^ Suc a \<le> 10 ^ 19" using Suc.prems(2) by (intro power_increasing) auto
  have "(10::int) ^ 19 \<le> 2 ^ 64" by simp
  with le have "\<bar>(10::int) ^ Suc a\<bar> \<le> 2 ^ 64" by simp
  then have "rnd (of_int (10 ^ Suc a)) = of_int (10 ^ Suc a)"
    using Suc.prems(1) unfolding rounding_def by blast
  then have "rnd (10 ^ a * 10) = 10 ^ Suc a" by (simp add: mult.commute)
  with Suc.IH[of "Suc a"] Suc.prems show ?case by (simp add: mult.commute)
qed simp

lemma pow10_int_exact: "rounding rnd \<Longrightarrow> p \<le> 18 \<Longrightarrow> pow10_int rnd p = 10 ^ p"
  using pow10_exact[of rnd 0 p] by (simp add: pow10_int_def)

lemma to_llong_nonneg: "0 \<le> x \<Longrightarrow> x < 2 ^ 63 \<Longrightarrow> to_llong x = Some \<lfloor>x\<rfloor>"
proof -
  assume a: "0 \<le> x" "x < 2 ^ 63"
  have "0 \<le> \<lfloor>x\<rfloor>" using a(1) by simp
  moreover have "\<lfloor>x\<rfloor> < 2 ^ 63" using a(2) by (simp add: floor_less_iff)
  ultimately show ?thesis using a(1) by (simp add: to_llong_def Let_def)
qed

lemma round_int_half_up:
  assumes r: "rounding rnd" and x: "0 \<le> x" "rnd x = x" "x \<le> 10 ^ 18"
  shows "round_int rnd x = Some \<lfloor>x + 1 / 2\<rfloor>"
proof -
  have i: "to_llong x = Some \<lfloor>x\<rfloor>" using x by (intro to_llong_nonneg) auto
  have b: "0 \<le> \<lfloor>x\<rfloor>" "\<lfloor>x\<rfloor> \<le> 10 ^ 18" using x by (auto simp: floor_le_iff)
  then have "rnd (of_int \<lfloor>x\<rfloor>) = of_int \<lfloor>x\<rfloor>" using r unfolding rounding_def by auto
  moreover have "rnd (x - of_int \<lfloor>x\<rfloor>) = x - of_int \<lfloor>x\<rfloor>" using r x unfolding rounding_def by blast
  moreover have "\<lfloor>x + 1 / 2\<rfloor> = (if x - of_int \<lfloor>x\<rfloor> \<ge> 1 / 2 then \<lfloor>x\<rfloor> + 1 else \<lfloor>x\<rfloor>)"
    by (simp add: floor_eq_iff) linarith
  ultimately show ?thesis using b by (simp add: round_int_def i llong_succ_def Let_def)
qed

lemma show_nat_length_exact: "10 ^ k \<le> f \<Longrightarrow> f < 10 ^ Suc k \<Longrightarrow> length (show_nat f) = Suc k"
proof (induction k arbitrary: f)
  case 0
  then show ?case by (subst show_nat.simps) simp
next
  case (Suc k)
  have "10 ^ k \<le> f div 10" "f div 10 < 10 ^ Suc k"
    using Suc.prems by (auto simp: less_mult_imp_div_less mult.commute less_eq_div_iff_mult_less_eq)
  moreover have "\<not> f < 10"
  proof -
    have "(1::nat) \<le> 10 ^ k" by simp
    with Suc.prems(1) show ?thesis unfolding power_Suc by linarith
  qed
  ultimately show ?case using Suc.IH[of "f div 10"] by (subst show_nat.simps) simp
qed

lemma lead_zeros_count:
  "0 < f \<Longrightarrow> f < 10 ^ p \<Longrightarrow> lead_zeros f (10 ^ p) n = n + (p - length (show_nat f))"
proof (induction p arbitrary: n)
  case (Suc p)
  show ?case
  proof (cases "f < 10 ^ p")
    case True
    then have "0 < p" using Suc.prems(1) by (cases p) auto
    then have "length (show_nat f) \<le> p" using True by (rule show_nat_length)
    moreover have "lead_zeros f (10 ^ Suc p) n = lead_zeros f (10 ^ p) (n + 1)"
      using True by (subst lead_zeros.simps) simp
    ultimately show ?thesis using Suc.IH[OF Suc.prems(1) True] by simp
  next
    case False
    then have "length (show_nat f) = Suc p" using Suc.prems by (intro show_nat_length_exact) auto
    then show ?thesis using False by (subst lead_zeros.simps) simp
  qed
qed simp

lemma decimal_digit: "d < 10 \<Longrightarrow> ''0123456789'' ! d = digit_char d"
proof -
  assume "d < 10"
  then have "d \<in> set [0..<10]" by simp
  moreover have "\<forall>d \<in> set [0..<10]. ''0123456789'' ! d = digit_char d" by code_simp
  ultimately show ?thesis by blast
qed

lemma base_text_decimal: "base_text ((!) ''0123456789'') 10 n = show_nat n"
proof (induction n rule: show_nat.induct)
  case (1 n)
  then show ?case by (subst base_text.simps, subst show_nat.simps) (simp add: decimal_digit)
qed

lemma convert_decimal:
  assumes "n < 2 ^ 64"
  shows "rev (convert_digits ''0123456789'' 10 n []) = show_nat n" and "length (show_nat n) < CONVERT_SIZE"
  using convert_fits[of 10 n "''0123456789''"] assms by (simp_all add: base_text_decimal)

text \<open>The rounded fraction lies between 0 and the power of ten.\<close>

definition frac_units :: "(rat \<Rightarrow> rat) \<Rightarrow> nat \<Rightarrow> rat \<Rightarrow> int" where
  "frac_units rnd p x = \<lfloor>rnd (10 ^ p * (\<bar>x\<bar> - of_int \<lfloor>\<bar>x\<bar>\<rfloor>)) + 1 / 2\<rfloor>"

lemma frac_units_steps:
  assumes r: "rounding rnd" and x: "rnd \<bar>x\<bar> = \<bar>x\<bar>" "\<bar>x\<bar> < 2 ^ 63" and p: "p \<le> 18"
  shows "round_int rnd (rnd (rnd (of_int (10 ^ p)) * rnd (\<bar>x\<bar> - rnd (of_int \<lfloor>\<bar>x\<bar>\<rfloor>)))) = Some (frac_units rnd p x)"
    and "0 \<le> frac_units rnd p x" "frac_units rnd p x \<le> 10 ^ p"
proof -
  let ?f = "\<bar>x\<bar> - of_int \<lfloor>\<bar>x\<bar>\<rfloor>"
  have fl: "0 \<le> \<lfloor>\<bar>x\<bar>\<rfloor>" "\<lfloor>\<bar>x\<bar>\<rfloor> < 2 ^ 63" using x(2) by (auto simp: floor_less_iff)
  have p18: "(10::int) ^ p \<le> 10 ^ 18" using p by (intro power_increasing) auto
  have ex: "rnd (of_int i) = of_int i" if "\<bar>i\<bar> \<le> 2 ^ 64" for i using r that unfolding rounding_def by blast
  have e1: "rnd (of_int (10 ^ p)) = 10 ^ p" using ex[of "10 ^ p"] p18 by simp
  have e2: "rnd (of_int \<lfloor>\<bar>x\<bar>\<rfloor>) = of_int \<lfloor>\<bar>x\<bar>\<rfloor>" using ex fl by simp
  have e3: "rnd ?f = ?f" using r x(1) unfolding rounding_def by (metis abs_ge_zero)
  have f: "0 \<le> ?f" "?f \<le> 1" by (simp_all add: floor_le_iff) linarith
  have "10 ^ p * ?f \<le> 10 ^ p" using mult_left_mono[OF f(2), of "10 ^ p"] by simp
  then have hi: "rnd (10 ^ p * ?f) \<le> 10 ^ p" using r e1 unfolding rounding_def by (metis of_int_power of_int_numeral)
  have "rnd (of_int 0) \<le> rnd (10 ^ p * ?f)" using r f(1) unfolding rounding_def by simp
  then have lo: "0 \<le> rnd (10 ^ p * ?f)" using ex[of 0] by simp
  have "(10::rat) ^ p \<le> 10 ^ 18" using p by (intro power_increasing) auto
  with hi have hi': "rnd (10 ^ p * ?f) \<le> 10 ^ 18" by linarith
  have idem: "rnd (rnd (10 ^ p * ?f)) = rnd (10 ^ p * ?f)" using r unfolding rounding_def by blast
  show "round_int rnd (rnd (rnd (of_int (10 ^ p)) * rnd (\<bar>x\<bar> - rnd (of_int \<lfloor>\<bar>x\<bar>\<rfloor>)))) = Some (frac_units rnd p x)"
    unfolding e1 e2 e3 frac_units_def by (rule round_int_half_up[OF r lo idem hi'])
  show "0 \<le> frac_units rnd p x" using lo by (simp add: frac_units_def)
  have "frac_units rnd p x < 10 ^ p + 1" unfolding frac_units_def floor_less_iff using hi by simp
  then show "frac_units rnd p x \<le> 10 ^ p" by simp
qed

lemma fraction_text:
  assumes "f < 10 ^ p" "p \<le> 18" "0 < p"
  defines "fc \<equiv> convert_digits ''0123456789'' 10 f [] @ replicate (if f = 0 then 0 else lead_zeros f (10 ^ p) 0) (CHR ''0'')"
  shows "length fc \<le> p" "0 < length fc" "rev fc @ replicate (p - length fc) (CHR ''0'') = places_text p f"
proof -
  have "f < 10 ^ 18" using assms(1) power_increasing[OF assms(2), of "10::nat"] by simp
  then have "f < 2 ^ 64" by simp
  then have c: "rev (convert_digits ''0123456789'' 10 f []) = show_nat f" by (rule convert_decimal)
  then have lc: "length (convert_digits ''0123456789'' 10 f []) = length (show_nat f)" by (metis length_rev)
  have ls: "length (show_nat f) \<le> p" using show_nat_length[OF assms(3,1)] .
  have z: "show_nat 0 = [CHR ''0'']" using decimal_digit[of 0] by (subst show_nat.simps) simp
  have lz: "f \<noteq> 0 \<Longrightarrow> lead_zeros f (10 ^ p) 0 = p - length (show_nat f)"
    using lead_zeros_count[OF _ assms(1)] by simp
  show "length fc \<le> p" "0 < length fc" using ls lz by (auto simp: fc_def lc)
  show "rev fc @ replicate (p - length fc) (CHR ''0'') = places_text p f"
  proof (cases "f = 0")
    case True
    then show ?thesis using c lc by (simp add: fc_def places_text_def z replicate_append_same[symmetric] flip: replicate_Suc)
  next
    case False
    then show ?thesis using c lc lz ls by (simp add: fc_def places_text_def)
  qed
qed

lemma scaled_split:
  assumes "0 \<le> frac_units rnd p x" "frac_units rnd p x \<le> 10 ^ p"
  shows "scaled rnd p x = nat \<lfloor>\<bar>x\<bar>\<rfloor> * 10 ^ p + nat (frac_units rnd p x)"
    and "frac_units rnd p x = 10 ^ p \<Longrightarrow> scaled rnd p x div 10 ^ p = nat \<lfloor>\<bar>x\<bar>\<rfloor> + 1 \<and> scaled rnd p x mod 10 ^ p = 0"
    and "frac_units rnd p x \<noteq> 10 ^ p \<Longrightarrow> scaled rnd p x div 10 ^ p = nat \<lfloor>\<bar>x\<bar>\<rfloor>
           \<and> scaled rnd p x mod 10 ^ p = nat (frac_units rnd p x)"
proof -
  show s: "scaled rnd p x = nat \<lfloor>\<bar>x\<bar>\<rfloor> * 10 ^ p + nat (frac_units rnd p x)"
    by (simp add: scaled_def frac_units_def)
  show "scaled rnd p x div 10 ^ p = nat \<lfloor>\<bar>x\<bar>\<rfloor> + 1 \<and> scaled rnd p x mod 10 ^ p = 0" if "frac_units rnd p x = 10 ^ p"
  proof -
    have "nat (frac_units rnd p x) = 10 ^ p" using that by (simp add: nat_power_eq)
    then have "scaled rnd p x = (nat \<lfloor>\<bar>x\<bar>\<rfloor> + 1) * 10 ^ p" by (simp add: s)
    then show ?thesis by simp
  qed
  show "scaled rnd p x div 10 ^ p = nat \<lfloor>\<bar>x\<bar>\<rfloor> \<and> scaled rnd p x mod 10 ^ p = nat (frac_units rnd p x)"
    if "frac_units rnd p x \<noteq> 10 ^ p"
  proof -
    have "nat (frac_units rnd p x) < 10 ^ p" using assms that by (simp add: nat_less_iff)
    then show ?thesis by (simp add: s)
  qed
qed

lemma fp_convert_fixed:
  assumes r: "rounding rnd" and x: "rnd \<bar>x\<bar> = \<bar>x\<bar>" "\<bar>x\<bar> < 2 ^ 63 - 1" and p: "0 < p" "p \<le> 18"
    and flags: "DP_F_FP_G \<notin> flags"
  shows "\<exists>ic fc. fp_convert rnd x (int p) flags = Some (ic, fc, int p, False, 0)
    \<and> rev ic = show_nat (scaled rnd p x div 10 ^ p) \<and> length fc \<le> p \<and> 0 < length fc
    \<and> rev fc @ replicate (p - length fc) (CHR ''0'') = places_text p (scaled rnd p x mod 10 ^ p)"
proof -
  define I where "I = \<lfloor>\<bar>x\<bar>\<rfloor>"
  define q where "q = frac_units rnd p x"
  have x63: "\<bar>x\<bar> < 2 ^ 63" using x(2) by simp
  note steps = frac_units_steps[OF r x(1) x63 p(2), folded I_def q_def]
  note split = scaled_split[OF steps(2,3)[unfolded q_def], folded I_def q_def]
  have I: "0 \<le> I" "I < 2 ^ 63 - 1" using x(2) by (auto simp: I_def floor_less_iff)
  have toI: "to_llong (abs_val x) = Some I" using x63 by (simp add: I_def abs_val_def abs_if to_llong_nonneg)
  have p18: "(10::int) ^ p \<le> 10 ^ 18" using p by (intro power_increasing) auto
  have ten: "to_llong (pow10_int rnd p) = Some (10 ^ p)"
  proof -
    have "(10::rat) ^ p \<le> 10 ^ 18" using p by (intro power_increasing) auto
    then have "(10::rat) ^ p < 2 ^ 63" by simp
    then show ?thesis using pow10_int_exact[OF r p(2)] by (simp add: to_llong_nonneg)
  qed
  define J where "J = (if q = 10 ^ p then I + 1 else I)"
  define f where "f = (if q = 10 ^ p then 0 else nat q)"
  define lz where "lz = (if f = 0 then 0 else lead_zeros f (10 ^ p) 0)"
  have J: "nat J = scaled rnd p x div 10 ^ p" and f: "f = scaled rnd p x mod 10 ^ p"
    using split(2,3) I by (auto simp: J_def f_def nat_add_distrib)
  have branch: "(if q \<ge> 10 ^ p then map_option (\<lambda>i. (i, q - 10 ^ p, 0)) (llong_succ I)
        else if q = 0 then Some (I, q, 0)
        else if q < 0 then None
        else Some (I, q, lead_zeros (nat q) (nat (10 ^ p)) 0)) = Some (J, int f, lz)"
    using steps(2,3) I by (auto simp: J_def f_def lz_def llong_succ_def nat_power_eq)
  have J64: "nat J < 2 ^ 64" using I by (auto simp: J_def)
  note cj = convert_decimal[OF J64]
  have fp: "f < 10 ^ p" using steps(2,3) by (auto simp: f_def nat_less_iff)
  define fc where "fc = convert_digits ''0123456789'' 10 f [] @ replicate lz (CHR ''0'')"
  note fr = fraction_text[OF fp p(2,1), folded lz_def, folded fc_def]
  have lj: "length (convert_digits ''0123456789'' 10 (nat J) []) < CONVERT_SIZE" using cj by (metis length_rev)
  have lf: "length fc < CONVERT_SIZE" using fr(1) p by (simp add: CONVERT_SIZE_def)
  have "fp_convert rnd x (int p) flags =
      Some (convert_digits ''0123456789'' 10 (nat J) [], fc, int p, False, 0)"
  proof -
    have m: "(if int p < 0 then 6 else int p) = int p" "(if int p > MAX_DIGITS then MAX_DIGITS else int p) = int p"
      using p by (auto simp: MAX_DIGITS_def)
    have a: "abs_val x = \<bar>x\<bar>" by (simp add: abs_val_def abs_if)
    have tk: "take CONVERT_SIZE fc = fc" using lf by simp
    show ?thesis
      unfolding fp_convert_def Let_def m a toI[unfolded a] bind.bind_lunit if_P[OF flags] nat_int ten steps(1) branch prod.case
        fc_def[symmetric] tk if_not_P[OF less_imp_neq[OF lj]] if_not_P[OF less_imp_neq[OF lf]]
      using flags lf lj by (simp flip: fc_def)
  qed
  then show ?thesis using cj(1) fr by (auto simp: J f)
qed

lemma fmtfp_c99:
  assumes r: "rounding rnd" and x: "rnd \<bar>x\<bar> = \<bar>x\<bar>" "\<bar>x\<bar> < 2 ^ 63 - 1"
    and plain: "fp_plain flags p (x < 0)" and mn: "0 \<le> mn" "mn \<le> INT_MAX"
  shows "fmtfp rnd m x mn (int p) flags w = emit m (c99_fixed flags mn p (x < 0) (scaled rnd p x)) (0, w)"
proof -
  have p: "0 < p" "p \<le> 18" "DP_F_FP_G \<notin> flags" using plain by (auto simp: fp_plain_def)
  obtain ic fc where cv: "fp_convert rnd x (int p) flags = Some (ic, fc, int p, False, 0)"
    and ic: "rev ic = show_nat (scaled rnd p x div 10 ^ p)"
    and fc: "length fc \<le> p" "0 < length fc"
      "rev fc @ replicate (p - length fc) (CHR ''0'') = places_text p (scaled rnd p x mod 10 ^ p)"
    using fp_convert_fixed[OF r x p] by blast
  define S where "S = (case signvalue (x < 0) flags of None \<Rightarrow> [] | Some c \<Rightarrow> [c])"
  have Sl: "(if signvalue (x < 0) flags \<noteq> None then 1 else 0) = int (length S)" "length S \<le> 1"
    by (auto simp: S_def split: option.splits)
  define ds where "ds = fixed_digits p (scaled rnd p x)"
  have ds: "ds = rev ic @ ''.'' @ rev fc @ replicate (p - length fc) (CHR ''0'')"
    using p(1) by (simp add: ds_def fixed_digits_def ic fc(3))
  have lds: "int (length ds) = int (length ic) + 1 + int p" using fc(1) by (simp add: ds)
  have lic: "length ic < 24"
  proof -
    have le: "scaled rnd p x div 10 ^ p \<le> nat \<lfloor>\<bar>x\<bar>\<rfloor> + 1"
    proof -
      have "\<bar>x\<bar> < 2 ^ 63" using x(2) by simp
      note scaled_split[OF frac_units_steps(2,3)[OF r x(1) this p(2)]]
      then show ?thesis by (metis le_add1 le_refl)
    qed
    have small: "nat F + 1 < 10 ^ 23" if "F < 2 ^ 63 - 1" for F :: int using that by simp
    have "\<lfloor>\<bar>x\<bar>\<rfloor> < 2 ^ 63 - 1" unfolding floor_less_iff using x(2) by simp
    from le small[OF this] have "scaled rnd p x div 10 ^ p < 10 ^ 23" by (rule le_less_trans)
    then have "length (show_nat (scaled rnd p x div 10 ^ p)) \<le> 23" by (intro show_nat_length) auto
    moreover have "length ic = length (show_nat (scaled rnd p x div 10 ^ p))" by (metis ic length_rev)
    ultimately show ?thesis by linarith
  qed
  define fill where "fill = mn - int (length S) - int (length ds)"
  have pad: "as_int (mn - int (length ic) - (int p - int 0) - 1 - int (length S)) = fill"
    using mn lic p(2) Sl(2) by (subst as_int_id) (auto simp: fill_def lds)
  have zpad: "as_int (int p - int (length fc)) = int (p - length fc)"
    using fc(1) p(2) by (subst as_int_id) auto
  define pl where "pl = (if DP_F_MINUS \<in> flags then - (if fill < 0 then 0 else fill) else (if fill < 0 then 0 else fill))"
  have point: "(if 0 < int p \<and> (0 < length fc \<or> 0 < int (p - length fc)) then ''.'' @ rev (drop 0 fc) else []) = ''.'' @ rev fc"
    using p(1) fc(2) by simp
  have zp: "(if int (p - length fc) < 0 then 0 else int (p - length fc)) = int (p - length fc)" by simp
  have "fmtfp rnd m x mn (int p) flags w =
      emit m ((if DP_F_ZERO \<in> flags \<and> 0 < pl then S @ replicate (nat (pl - int (length S))) (CHR ''0'') else spaces pl @ S)
        @ ds @ spaces (- pl)) (0, w)"
    unfolding fmtfp_def cv bind.bind_lunit prod.case Let_def Sl(1) pad if_False zpad zp S_def[symmetric] point
      pl_def[symmetric] ds
    by (cases "DP_F_ZERO \<in> flags \<and> 0 < pl")
      (simp_all only: if_True if_False pad_emit emit_append_fun spaces_def emit.simps(1) bind.bind_lunit
        simp_thms append_assoc nat_int Option.bind_assoc)
  also have "\<dots> = emit m (c99_fixed flags mn p (x < 0) (scaled rnd p x)) (0, w)"
  proof -
    have c: "c99_fixed flags mn p (x < 0) (scaled rnd p x) =
        (if DP_F_MINUS \<in> flags then S @ ds @ spaces fill
         else if DP_F_ZERO \<in> flags then S @ replicate (nat fill) (CHR ''0'') @ ds
         else spaces fill @ S @ ds)"
      by (simp add: c99_fixed_def Let_def S_def[symmetric] ds_def[symmetric] fill_def)
    have "DP_F_ZERO \<in> flags \<Longrightarrow> DP_F_MINUS \<in> flags \<or> S = []"
      using plain by (auto simp: fp_plain_def S_def)
    then show ?thesis unfolding c by (auto simp: pl_def spaces_def)
  qed
  finally show ?thesis .
qed

end
