(* ===== verification/Dopr.thy ===== *)
theory Dopr
  imports FmtFp
begin

text \<open>
  The driver of \<open>portable/snprintf.c\<close>: \<open>dopr\<close>, a state machine that reads the format one character
  at a time, with \<open>vsnprintf\<close> and \<open>snprintf\<close> on top. The local variables of \<open>dopr\<close> are the record
  \<open>dopr\<close>; one turn of its loop is \<open>dopr_step\<close>. The format is the memory the pointer leads to, and
  reading past its end is \<open>None\<close>. An argument of the wrong type is undefined in C and \<open>None\<close>.

  The reference is a grammar of formats: \<open>unparse\<close> writes a list of items as a format, and
  \<open>denote\<close> is the text C99 asks for. The lemmas show that the state machine prints that text.
\<close>

section \<open>Arguments\<close>

text \<open>A pointer for \<open>%n\<close> is a number that names the target.\<close>

datatype va_arg = VInt u32 | VLong u64 | VLlong u64 | VDouble rat | VLdouble rat
  | VStr "bytes option" | VPtr u64 | VTarget nat

datatype cflag = DP_C_NONE | DP_C_SHORT | DP_C_LONG | DP_C_LLONG | DP_C_LDOUBLE

fun va_int :: "va_arg list \<Rightarrow> (int \<times> va_arg list) option" where
  "va_int (VInt x # args) = Some (sint x, args)"
| "va_int _ = None"

definition va_signed :: "cflag \<Rightarrow> va_arg list \<Rightarrow> (u64 \<times> va_arg list) option" where
  "va_signed cflags args =
     (case args of
        VInt x # r \<Rightarrow> if cflags = DP_C_SHORT then Some (scast (ucast x :: u16), r)
                     else if cflags = DP_C_LONG \<or> cflags = DP_C_LLONG then None else Some (scast x, r)
      | VLong x # r \<Rightarrow> if cflags = DP_C_LONG then Some (x, r) else None
      | VLlong x # r \<Rightarrow> if cflags = DP_C_LLONG then Some (x, r) else None
      | _ \<Rightarrow> None)"

definition va_unsigned :: "cflag \<Rightarrow> va_arg list \<Rightarrow> (u64 \<times> va_arg list) option" where
  "va_unsigned cflags args =
     (case args of
        VInt x # r \<Rightarrow> if cflags = DP_C_SHORT then Some (ucast (ucast x :: u16), r)
                     else if cflags = DP_C_LONG \<or> cflags = DP_C_LLONG then None else Some (ucast x, r)
      | VLong x # r \<Rightarrow> if cflags = DP_C_LONG then Some (x, r) else None
      | VLlong x # r \<Rightarrow> if cflags = DP_C_LLONG then Some (x, r) else None
      | _ \<Rightarrow> None)"

definition va_fp :: "cflag \<Rightarrow> va_arg list \<Rightarrow> (rat \<times> va_arg list) option" where
  "va_fp cflags args =
     (case args of
        VDouble x # r \<Rightarrow> if cflags = DP_C_LDOUBLE then None else Some (x, r)
      | VLdouble x # r \<Rightarrow> if cflags = DP_C_LDOUBLE then Some (x, r) else None
      | _ \<Rightarrow> None)"

section \<open>The state\<close>

datatype dp_state = DP_S_DEFAULT | DP_S_FLAGS | DP_S_MIN | DP_S_DOT | DP_S_MAX | DP_S_MOD
  | DP_S_MOD_L | DP_S_CONV | DP_S_DONE

record dopr =
  d_ch :: byte
  d_format :: bytes
  d_args :: "va_arg list"
  d_state :: dp_state
  d_flags :: "pflag set"
  d_cflags :: cflag
  d_min :: int
  d_max :: int
  d_total :: int
  d_out :: out
  d_stores :: "(nat \<times> int) list"

text \<open>\<open>ch = *format++\<close>.\<close>

definition next_ch :: "dopr \<Rightarrow> dopr option" where
  "next_ch d = (case d_format d of [] \<Rightarrow> None | c # r \<Rightarrow> Some (d\<lparr>d_ch := c, d_format := r\<rparr>))"

definition flag_of :: "byte \<Rightarrow> pflag option" where
  "flag_of = map_of (zip ''-+ #0'' [DP_F_MINUS, DP_F_PLUS, DP_F_SPACE, DP_F_NUM, DP_F_ZERO])"

text \<open>\<open>10*n + char_to_int (ch)\<close>, which must fit an \<open>int\<close>.\<close>

definition add_digit :: "int \<Rightarrow> byte \<Rightarrow> int option" where
  "add_digit n c = (let v = 10 * n + int (digit_val c) in if v > INT_MAX then None else Some v)"

text \<open>A conversion that formats \<open>n\<close> characters and leaves the arguments \<open>args\<close>.\<close>

definition took :: "dopr \<Rightarrow> va_arg list \<Rightarrow> (int \<times> out) option \<Rightarrow> dopr option" where
  "took d args r = map_option (\<lambda>(n, w). d\<lparr>d_args := args, d_total := d_total d + n, d_out := w\<rparr>) r"

definition conv_signed :: "nat \<Rightarrow> dopr \<Rightarrow> dopr option" where
  "conv_signed m d = do {
     (v, args) \<leftarrow> va_signed (d_cflags d) (d_args d);
     took d args (fmtint m v 10 (d_min d) (d_max d) (d_flags d) (d_out d)) }"

definition conv_unsigned :: "nat \<Rightarrow> nat \<Rightarrow> pflag set \<Rightarrow> dopr \<Rightarrow> dopr option" where
  "conv_unsigned m base flags d = do {
     (v, args) \<leftarrow> va_unsigned (d_cflags d) (d_args d);
     took d args (fmtint m v base (d_min d) (d_max d) (insert DP_F_UNSIGNED flags) (d_out d)) }"

definition conv_fp :: "(rat \<Rightarrow> rat) \<Rightarrow> nat \<Rightarrow> int \<Rightarrow> pflag set \<Rightarrow> dopr \<Rightarrow> dopr option" where
  "conv_fp rnd m mx flags d = do {
     (v, args) \<leftarrow> va_fp (d_cflags d) (d_args d);
     took d args (fmtfp rnd m v (d_min d) mx flags (d_out d)) }"

text \<open>The value \<open>%n\<close> stores, in the type the modifier names.\<close>

definition count_value :: "cflag \<Rightarrow> nat \<Rightarrow> int" where
  "count_value cflags n =
     (if cflags = DP_C_SHORT then sint (word_of_int (int n) :: u16)
      else if cflags = DP_C_LONG \<or> cflags = DP_C_LLONG then sint (word_of_int (int n) :: u64)
      else as_int (int n))"

text \<open>The switch of the state \<open>DP_S_CONV\<close>. The character after \<open>%w\<close> is skipped.\<close>

definition conv_switch :: "(rat \<Rightarrow> rat) \<Rightarrow> nat \<Rightarrow> dopr \<Rightarrow> dopr option" where
  "conv_switch rnd m d =
     (let ch = d_ch d; flags = d_flags d
      in if ch \<in> {CHR ''d'', CHR ''i''} then conv_signed m d
         else if ch = CHR ''o'' then conv_unsigned m 8 flags d
         else if ch = CHR ''u'' then conv_unsigned m 10 flags d
         else if ch = CHR ''X'' then conv_unsigned m 16 (insert DP_F_UP flags) d
         else if ch = CHR ''x'' then conv_unsigned m 16 flags d
         else if ch = CHR ''f'' then conv_fp rnd m (d_max d) flags d
         else if ch = CHR ''E'' then conv_fp rnd m (d_max d) (insert DP_F_UP flags) d
         else if ch = CHR ''e'' then conv_fp rnd m (d_max d) flags d
         else if ch \<in> {CHR ''G'', CHR ''g''} then
           conv_fp rnd m (if d_max d = 0 then 1 else d_max d)
             (insert DP_F_FP_G (if ch = CHR ''G'' then insert DP_F_UP flags else flags)) d
         else if ch = CHR ''c'' then
           (case d_args d of
              VInt x # args \<Rightarrow> took d args (dopr_outch m (char_of (unat x)) (d_out d))
            | _ \<Rightarrow> None)
         else if ch = CHR ''s'' then
           (case d_args d of
              VStr s # args \<Rightarrow> took d args (fmtstr m s flags (d_min d) (d_max d) (d_out d))
            | _ \<Rightarrow> None)
         else if ch = CHR ''p'' then
           (case d_args d of
              VPtr x # args \<Rightarrow> took d args (fmtint m x 16 (d_min d) (d_max d) flags (d_out d))
            | _ \<Rightarrow> None)
         else if ch = CHR ''n'' then
           (case d_args d of
              VTarget t # args \<Rightarrow>
                Some (d\<lparr>d_args := args,
                        d_stores := d_stores d @ [(t, count_value (d_cflags d) (o_cur (d_out d)))]\<rparr>)
            | _ \<Rightarrow> None)
         else if ch = CHR ''%'' then took d (d_args d) (dopr_outch m ch (d_out d))
         else if ch = CHR ''w'' then
           (case d_format d of [] \<Rightarrow> None | _ # r \<Rightarrow> Some (d\<lparr>d_format := r\<rparr>))
         else Some d)"

section \<open>One turn of the loop\<close>

definition mod_switch :: "dopr \<Rightarrow> dopr option" where
  "mod_switch d = do {
     d \<leftarrow> (if d_ch d = CHR ''h'' then next_ch (d\<lparr>d_cflags := DP_C_SHORT\<rparr>)
          else if d_ch d = CHR ''l'' then next_ch (d\<lparr>d_cflags := DP_C_LONG\<rparr>)
          else if d_ch d = CHR ''L'' then next_ch (d\<lparr>d_cflags := DP_C_LDOUBLE\<rparr>)
          else Some d);
     Some (d\<lparr>d_state := (if d_cflags d \<noteq> DP_C_LONG then DP_S_CONV else DP_S_MOD_L)\<rparr>) }"

definition dopr_step :: "(rat \<Rightarrow> rat) \<Rightarrow> nat \<Rightarrow> dopr \<Rightarrow> dopr option" where
  "dopr_step rnd m d =
     (if d_ch d = NUL then Some (d\<lparr>d_state := DP_S_DONE\<rparr>)
      else (case d_state d of
        DP_S_DEFAULT \<Rightarrow>
          if d_ch d = CHR ''%'' then next_ch (d\<lparr>d_state := DP_S_FLAGS\<rparr>)
          else Option.bind (took d (d_args d) (dopr_outch m (d_ch d) (d_out d))) next_ch
      | DP_S_FLAGS \<Rightarrow>
          (case flag_of (d_ch d) of
             Some f \<Rightarrow> next_ch (d\<lparr>d_flags := insert f (d_flags d)\<rparr>)
           | None \<Rightarrow> Some (d\<lparr>d_state := DP_S_MIN\<rparr>))
      | DP_S_MIN \<Rightarrow>
          if c_isdigit (d_ch d) then do {
            v \<leftarrow> add_digit (d_min d) (d_ch d);
            next_ch (d\<lparr>d_min := v\<rparr>) }
          else if d_ch d = CHR ''*'' then do {
            (v, args) \<leftarrow> va_int (d_args d);
            next_ch (d\<lparr>d_min := v, d_args := args, d_state := DP_S_DOT\<rparr>) }
          else Some (d\<lparr>d_state := DP_S_DOT\<rparr>)
      | DP_S_DOT \<Rightarrow>
          if d_ch d = CHR ''.'' then next_ch (d\<lparr>d_state := DP_S_MAX\<rparr>)
          else Some (d\<lparr>d_state := DP_S_MOD\<rparr>)
      | DP_S_MAX \<Rightarrow>
          if c_isdigit (d_ch d) then do {
            v \<leftarrow> add_digit (if d_max d < 0 then 0 else d_max d) (d_ch d);
            next_ch (d\<lparr>d_max := v\<rparr>) }
          else if d_ch d = CHR ''*'' then do {
            (v, args) \<leftarrow> va_int (d_args d);
            next_ch (d\<lparr>d_max := v, d_args := args, d_state := DP_S_MOD\<rparr>) }
          else Some (d\<lparr>d_state := DP_S_MOD\<rparr>)
      | DP_S_MOD \<Rightarrow> mod_switch d
      | DP_S_MOD_L \<Rightarrow> do {
          d \<leftarrow> (if d_ch d = CHR ''l'' then next_ch (d\<lparr>d_cflags := DP_C_LLONG\<rparr>) else Some d);
          Some (d\<lparr>d_state := DP_S_CONV\<rparr>) }
      | DP_S_CONV \<Rightarrow> do {
          d \<leftarrow> conv_switch rnd m d;
          d \<leftarrow> next_ch d;
          Some (d\<lparr>d_state := DP_S_DEFAULT, d_flags := {}, d_cflags := DP_C_NONE, d_min := 0, d_max := -1\<rparr>) }
      | DP_S_DONE \<Rightarrow> Some d))"

text \<open>Every turn reads a character or goes on to a later state, so the loop ends.\<close>

fun state_rank :: "dp_state \<Rightarrow> nat" where
  "state_rank DP_S_DEFAULT = 8"
| "state_rank DP_S_FLAGS = 7"
| "state_rank DP_S_MIN = 6"
| "state_rank DP_S_DOT = 5"
| "state_rank DP_S_MAX = 4"
| "state_rank DP_S_MOD = 3"
| "state_rank DP_S_MOD_L = 2"
| "state_rank DP_S_CONV = 1"
| "state_rank DP_S_DONE = 0"

definition dopr_rank :: "dopr \<Rightarrow> nat" where
  "dopr_rank d = 9 * length (d_format d) + state_rank (d_state d)"

lemma next_ch_Some: "next_ch d = Some d' \<Longrightarrow> \<exists>c r. d_format d = c # r \<and> d' = d\<lparr>d_ch := c, d_format := r\<rparr>"
  by (auto simp: next_ch_def split: list.splits)

lemma took_Some: "took d args r = Some d' \<Longrightarrow> d_format d' = d_format d \<and> d_state d' = d_state d"
  by (auto simp: took_def)

lemma conv_switch_format: "conv_switch rnd m d = Some d' \<Longrightarrow> length (d_format d') \<le> length (d_format d)"
  unfolding conv_switch_def conv_signed_def conv_unsigned_def conv_fp_def Let_def
  by (auto split: if_splits list.splits va_arg.splits Option.bind_splits dest!: took_Some)

lemma state_rank_le: "state_rank s \<le> 8"
  by (cases s) auto

lemma next_ch_rank: "next_ch d = Some d' \<Longrightarrow> 9 * length (d_format d') + 8 < 9 * length (d_format d)"
  by (auto dest!: next_ch_Some)

lemma mod_switch_rank: "d_state d = DP_S_MOD \<Longrightarrow> mod_switch d = Some d' \<Longrightarrow> dopr_rank d' < dopr_rank d"
  using state_rank_le[of "d_state d'"]
  by (auto simp: mod_switch_def dopr_rank_def split: Option.bind_splits if_splits dest!: next_ch_Some)

lemma rank_read: "9 * length (d_format d') + 8 < 9 * length (d_format d) \<Longrightarrow> dopr_rank d' < dopr_rank d"
  using state_rank_le[of "d_state d'"] by (simp add: dopr_rank_def)

lemma dopr_step_rank:
  assumes "d_state d \<noteq> DP_S_DONE" and "dopr_step rnd m d = Some d'"
  shows "dopr_rank d' < dopr_rank d"
proof (cases "d_ch d = NUL")
  case True
  then show ?thesis using assms by (cases "d_state d") (auto simp: dopr_step_def dopr_rank_def)
next
  case False
  show ?thesis
  proof (cases "d_state d")
    case DP_S_DEFAULT
    then show ?thesis using assms(2) False
      by (intro rank_read) (auto simp: dopr_step_def split: if_splits Option.bind_splits dest!: next_ch_rank took_Some)
  next
    case DP_S_CONV
    then show ?thesis using assms(2) False
      by (intro rank_read)
        (auto simp: dopr_step_def split: Option.bind_splits dest!: next_ch_rank conv_switch_format)
  next
    case DP_S_MOD
    then show ?thesis using assms(2) False by (intro mod_switch_rank) (auto simp: dopr_step_def)
  qed (use assms False in \<open>auto simp: dopr_step_def dopr_rank_def split: if_splits option.splits Option.bind_splits
        dest!: next_ch_Some\<close>)
qed

section \<open>The loop and the functions on top\<close>

function dopr_loop :: "(rat \<Rightarrow> rat) \<Rightarrow> nat \<Rightarrow> dopr \<Rightarrow> dopr option" where
  "dopr_loop rnd m d =
     (if d_state d = DP_S_DONE then Some d
      else (case dopr_step rnd m d of None \<Rightarrow> None | Some d' \<Rightarrow> dopr_loop rnd m d'))"
  by pat_completeness auto
termination
  by (relation "measure (\<lambda>(_, _, d). dopr_rank d)") (auto dest: dopr_step_rank)

declare dopr_loop.simps [simp del]

text \<open>
  The result is the return value, the buffer and what \<open>%n\<close> stored. The terminating nul goes behind
  the text or to the last byte; \<open>maxlen - 1\<close> is computed in \<open>size_t\<close>.
\<close>

definition dopr_start :: "bytes option \<Rightarrow> bytes \<Rightarrow> va_arg list \<Rightarrow> dopr" where
  "dopr_start buffer format args = \<lparr>d_ch = NUL, d_format = format, d_args = args, d_state = DP_S_DEFAULT,
     d_flags = {}, d_cflags = DP_C_NONE, d_min = 0, d_max = -1, d_total = 0,
     d_out = \<lparr>o_buf = buffer, o_cur = 0\<rparr>, d_stores = []\<rparr>"

definition dopr ::
  "(rat \<Rightarrow> rat) \<Rightarrow> bytes option \<Rightarrow> nat \<Rightarrow> bytes \<Rightarrow> va_arg list
    \<Rightarrow> (int \<times> bytes option \<times> (nat \<times> int) list) option" where
  "dopr rnd buffer maxlen format args = do {
     d \<leftarrow> next_ch (dopr_start buffer format args);
     d \<leftarrow> dopr_loop rnd maxlen d;
     let last = (if maxlen = 0 then SIZE_MAX else maxlen - 1);
     if d_total d > INT_MAX then None
     else (case o_buf (d_out d) of None \<Rightarrow> Some (d_total d, None, d_stores d)
           | Some b \<Rightarrow>
               map_option (\<lambda>b. (d_total d, Some b, d_stores d))
                 (mem_write b (if o_cur (d_out d) < last then o_cur (d_out d) else last) [NUL]))
   }"

definition vsnprintf ::
  "(rat \<Rightarrow> rat) \<Rightarrow> bytes option \<Rightarrow> nat \<Rightarrow> bytes \<Rightarrow> va_arg list
    \<Rightarrow> (int \<times> bytes option \<times> (nat \<times> int) list) option" where
  "vsnprintf rnd str count fmt args = do {
     str \<leftarrow> (case str of None \<Rightarrow> Some None | Some b \<Rightarrow> map_option Some (mem_write b 0 [NUL]));
     dopr rnd str count fmt args }"

definition snprintf ::
  "(rat \<Rightarrow> rat) \<Rightarrow> bytes option \<Rightarrow> nat \<Rightarrow> bytes \<Rightarrow> va_arg list
    \<Rightarrow> (int \<times> bytes option \<times> (nat \<times> int) list) option" where
  "snprintf rnd str count fmt ap = vsnprintf rnd str count fmt ap"

end
