(* ===== verification/Printf.thy ===== *)
theory Printf
  imports Dopr
begin

text \<open>
  What the state machine of \<open>dopr\<close> prints. A format is a list of items: literal characters and
  directives with their flags, width, precision, modifier and conversion. \<open>unparse\<close> writes the list
  as a format string; \<open>denote\<close> is the text that C99 asks for, or \<open>None\<close> where the code does not do
  what C99 says or the standard leaves the behaviour undefined. The result of this theory is that
  \<open>vsnprintf\<close> prints that text and stores as much of it as fits.
\<close>

section \<open>Formats\<close>

datatype amount = Omitted | Fixed nat | Star

datatype item = Lit byte | Dir "pflag list" amount amount cflag byte

fun flag_char :: "pflag \<Rightarrow> byte" where
  "flag_char DP_F_MINUS = CHR ''-''"
| "flag_char DP_F_PLUS = CHR ''+''"
| "flag_char DP_F_SPACE = CHR '' ''"
| "flag_char DP_F_NUM = CHR ''#''"
| "flag_char _ = CHR ''0''"

fun amount_text :: "amount \<Rightarrow> string" where
  "amount_text Omitted = ''''"
| "amount_text (Fixed n) = show_nat n"
| "amount_text Star = ''*''"

definition prec_text :: "amount \<Rightarrow> string" where
  "prec_text pr = (if pr = Omitted then '''' else ''.'' @ amount_text pr)"

fun mod_text :: "cflag \<Rightarrow> string" where
  "mod_text DP_C_NONE = ''''"
| "mod_text DP_C_SHORT = ''h''"
| "mod_text DP_C_LONG = ''l''"
| "mod_text DP_C_LLONG = ''ll''"
| "mod_text DP_C_LDOUBLE = ''L''"

fun unparse_item :: "item \<Rightarrow> string" where
  "unparse_item (Lit c) = [c]"
| "unparse_item (Dir fl wd pr md cv) =
     ''%'' @ map flag_char fl @ amount_text wd @ prec_text pr @ mod_text md @ [cv]"

definition unparse :: "item list \<Rightarrow> string" where
  "unparse its = concat (map unparse_item its)"

definition conversions :: string where
  "conversions = ''diouxXfcs%''"

fun amount_ok :: "nat \<Rightarrow> amount \<Rightarrow> bool" where
  "amount_ok least (Fixed n) = (least \<le> n \<and> int n \<le> INT_MAX)"
| "amount_ok least _ = True"

fun item_ok :: "item \<Rightarrow> bool" where
  "item_ok (Lit c) = (c \<noteq> CHR ''%'' \<and> c \<noteq> NUL)"
| "item_ok (Dir fl wd pr md cv) =
     (set fl \<subseteq> {DP_F_MINUS, DP_F_PLUS, DP_F_SPACE, DP_F_NUM, DP_F_ZERO}
      \<and> amount_ok 1 wd \<and> amount_ok 0 pr \<and> cv \<in> set conversions)"

section \<open>What a format means\<close>

fun amount_value :: "int \<Rightarrow> amount \<Rightarrow> va_arg list \<Rightarrow> (int \<times> va_arg list) option" where
  "amount_value omitted Omitted args = Some (omitted, args)"
| "amount_value omitted (Fixed n) args = Some (int n, args)"
| "amount_value omitted Star args = va_int args"

definition guard :: "bool \<Rightarrow> 'a \<Rightarrow> 'a option" where
  "guard b x = (if b then Some x else None)"

definition int_text :: "pflag set \<Rightarrow> nat \<Rightarrow> int \<Rightarrow> int \<Rightarrow> u64 \<Rightarrow> string option" where
  "int_text flags base width prec x =
     guard (c99_plain flags prec (int_value flags x) \<and> (DP_F_UNSIGNED \<notin> flags \<longrightarrow> sint x \<noteq> - (2 ^ 63)))
       (c99_int flags base width prec (int_value flags x))"

definition fp_text :: "(rat \<Rightarrow> rat) \<Rightarrow> pflag set \<Rightarrow> int \<Rightarrow> int \<Rightarrow> rat \<Rightarrow> string option" where
  "fp_text rnd flags width prec x =
     (let p = nat (if prec < 0 then 6 else prec)
      in guard (fp_plain flags p (x < 0) \<and> rnd \<bar>x\<bar> = \<bar>x\<bar> \<and> \<bar>x\<bar> < 2 ^ 63 - 1)
           (c99_fixed flags width p (x < 0) (scaled rnd p x)))"

text \<open>One directive: the width and the precision are known, the arguments are those that follow.\<close>

definition dir_text ::
  "(rat \<Rightarrow> rat) \<Rightarrow> pflag set \<Rightarrow> int \<Rightarrow> int \<Rightarrow> cflag \<Rightarrow> byte \<Rightarrow> va_arg list
    \<Rightarrow> (string \<times> va_arg list) option" where
  "dir_text rnd flags width prec md cv args =
     (if cv \<in> {CHR ''d'', CHR ''i''} then do {
        (x, args) \<leftarrow> va_signed md args;
        t \<leftarrow> int_text flags 10 width prec x;
        Some (t, args) }
      else if cv \<in> {CHR ''o'', CHR ''u'', CHR ''x'', CHR ''X''} then do {
        (x, args) \<leftarrow> va_unsigned md args;
        t \<leftarrow> int_text (insert DP_F_UNSIGNED (if cv = CHR ''X'' then insert DP_F_UP flags else flags))
               (if cv = CHR ''o'' then 8 else if cv = CHR ''u'' then 10 else 16) width prec x;
        Some (t, args) }
      else if cv = CHR ''f'' then do {
        (x, args) \<leftarrow> va_fp md args;
        t \<leftarrow> fp_text rnd flags width prec x;
        Some (t, args) }
      else if cv = CHR ''c'' then
        (case args of VInt x # args \<Rightarrow> guard (width = 0) ([char_of (unat x)], args) | _ \<Rightarrow> None)
      else if cv = CHR ''s'' then
        (case args of VStr (Some mem) # args \<Rightarrow>
           guard (str_readable prec mem \<and> int (length (str_part prec mem)) \<le> INT_MAX)
             (c99_str flags width prec mem, args) | _ \<Rightarrow> None)
      else Some (''%'', args))"

fun item_text :: "(rat \<Rightarrow> rat) \<Rightarrow> item \<Rightarrow> va_arg list \<Rightarrow> (string \<times> va_arg list) option" where
  "item_text rnd (Lit c) args = Some ([c], args)"
| "item_text rnd (Dir fl wd pr md cv) args = do {
     (width, args) \<leftarrow> amount_value 0 wd args;
     (prec, args) \<leftarrow> amount_value (-1) pr args;
     if width < 0 then None else dir_text rnd (set fl) width prec md cv args }"

fun denote :: "(rat \<Rightarrow> rat) \<Rightarrow> item list \<Rightarrow> va_arg list \<Rightarrow> string option" where
  "denote rnd [] args = Some ''''"
| "denote rnd (it # its) args = do {
     (t, args) \<leftarrow> item_text rnd it args;
     r \<leftarrow> denote rnd its args;
     Some (t @ r) }"

section \<open>The state machine reads a format\<close>

abbreviation cfg :: "bytes \<Rightarrow> va_arg list \<Rightarrow> dp_state \<Rightarrow> pflag set \<Rightarrow> cflag \<Rightarrow> int \<Rightarrow> int \<Rightarrow> int \<Rightarrow> out
    \<Rightarrow> (nat \<times> int) list \<Rightarrow> dopr" where
  "cfg s args st fl cf mn mx tot w ns \<equiv> \<lparr>d_ch = hd s, d_format = tl s, d_args = args, d_state = st,
     d_flags = fl, d_cflags = cf, d_min = mn, d_max = mx, d_total = tot, d_out = w, d_stores = ns\<rparr>"

lemma loop_step:
  "d_state d \<noteq> DP_S_DONE \<Longrightarrow> dopr_step rnd m d = Some d' \<Longrightarrow> dopr_loop rnd m d = dopr_loop rnd m d'"
  by (subst dopr_loop.simps) simp

lemma next_cfg:
  "s \<noteq> [] \<Longrightarrow> next_ch (cfg (c # s) args st fl cf mn mx tot w ns) = Some (cfg s args st fl cf mn mx tot w ns)"
  by (cases s) (auto simp: next_ch_def)

lemma read_percent:
  "s \<noteq> [] \<Longrightarrow> dopr_loop rnd m (cfg (CHR ''%'' # s) args DP_S_DEFAULT fl cf mn mx tot w ns)
     = dopr_loop rnd m (cfg s args DP_S_FLAGS fl cf mn mx tot w ns)"
  by (rule loop_step) (use next_cfg[of s "CHR ''%''"] in \<open>auto simp: dopr_step_def\<close>)

lemma flag_char_of:
  "f \<in> {DP_F_MINUS, DP_F_PLUS, DP_F_SPACE, DP_F_NUM, DP_F_ZERO} \<Longrightarrow> flag_of (flag_char f) = Some f \<and> flag_char f \<noteq> NUL"
  by (auto simp: flag_of_def)

lemma read_flags:
  "set fs \<subseteq> {DP_F_MINUS, DP_F_PLUS, DP_F_SPACE, DP_F_NUM, DP_F_ZERO} \<Longrightarrow> s \<noteq> [] \<Longrightarrow>
   dopr_loop rnd m (cfg (map flag_char fs @ s) args DP_S_FLAGS fl cf mn mx tot w ns)
     = dopr_loop rnd m (cfg s args DP_S_FLAGS (fl \<union> set fs) cf mn mx tot w ns)"
proof (induction fs arbitrary: fl)
  case (Cons f fs)
  have f: "flag_of (flag_char f) = Some f" "flag_char f \<noteq> NUL" using flag_char_of[of f] Cons.prems(1) by auto
  have "dopr_loop rnd m (cfg (map flag_char (f # fs) @ s) args DP_S_FLAGS fl cf mn mx tot w ns)
      = dopr_loop rnd m (cfg (map flag_char fs @ s) args DP_S_FLAGS (insert f fl) cf mn mx tot w ns)"
    by (rule loop_step) (use f Cons.prems(2) next_cfg[of "map flag_char fs @ s" "flag_char f"] in \<open>auto simp: dopr_step_def\<close>)
  with Cons show ?case by simp
qed simp

lemma end_flags:
  "flag_of (hd s) = None \<Longrightarrow> hd s \<noteq> NUL \<Longrightarrow>
   dopr_loop rnd m (cfg s args DP_S_FLAGS fl cf mn mx tot w ns)
     = dopr_loop rnd m (cfg s args DP_S_MIN fl cf mn mx tot w ns)"
  by (rule loop_step) (auto simp: dopr_step_def)

abbreviation more_digits :: "nat \<Rightarrow> string \<Rightarrow> nat" where
  "more_digits \<equiv> foldl (\<lambda>a c. 10 * a + digit_val c)"

lemma more_digits_ge: "n \<le> more_digits n ds"
proof (induction ds arbitrary: n)
  case (Cons c ds)
  have "10 * n + digit_val c \<le> more_digits (10 * n + digit_val c) ds" by (rule Cons.IH)
  then show ?case by simp
qed simp

lemma add_digit_int: "int (10 * n + digit_val c) \<le> INT_MAX \<Longrightarrow> add_digit (int n) c = Some (int (10 * n + digit_val c))"
  by (simp add: add_digit_def)

lemma isdigit_NUL: "c_isdigit c \<Longrightarrow> c \<noteq> NUL"
  by auto

lemma read_width:
  "\<forall>c \<in> set ds. c_isdigit c \<Longrightarrow> s \<noteq> [] \<Longrightarrow> int (more_digits n ds) \<le> INT_MAX \<Longrightarrow>
   dopr_loop rnd m (cfg (ds @ s) args DP_S_MIN fl cf (int n) mx tot w ns)
     = dopr_loop rnd m (cfg s args DP_S_MIN fl cf (int (more_digits n ds)) mx tot w ns)"
proof (induction ds arbitrary: n)
  case (Cons c ds)
  have le: "int (10 * n + digit_val c) \<le> INT_MAX"
    using Cons.prems(3) more_digits_ge[of "10 * n + digit_val c" ds] by simp
  have c: "c_isdigit c" using Cons.prems(1) by simp
  have "dopr_step rnd m (cfg ((c # ds) @ s) args DP_S_MIN fl cf (int n) mx tot w ns)
      = Some (cfg (ds @ s) args DP_S_MIN fl cf (int (10 * n + digit_val c)) mx tot w ns)"
    using c isdigit_NUL[OF c] add_digit_int[OF le] Cons.prems(2)
      next_cfg[of "ds @ s" c args DP_S_MIN fl cf "int (10 * n + digit_val c)"]
    by (simp add: dopr_step_def)
  then have "dopr_loop rnd m (cfg ((c # ds) @ s) args DP_S_MIN fl cf (int n) mx tot w ns)
      = dopr_loop rnd m (cfg (ds @ s) args DP_S_MIN fl cf (int (10 * n + digit_val c)) mx tot w ns)"
    by (intro loop_step) auto
  with Cons.IH[of "10 * n + digit_val c"] Cons.prems show ?case by simp
qed simp

lemma read_prec_step:
  "c_isdigit c \<Longrightarrow> s \<noteq> [] \<Longrightarrow> (if mx < 0 then 0 else mx) = int n \<Longrightarrow> int (10 * n + digit_val c) \<le> INT_MAX \<Longrightarrow>
   dopr_loop rnd m (cfg (c # s) args DP_S_MAX fl cf mn mx tot w ns)
     = dopr_loop rnd m (cfg s args DP_S_MAX fl cf mn (int (10 * n + digit_val c)) tot w ns)"
proof -
  assume a: "c_isdigit c" "s \<noteq> []" "(if mx < 0 then 0 else mx) = int n" "int (10 * n + digit_val c) \<le> INT_MAX"
  have "dopr_step rnd m (cfg (c # s) args DP_S_MAX fl cf mn mx tot w ns)
      = Some (cfg s args DP_S_MAX fl cf mn (int (10 * n + digit_val c)) tot w ns)"
    using a(1,2) isdigit_NUL[OF a(1)] add_digit_int[OF a(4)]
      next_cfg[of s c args DP_S_MAX fl cf mn "int (10 * n + digit_val c)"]
    by (cases "mx < 0") (use a(3) in \<open>auto simp: dopr_step_def\<close>)
  then show ?thesis by (intro loop_step) auto
qed

lemma read_prec:
  "\<forall>c \<in> set ds. c_isdigit c \<Longrightarrow> ds \<noteq> [] \<Longrightarrow> s \<noteq> [] \<Longrightarrow> int (more_digits n ds) \<le> INT_MAX \<Longrightarrow>
   (if mx < 0 then 0 else mx) = int n \<Longrightarrow>
   dopr_loop rnd m (cfg (ds @ s) args DP_S_MAX fl cf mn mx tot w ns)
     = dopr_loop rnd m (cfg s args DP_S_MAX fl cf mn (int (more_digits n ds)) tot w ns)"
proof (induction ds arbitrary: n mx)
  case (Cons c ds)
  have le: "int (10 * n + digit_val c) \<le> INT_MAX"
    using Cons.prems(4) more_digits_ge[of "10 * n + digit_val c" ds] by simp
  have "dopr_loop rnd m (cfg ((c # ds) @ s) args DP_S_MAX fl cf mn mx tot w ns)
      = dopr_loop rnd m (cfg (ds @ s) args DP_S_MAX fl cf mn (int (10 * n + digit_val c)) tot w ns)"
    using read_prec_step[of c "ds @ s" mx n] Cons.prems(1,3,5) le by simp
  with Cons.IH[of "10 * n + digit_val c" "int (10 * n + digit_val c)"] Cons.prems
  show ?case by (cases "ds = []") simp_all
qed simp

text \<open>The star, and the ends of the width and the precision.\<close>

lemma read_star:
  assumes "s \<noteq> []" "va_int args = Some (v, args')"
  shows "dopr_loop rnd m (cfg (CHR ''*'' # s) args DP_S_MIN fl cf mn mx tot w ns)
           = dopr_loop rnd m (cfg s args' DP_S_DOT fl cf v mx tot w ns)"
    and "dopr_loop rnd m (cfg (CHR ''*'' # s) args DP_S_MAX fl cf mn mx tot w ns)
           = dopr_loop rnd m (cfg s args' DP_S_MOD fl cf mn v tot w ns)"
  by (rule loop_step; use assms next_cfg[OF assms(1), of "CHR ''*''"] in
      \<open>auto simp: dopr_step_def c_isdigit_def\<close>)+

lemma end_amount:
  assumes "\<not> c_isdigit (hd s)" "hd s \<noteq> CHR ''*''" "hd s \<noteq> NUL"
  shows "dopr_loop rnd m (cfg s args DP_S_MIN fl cf mn mx tot w ns)
           = dopr_loop rnd m (cfg s args DP_S_DOT fl cf mn mx tot w ns)"
    and "dopr_loop rnd m (cfg s args DP_S_MAX fl cf mn mx tot w ns)
           = dopr_loop rnd m (cfg s args DP_S_MOD fl cf mn mx tot w ns)"
  by (rule loop_step; use assms in \<open>auto simp: dopr_step_def\<close>)+

lemma read_dot:
  "s \<noteq> [] \<Longrightarrow> dopr_loop rnd m (cfg (CHR ''.'' # s) args DP_S_DOT fl cf mn mx tot w ns)
     = dopr_loop rnd m (cfg s args DP_S_MAX fl cf mn mx tot w ns)"
  by (rule loop_step) (use next_cfg[of s "CHR ''.''"] in \<open>auto simp: dopr_step_def\<close>)

lemma no_dot:
  "hd s \<noteq> CHR ''.'' \<Longrightarrow> hd s \<noteq> NUL \<Longrightarrow> dopr_loop rnd m (cfg s args DP_S_DOT fl cf mn mx tot w ns)
     = dopr_loop rnd m (cfg s args DP_S_MOD fl cf mn mx tot w ns)"
  by (rule loop_step) (auto simp: dopr_step_def)

lemma read_mod:
  assumes "s \<noteq> []" and cv: "cv \<in> set conversions"
  shows "dopr_loop rnd m (cfg (mod_text md @ cv # s) args DP_S_MOD fl DP_C_NONE mn mx tot w ns)
           = dopr_loop rnd m (cfg (cv # s) args DP_S_CONV fl md mn mx tot w ns)"
proof -
  have c: "cv \<noteq> CHR ''h''" "cv \<noteq> CHR ''l''" "cv \<noteq> CHR ''L''" "cv \<noteq> NUL"
    using cv by (auto simp: conversions_def)
  have l: "dopr_loop rnd m (cfg (CHR ''l'' # t) args DP_S_MOD fl DP_C_NONE mn mx tot w ns)
      = dopr_loop rnd m (cfg t args DP_S_MOD_L fl DP_C_LONG mn mx tot w ns)" if "t \<noteq> []" for t
    by (rule loop_step) (use next_cfg[OF that, of "CHR ''l''"] in \<open>auto simp: dopr_step_def mod_switch_def\<close>)
  show ?thesis
  proof (cases md)
    case DP_C_NONE
    then show ?thesis by (intro loop_step) (use c in \<open>auto simp: dopr_step_def mod_switch_def\<close>)
  next
    case DP_C_SHORT
    then show ?thesis
      by (intro loop_step) (use next_cfg[of "cv # s" "CHR ''h''"] in \<open>auto simp: dopr_step_def mod_switch_def\<close>)
  next
    case DP_C_LDOUBLE
    then show ?thesis
      by (intro loop_step) (use next_cfg[of "cv # s" "CHR ''L''"] in \<open>auto simp: dopr_step_def mod_switch_def\<close>)
  next
    case DP_C_LONG
    have "dopr_loop rnd m (cfg (cv # s) args DP_S_MOD_L fl DP_C_LONG mn mx tot w ns)
        = dopr_loop rnd m (cfg (cv # s) args DP_S_CONV fl DP_C_LONG mn mx tot w ns)"
      by (rule loop_step) (use c in \<open>auto simp: dopr_step_def\<close>)
    with l[of "cv # s"] DP_C_LONG show ?thesis by simp
  next
    case DP_C_LLONG
    have "dopr_loop rnd m (cfg (CHR ''l'' # cv # s) args DP_S_MOD_L fl DP_C_LONG mn mx tot w ns)
        = dopr_loop rnd m (cfg (cv # s) args DP_S_CONV fl DP_C_LLONG mn mx tot w ns)"
      by (rule loop_step) (use next_cfg[of "cv # s" "CHR ''l''"] in \<open>auto simp: dopr_step_def\<close>)
    with l[of "CHR ''l'' # cv # s"] DP_C_LLONG show ?thesis by simp
  qed
qed

section \<open>A directive\<close>

text \<open>The first character of what follows decides when each part ends.\<close>

lemma flag_of_None: "flag_of c = None \<longleftrightarrow> c \<notin> set ''-+ #0''"
  by (auto simp: flag_of_def)

definition after_mod :: "byte \<Rightarrow> bool" where
  "after_mod c \<longleftrightarrow> \<not> c_isdigit c \<and> c \<noteq> CHR ''*'' \<and> c \<noteq> NUL \<and> flag_of c = None \<and> c \<noteq> CHR ''.''"

lemma conversion_head: "cv \<in> set conversions \<Longrightarrow> after_mod cv"
  by (auto simp: conversions_def after_mod_def flag_of_None c_isdigit_def)

lemma mod_head: "cv \<in> set conversions \<Longrightarrow> after_mod (hd (mod_text md @ cv # s))"
  using conversion_head by (cases md) (auto simp: after_mod_def flag_of_None c_isdigit_def)

lemma hd_show_nat: "0 < n \<Longrightarrow> c_isdigit (hd (show_nat n)) \<and> hd (show_nat n) \<noteq> CHR ''0''"
proof (induction n rule: show_nat.induct)
  case (1 n)
  have d0: "digit_val (CHR ''0'') = 0" by (simp add: digit_val_def)
  show ?case
  proof (cases "n < 10")
    case True
    then have "digit_char n \<noteq> CHR ''0''" using 1(2) d0 by (metis digit_val_char less_numeral_extra(3))
    with True show ?thesis
      by (subst (1 2) show_nat.simps) (simp add: digit_char_isdigit)
  next
    case False
    then show ?thesis using 1 by (subst (1 2) show_nat.simps) (simp add: hd_append)
  qed
qed

lemma digit_head:
  assumes "c_isdigit c" "c \<noteq> CHR ''0''"
  shows "flag_of c = None" "c \<noteq> NUL"
  using assms by (auto simp: flag_of_None c_isdigit_def)

lemma more_digits_show_nat: "more_digits 0 (show_nat n) = n"
  using digits_val_show_nat[of n] by (simp add: digits_val_def)

lemma read_precision:
  assumes v: "amount_value (-1) pr args = Some (v, args')" and ok: "amount_ok 0 pr" and cv: "cv \<in> set conversions"
  shows "dopr_loop rnd m (cfg (prec_text pr @ mod_text md @ cv # s) args DP_S_DOT fl cf mn (-1) tot w ns)
    = dopr_loop rnd m (cfg (mod_text md @ cv # s) args' DP_S_MOD fl cf mn v tot w ns)"
proof -
  let ?t = "mod_text md @ cv # s"
  have h: "\<not> c_isdigit (hd ?t)" "hd ?t \<noteq> CHR ''*''" "hd ?t \<noteq> NUL" "hd ?t \<noteq> CHR ''.''"
    using mod_head[OF cv, of md s] by (auto simp: after_mod_def)
  have ne: "?t \<noteq> []" by simp
  show ?thesis
  proof (cases pr)
    case Omitted
    then show ?thesis using v no_dot[OF h(4,3)] by (simp add: prec_text_def)
  next
    case (Fixed n)
    have "dopr_loop rnd m (cfg (show_nat n @ ?t) args DP_S_MAX fl cf mn (-1) tot w ns)
        = dopr_loop rnd m (cfg ?t args DP_S_MAX fl cf mn (int n) tot w ns)"
      using read_prec[OF show_nat_digits _ ne, of n 0 "-1"] ok Fixed by (simp add: more_digits_show_nat)
    then show ?thesis
      using v Fixed read_dot[of "show_nat n @ ?t"] end_amount(2)[OF h(1-3)] by (simp add: prec_text_def)
  next
    case Star
    then show ?thesis using v read_dot[of "CHR ''*'' # ?t"] read_star(2)[OF ne] by (simp add: prec_text_def)
  qed
qed

lemma prec_head:
  assumes "cv \<in> set conversions"
  shows "\<not> c_isdigit (hd (prec_text pr @ mod_text md @ cv # s))" "hd (prec_text pr @ mod_text md @ cv # s) \<noteq> CHR ''*''"
    "hd (prec_text pr @ mod_text md @ cv # s) \<noteq> NUL" "flag_of (hd (prec_text pr @ mod_text md @ cv # s)) = None"
  using mod_head[OF assms, of md s] by (auto simp: prec_text_def after_mod_def flag_of_None c_isdigit_def)

lemma read_directive:
  assumes ok: "item_ok (Dir fl wd pr md cv)" and s: "s \<noteq> []"
    and wd: "amount_value 0 wd args = Some (width, args1)"
    and pr: "amount_value (-1) pr args1 = Some (prec, args2)"
  shows "dopr_loop rnd m (cfg (unparse_item (Dir fl wd pr md cv) @ s) args DP_S_DEFAULT {} DP_C_NONE 0 (-1) tot w ns)
    = dopr_loop rnd m (cfg (cv # s) args2 DP_S_CONV (set fl) md width prec tot w ns)"
proof -
  let ?t = "prec_text pr @ mod_text md @ cv # s"
  have fl: "set fl \<subseteq> {DP_F_MINUS, DP_F_PLUS, DP_F_SPACE, DP_F_NUM, DP_F_ZERO}" and cv: "cv \<in> set conversions"
    and amt: "amount_ok 1 wd" "amount_ok 0 pr"
    using ok by auto
  note h = prec_head[OF cv, of pr md s]
  have ne: "?t \<noteq> []" by simp
  have head: "flag_of (hd (amount_text wd @ ?t)) = None" "hd (amount_text wd @ ?t) \<noteq> NUL"
    using h amt(1) digit_head hd_show_nat by (cases wd; auto simp: flag_of_None)+
  have "dopr_loop rnd m (cfg (unparse_item (Dir fl wd pr md cv) @ s) args DP_S_DEFAULT {} DP_C_NONE 0 (-1) tot w ns)
      = dopr_loop rnd m (cfg (amount_text wd @ ?t) args DP_S_MIN (set fl) DP_C_NONE 0 (-1) tot w ns)"
    using read_percent[of "map flag_char fl @ amount_text wd @ ?t"]
      read_flags[OF fl, of "amount_text wd @ ?t"] end_flags[OF head]
    by simp
  also have "\<dots> = dopr_loop rnd m (cfg ?t args1 DP_S_DOT (set fl) DP_C_NONE width (-1) tot w ns)"
  proof (cases wd)
    case Omitted
    then show ?thesis using wd end_amount(1)[OF h(1-3)] by simp
  next
    case (Fixed n)
    have "dopr_loop rnd m (cfg (show_nat n @ ?t) args DP_S_MIN (set fl) DP_C_NONE (int 0) (-1) tot w ns)
        = dopr_loop rnd m (cfg ?t args DP_S_MIN (set fl) DP_C_NONE (int n) (-1) tot w ns)"
      using read_width[OF show_nat_digits ne, of 0 n] amt Fixed by (simp add: more_digits_show_nat)
    then show ?thesis using wd Fixed end_amount(1)[OF h(1-3)] by simp
  next
    case Star
    then show ?thesis using wd read_star(1)[OF ne] by simp
  qed
  also have "\<dots> = dopr_loop rnd m (cfg (mod_text md @ cv # s) args2 DP_S_MOD (set fl) DP_C_NONE width prec tot w ns)"
    by (rule read_precision[OF pr amt(2) cv])
  also have "\<dots> = dopr_loop rnd m (cfg (cv # s) args2 DP_S_CONV (set fl) md width prec tot w ns)"
    by (rule read_mod[OF s cv])
  finally show ?thesis .
qed

section \<open>A conversion\<close>

lemma guard_Some: "guard b x = Some y \<longleftrightarrow> b \<and> x = y"
  by (auto simp: guard_def)

lemma fmtint_put:
  assumes "int_text flags base mn mx x = Some t" "base \<in> {8, 10, 16}" "0 \<le> mn" "mn \<le> INT_MAX" "mx \<le> INT_MAX"
    and "out_fits m w"
  shows "fmtint m x base mn mx flags w = Some (int (length t), put m t w)"
proof -
  have t: "c99_plain flags mx (int_value flags x)" "DP_F_UNSIGNED \<notin> flags \<longrightarrow> sint x \<noteq> - (2 ^ 63)"
    "t = c99_int flags base mn mx (int_value flags x)"
    using assms(1) unfolding int_text_def guard_Some by auto
  show ?thesis
    unfolding fmtint_c99[OF assms(2) t(1) assms(3-5) t(2)] emit_put[OF assms(6)] t(3) by simp
qed

lemma fmtfp_default:
  assumes "mx < 0"
  shows "fmtfp rnd m x mn mx flags w = fmtfp rnd m x mn 6 flags w"
proof -
  have "fp_convert rnd x mx flags = fp_convert rnd x 6 flags"
    unfolding fp_convert_def if_P[OF assms] if_cancel ..
  then show ?thesis unfolding fmtfp_def by (simp only:)
qed

lemma fmtfp_put:
  assumes "rounding rnd" "fp_text rnd flags mn mx x = Some t" "0 \<le> mn" "mn \<le> INT_MAX" "out_fits m w"
  shows "fmtfp rnd m x mn mx flags w = Some (int (length t), put m t w)"
proof -
  define p where "p = nat (if mx < 0 then 6 else mx)"
  have t: "fp_plain flags p (x < 0)" "rnd \<bar>x\<bar> = \<bar>x\<bar>" "\<bar>x\<bar> < 2 ^ 63 - 1"
    "t = c99_fixed flags mn p (x < 0) (scaled rnd p x)"
    using assms(2) by (auto simp: fp_text_def Let_def guard_Some p_def)
  have "fmtfp rnd m x mn mx flags w = fmtfp rnd m x mn (int p) flags w"
    using fmtfp_default[of mx] by (auto simp: p_def)
  then show ?thesis using fmtfp_c99[OF assms(1) t(2,3,1) assms(3,4), of m w] assms(5) t(4) by (simp add: emit_put)
qed

text \<open>Which branch of the switch a conversion takes.\<close>

lemma conv_switch_branches:
  "cv \<in> {CHR ''d'', CHR ''i''} \<Longrightarrow> d_ch d = cv \<Longrightarrow> conv_switch rnd m d = conv_signed m d"
  "cv \<in> {CHR ''o'', CHR ''u'', CHR ''x'', CHR ''X''} \<Longrightarrow> d_ch d = cv \<Longrightarrow> conv_switch rnd m d =
     conv_unsigned m (if cv = CHR ''o'' then 8 else if cv = CHR ''u'' then 10 else 16)
       (if cv = CHR ''X'' then insert DP_F_UP (d_flags d) else d_flags d) d"
  "d_ch d = CHR ''f'' \<Longrightarrow> conv_switch rnd m d = conv_fp rnd m (d_max d) (d_flags d) d"
  "d_ch d = CHR ''c'' \<Longrightarrow> d_args d = VInt x # args \<Longrightarrow>
     conv_switch rnd m d = took d args (dopr_outch m (char_of (unat x)) (d_out d))"
  "d_ch d = CHR ''s'' \<Longrightarrow> d_args d = VStr p # args \<Longrightarrow>
     conv_switch rnd m d = took d args (fmtstr m p (d_flags d) (d_min d) (d_max d) (d_out d))"
  "d_ch d = CHR ''%'' \<Longrightarrow> conv_switch rnd m d = took d (d_args d) (dopr_outch m (CHR ''%'') (d_out d))"
proof -
  show "conv_switch rnd m d = conv_signed m d" if "cv \<in> {CHR ''d'', CHR ''i''}" "d_ch d = cv"
    using that by (simp add: conv_switch_def Let_def)
  show "conv_switch rnd m d =
     conv_unsigned m (if cv = CHR ''o'' then 8 else if cv = CHR ''u'' then 10 else 16)
       (if cv = CHR ''X'' then insert DP_F_UP (d_flags d) else d_flags d) d"
    if "cv \<in> {CHR ''o'', CHR ''u'', CHR ''x'', CHR ''X''}" "d_ch d = cv"
    using that(1) by (elim insertE emptyE) (simp_all add: conv_switch_def Let_def that(2))
qed (simp_all add: conv_switch_def)

lemma dir_text_branches:
  "cv \<in> {CHR ''d'', CHR ''i''} \<Longrightarrow> dir_text rnd fl mn mx md cv args =
     Option.bind (va_signed md args) (\<lambda>(x, args). map_option (\<lambda>t. (t, args)) (int_text fl 10 mn mx x))"
  "cv \<in> {CHR ''o'', CHR ''u'', CHR ''x'', CHR ''X''} \<Longrightarrow> dir_text rnd fl mn mx md cv args =
     Option.bind (va_unsigned md args) (\<lambda>(x, args). map_option (\<lambda>t. (t, args))
       (int_text (insert DP_F_UNSIGNED (if cv = CHR ''X'' then insert DP_F_UP fl else fl))
          (if cv = CHR ''o'' then 8 else if cv = CHR ''u'' then 10 else 16) mn mx x))"
  "dir_text rnd fl mn mx md (CHR ''f'') args =
     Option.bind (va_fp md args) (\<lambda>(x, args). map_option (\<lambda>t. (t, args)) (fp_text rnd fl mn mx x))"
  "dir_text rnd fl mn mx md (CHR ''c'') args =
     (case args of VInt x # args \<Rightarrow> guard (mn = 0) ([char_of (unat x)], args) | _ \<Rightarrow> None)"
  "dir_text rnd fl mn mx md (CHR ''s'') args =
     (case args of VStr (Some mem) # args \<Rightarrow>
        guard (str_readable mx mem \<and> int (length (str_part mx mem)) \<le> INT_MAX) (c99_str fl mn mx mem, args)
      | _ \<Rightarrow> None)"
  "dir_text rnd fl mn mx md (CHR ''%'') args = Some (''%'', args)"
proof -
  have bm: "Option.bind r (\<lambda>t. Some (t, a)) = map_option (\<lambda>t. (t, a)) r" for r :: "string option" and a :: "va_arg list"
    by (cases r) auto
  show "dir_text rnd fl mn mx md cv args =
     Option.bind (va_signed md args) (\<lambda>(x, args). map_option (\<lambda>t. (t, args)) (int_text fl 10 mn mx x))"
    if "cv \<in> {CHR ''d'', CHR ''i''}"
    unfolding dir_text_def if_P[OF that] bm ..
  show "dir_text rnd fl mn mx md cv args =
     Option.bind (va_unsigned md args) (\<lambda>(x, args). map_option (\<lambda>t. (t, args))
       (int_text (insert DP_F_UNSIGNED (if cv = CHR ''X'' then insert DP_F_UP fl else fl))
          (if cv = CHR ''o'' then 8 else if cv = CHR ''u'' then 10 else 16) mn mx x))"
    if "cv \<in> {CHR ''o'', CHR ''u'', CHR ''x'', CHR ''X''}"
  proof -
    have "cv \<notin> {CHR ''d'', CHR ''i''}" using that by auto
    then show ?thesis unfolding dir_text_def bm using that by (simp only: if_False if_True)
  qed
  show "dir_text rnd fl mn mx md (CHR ''f'') args =
     Option.bind (va_fp md args) (\<lambda>(x, args). map_option (\<lambda>t. (t, args)) (fp_text rnd fl mn mx x))"
    unfolding dir_text_def bm by simp
qed (simp_all add: dir_text_def)

lemma conv_switch_text:
  assumes r: "rounding rnd" and t: "dir_text rnd fl mn mx md cv args = Some (t, args')"
    and cv: "cv \<in> set conversions" and b: "0 \<le> mn" "mn \<le> INT_MAX" "mx \<le> INT_MAX" and w: "out_fits m w"
  shows "conv_switch rnd m (cfg (cv # s) args DP_S_CONV fl md mn mx tot w ns)
    = Some (cfg (cv # s) args' DP_S_CONV fl md mn mx (tot + int (length t)) (put m t w) ns)"
proof -
  consider (signed) "cv \<in> {CHR ''d'', CHR ''i''}" | (unsigned) "cv \<in> {CHR ''o'', CHR ''u'', CHR ''x'', CHR ''X''}"
    | (fp) "cv = CHR ''f''" | (char) "cv = CHR ''c''" | (str) "cv = CHR ''s''" | (percent) "cv = CHR ''%''"
    using cv unfolding conversions_def list.set insert_iff empty_iff by metis
  then show ?thesis
  proof cases
    case signed
    then obtain x where x: "va_signed md args = Some (x, args')" "int_text fl 10 mn mx x = Some t"
      using t unfolding dir_text_branches(1)[OF signed] by (auto split: Option.bind_splits)
    have "fmtint m x 10 mn mx fl w = Some (int (length t), put m t w)"
      by (rule fmtint_put[OF x(2) _ b w]) simp
    then show ?thesis using x(1)
      by (simp add: conv_switch_branches(1)[OF signed] conv_signed_def took_def)
  next
    case unsigned
    define fl' where "fl' = insert DP_F_UNSIGNED (if cv = CHR ''X'' then insert DP_F_UP fl else fl)"
    define base where "base = (if cv = CHR ''o'' then 8 else if cv = CHR ''u'' then 10 else 16 :: nat)"
    obtain x where x: "va_unsigned md args = Some (x, args')" "int_text fl' base mn mx x = Some t"
      using t unfolding dir_text_branches(2)[OF unsigned] fl'_def[symmetric] base_def[symmetric]
      by (auto split: Option.bind_splits)
    have "fmtint m x base mn mx fl' w = Some (int (length t), put m t w)"
      using fmtint_put[OF x(2) _ b w] by (auto simp: base_def)
    then show ?thesis using x(1)
      by (simp add: conv_switch_branches(2)[OF unsigned] conv_unsigned_def took_def flip: base_def)
        (auto simp: fl'_def split: if_splits)
  next
    case fp
    then obtain x where x: "va_fp md args = Some (x, args')" "fp_text rnd fl mn mx x = Some t"
      using t unfolding fp dir_text_branches(3) by (auto split: Option.bind_splits)
    show ?thesis using x(1) fmtfp_put[OF r x(2) b(1,2) w]
      by (simp add: conv_switch_branches(3) fp conv_fp_def took_def)
  next
    case char
    then obtain x where "args = VInt x # args'" "t = [char_of (unat x)]"
      using t unfolding char dir_text_branches(4) by (auto simp: guard_Some split: list.splits va_arg.splits)
    then show ?thesis using outch_put[OF w] by (simp add: conv_switch_branches(4) char took_def)
  next
    case str
    then obtain mem where m: "args = VStr (Some mem) # args'" "str_readable mx mem"
      "int (length (str_part mx mem)) \<le> INT_MAX" "t = c99_str fl mn mx mem"
      using t unfolding str dir_text_branches(5)
      by (auto simp: guard_Some split: list.splits va_arg.splits option.splits)
    then show ?thesis using fmtstr_c99[OF m(2) b(1,2) m(3), of m fl w] w
      by (simp add: conv_switch_branches(5) str took_def emit_put)
  next
    case percent
    then have "t = ''%''" "args = args'" using t by (simp_all add: dir_text_branches(6))
    then show ?thesis using outch_put[OF w] by (simp add: conv_switch_branches(6) percent took_def)
  qed
qed

section \<open>A whole format\<close>

lemma va_int_le: "va_int args = Some (v, args') \<Longrightarrow> v \<le> INT_MAX"
proof -
  assume "va_int args = Some (v, args')"
  then obtain x :: u32 where "v = sint x" by (cases args rule: va_int.cases) auto
  then show ?thesis using sint_less[of x] by simp
qed

lemma amount_value_le: "amount_value d a args = Some (v, args') \<Longrightarrow> amount_ok n a \<Longrightarrow> d \<le> INT_MAX \<Longrightarrow> v \<le> INT_MAX"
  by (cases a) (auto dest: va_int_le)

lemma run_item:
  assumes r: "rounding rnd" and ok: "item_ok it" and t: "item_text rnd it args = Some (t, args')"
    and s: "s \<noteq> []" and w: "out_fits m w"
  shows "dopr_loop rnd m (cfg (unparse_item it @ s) args DP_S_DEFAULT {} DP_C_NONE 0 (-1) tot w ns)
    = dopr_loop rnd m (cfg s args' DP_S_DEFAULT {} DP_C_NONE 0 (-1) (tot + int (length t)) (put m t w) ns)"
proof (cases it)
  case (Lit c)
  have "dopr_step rnd m (cfg (c # s) args DP_S_DEFAULT {} DP_C_NONE 0 (-1) tot w ns)
      = Some (cfg s args DP_S_DEFAULT {} DP_C_NONE 0 (-1) (tot + 1) (put m [c] w) ns)"
    using ok Lit outch_put[OF w] next_cfg[OF s, of c] by (simp add: dopr_step_def took_def)
  then have "dopr_loop rnd m (cfg (c # s) args DP_S_DEFAULT {} DP_C_NONE 0 (-1) tot w ns)
      = dopr_loop rnd m (cfg s args DP_S_DEFAULT {} DP_C_NONE 0 (-1) (tot + 1) (put m [c] w) ns)"
    by (rule loop_step[rotated]) simp
  then show ?thesis using Lit t by auto
next
  case (Dir fl wd pr md cv)
  obtain width args1 prec args2 where v: "amount_value 0 wd args = Some (width, args1)"
    "amount_value (-1) pr args1 = Some (prec, args2)" "\<not> width < 0"
    "dir_text rnd (set fl) width prec md cv args2 = Some (t, args')"
    using t Dir by (auto split: Option.bind_splits if_splits)
  have b: "0 \<le> width" "width \<le> INT_MAX" "prec \<le> INT_MAX"
    using v(3) amount_value_le[OF v(1)] amount_value_le[OF v(2)] ok Dir by auto
  have cv: "cv \<in> set conversions" "cv \<noteq> NUL" using ok Dir by (auto simp: conversions_def)
  have "dopr_step rnd m (cfg (cv # s) args2 DP_S_CONV (set fl) md width prec tot w ns)
      = Some (cfg s args' DP_S_DEFAULT {} DP_C_NONE 0 (-1) (tot + int (length t)) (put m t w) ns)"
    using cv(2) conv_switch_text[OF r v(4) cv(1) b w, of s tot ns]
      next_cfg[OF s, of cv args' DP_S_CONV "set fl" md width prec "tot + int (length t)" "put m t w" ns]
    by (simp add: dopr_step_def)
  then have "dopr_loop rnd m (cfg (cv # s) args2 DP_S_CONV (set fl) md width prec tot w ns)
      = dopr_loop rnd m (cfg s args' DP_S_DEFAULT {} DP_C_NONE 0 (-1) (tot + int (length t)) (put m t w) ns)"
    by (rule loop_step[rotated]) simp
  then show ?thesis using read_directive[OF ok[unfolded Dir] s v(1,2), of rnd m tot w ns] Dir by simp
qed

lemma run_items:
  assumes "rounding rnd" "\<forall>it \<in> set its. item_ok it" "out_fits m w" "denote rnd its args = Some t"
  shows "\<exists>args'. dopr_loop rnd m (cfg (unparse its @ NUL # junk) args DP_S_DEFAULT {} DP_C_NONE 0 (-1) tot w ns)
    = Some (cfg (NUL # junk) args' DP_S_DONE {} DP_C_NONE 0 (-1) (tot + int (length t)) (put m t w) ns)"
  using assms
proof (induction its arbitrary: args tot w t)
  case Nil
  have "dopr_loop rnd m (cfg (NUL # junk) args DP_S_DEFAULT {} DP_C_NONE 0 (-1) tot w ns)
      = Some (cfg (NUL # junk) args DP_S_DONE {} DP_C_NONE 0 (-1) tot w ns)"
  proof -
    have "dopr_loop rnd m (cfg (NUL # junk) args DP_S_DEFAULT {} DP_C_NONE 0 (-1) tot w ns)
        = dopr_loop rnd m (cfg (NUL # junk) args DP_S_DONE {} DP_C_NONE 0 (-1) tot w ns)"
      by (rule loop_step) (simp_all add: dopr_step_def)
    then show ?thesis by (subst (asm) (2) dopr_loop.simps) simp
  qed
  then show ?case using Nil by (auto simp: unparse_def)
next
  case (Cons it its)
  obtain t1 args1 t2 where t: "item_text rnd it args = Some (t1, args1)" "denote rnd its args1 = Some t2" "t = t1 @ t2"
    using Cons.prems(4) by (auto split: Option.bind_splits)
  have "dopr_loop rnd m (cfg (unparse (it # its) @ NUL # junk) args DP_S_DEFAULT {} DP_C_NONE 0 (-1) tot w ns)
      = dopr_loop rnd m (cfg (unparse its @ NUL # junk) args1 DP_S_DEFAULT {} DP_C_NONE 0 (-1)
          (tot + int (length t1)) (put m t1 w) ns)"
    using run_item[OF Cons.prems(1) _ t(1) _ Cons.prems(3), of "unparse its @ NUL # junk"] Cons.prems(2)
    by (simp add: unparse_def)
  then show ?case
    using Cons.IH[OF Cons.prems(1) _ put_fits[OF Cons.prems(3)] t(2), of "tot + int (length t1)" t1] Cons.prems(2,3)
    by (simp add: t(3) put_put add.assoc)
qed

section \<open>vsnprintf\<close>

definition well_formed :: "item list \<Rightarrow> bool" where
  "well_formed its \<longleftrightarrow> (\<forall>it \<in> set its. item_ok it)"

lemma dopr_text:
  assumes "rounding rnd" "well_formed its" "denote rnd its args = Some t" "int (length t) \<le> INT_MAX"
    and w: "out_fits m \<lparr>o_buf = b, o_cur = 0\<rparr>"
  shows "dopr rnd b m (unparse its @ NUL # junk) args =
    (let w = put m t \<lparr>o_buf = b, o_cur = 0\<rparr>; last = (if m = 0 then SIZE_MAX else m - 1)
     in case o_buf w of None \<Rightarrow> Some (int (length t), None, [])
        | Some b \<Rightarrow> map_option (\<lambda>b. (int (length t), Some b, []))
                      (mem_write b (if o_cur w < last then o_cur w else last) [NUL]))"
proof -
  let ?s = "unparse its @ NUL # junk"
  have n: "next_ch (dopr_start b ?s args) = Some (cfg ?s args DP_S_DEFAULT {} DP_C_NONE 0 (-1) 0 \<lparr>o_buf = b, o_cur = 0\<rparr> [])"
    by (simp add: next_ch_def dopr_start_def neq_Nil_conv split: list.splits)
  obtain args' where l: "dopr_loop rnd m (cfg ?s args DP_S_DEFAULT {} DP_C_NONE 0 (-1) 0 \<lparr>o_buf = b, o_cur = 0\<rparr> [])
      = Some (cfg (NUL # junk) args' DP_S_DONE {} DP_C_NONE 0 (-1) (0 + int (length t)) (put m t \<lparr>o_buf = b, o_cur = 0\<rparr>) [])"
    using run_items[OF assms(1) _ w assms(3), of junk 0 "[]"] assms(2) by (auto simp: well_formed_def)
  show ?thesis unfolding dopr_def n bind.bind_lunit l using assms(4)
    by (cases "o_buf (put m t \<lparr>o_buf = b, o_cur = 0\<rparr>)") (simp_all add: Let_def)
qed

text \<open>The text that is stored: its first \<open>count - 1\<close> characters, with the nul behind them.\<close>

definition stored :: "nat \<Rightarrow> string \<Rightarrow> bytes \<Rightarrow> bytes" where
  "stored count t b = take (count - 1) t @ NUL # drop (min (length t) (count - 1) + 1) b"

lemma vsnprintf_stores:
  assumes "rounding rnd" "well_formed its" "denote rnd its args = Some t" "int (length t) \<le> INT_MAX"
    and "0 < count" "count \<le> length b"
  shows "vsnprintf rnd (Some b) count (unparse its @ NUL # junk) args
    = Some (int (length t), Some (stored count t b), [])"
proof -
  obtain c b' where b: "b = c # b'" using assms(5,6) by (cases b) auto
  have w: "out_fits count \<lparr>o_buf = Some (NUL # b'), o_cur = 0\<rparr>" using assms(5,6) b by (simp add: out_fits_def)
  have m: "mem_write b 0 [NUL] = Some (NUL # b')" by (simp add: b mem_write_def)
  define n where "n = min (length t) (count - 1)"
  have n: "length (take (count - 1) t) = n" "n < length b" "(if n < count - 1 then n else count - 1) = n"
    using assms(5,6) by (auto simp: n_def)
  have p: "put count t \<lparr>o_buf = Some (NUL # b'), o_cur = 0\<rparr>
      = \<lparr>o_buf = Some (take (count - 1) t @ drop n (NUL # b')), o_cur = n\<rparr>"
    using n(1) by (simp add: put_def room_def Let_def)
  have d: "drop (Suc n) (NUL # b') = drop (n + 1) b" by (simp add: b)
  have "mem_write (take (count - 1) t @ drop n (NUL # b')) n [NUL] = Some (stored count t b)"
    using mem_write_append[of "[NUL]" "drop n (NUL # b')" "take (count - 1) t"] n(1,2) b d
    by (simp add: stored_def n_def[symmetric])
  then show ?thesis
    unfolding vsnprintf_def option.case m option.map bind.bind_lunit dopr_text[OF assms(1-4) w] p
    using assms(5) n(3) by (simp add: Let_def split: if_splits)
qed

text \<open>With a null pointer nothing is stored, and the length is still right.\<close>

lemma vsnprintf_measures:
  assumes "rounding rnd" "well_formed its" "denote rnd its args = Some t" "int (length t) \<le> INT_MAX"
  shows "vsnprintf rnd None 0 (unparse its @ NUL # junk) args = Some (int (length t), None, [])"
proof -
  have w: "out_fits 0 \<lparr>o_buf = None, o_cur = 0\<rparr>" by (simp add: out_fits_def)
  show ?thesis unfolding vsnprintf_def option.case bind.bind_lunit dopr_text[OF assms w]
    by (simp add: put_def)
qed

text \<open>With a buffer and the size 0, which C99 allows, the first byte of the buffer is overwritten.\<close>

lemma vsnprintf_zero:
  assumes "rounding rnd" "well_formed its" "denote rnd its args = Some t" "int (length t) \<le> INT_MAX"
  shows "vsnprintf rnd (Some (c # b)) 0 (unparse its @ NUL # junk) args
    = Some (int (length t), Some (NUL # b), [])"
proof -
  have w: "out_fits 0 \<lparr>o_buf = Some (NUL # b), o_cur = 0\<rparr>" by (simp add: out_fits_def)
  have m: "mem_write (c # b) 0 [NUL] = Some (NUL # b)" by (simp add: mem_write_def)
  show ?thesis unfolding vsnprintf_def option.case m option.map bind.bind_lunit dopr_text[OF assms w]
    by (simp add: put_def room_def SIZE_MAX_def mem_write_def)
qed

lemma stored_fits: "0 < count \<Longrightarrow> count \<le> length b \<Longrightarrow> length (stored count t b) = length b"
  by (auto simp: stored_def min_def)

lemma stored_beyond: "0 < count \<Longrightarrow> count \<le> i \<Longrightarrow> i < length b \<Longrightarrow> stored count t b ! i = b ! i"
  by (auto simp: stored_def nth_append nth_Cons' min_def)

lemma stored_str: "0 < count \<Longrightarrow> no_nul t \<Longrightarrow> c_str (stored count t b) = take (count - 1) t"
  by (simp add: stored_def no_nul_take)

section \<open>The text as a function\<close>

text \<open>
  What a caller gets that measures first and then formats into a buffer of the right size, which is
  how the rest of the program uses \<open>vsnprintf\<close>.
\<close>

definition portable_text :: "(rat \<Rightarrow> rat) \<Rightarrow> bytes \<Rightarrow> va_arg list \<Rightarrow> string option" where
  "portable_text rnd fmt args = do {
     (n, _, _) \<leftarrow> vsnprintf rnd None 0 fmt args;
     (_, b, _) \<leftarrow> vsnprintf rnd (Some (replicate (nat n + 1) NUL)) (nat n + 1) fmt args;
     map_option (take (nat n)) b }"

lemma portable_text_denote:
  assumes "rounding rnd" "well_formed its" "denote rnd its args = Some t" "int (length t) \<le> INT_MAX"
  shows "portable_text rnd (unparse its @ NUL # junk) args = Some t"
proof -
  have "stored (length t + 1) t (replicate (length t + 1) NUL) = t @ [NUL]"
    by (simp add: stored_def)
  then show ?thesis
    unfolding portable_text_def vsnprintf_measures[OF assms] bind.bind_lunit prod.case nat_int
    using vsnprintf_stores[OF assms, of "length t + 1" "replicate (length t + 1) NUL" junk] by simp
qed

text \<open>Literal text stands for itself.\<close>

lemma denote_lits: "denote rnd (map Lit s @ its) args = map_option ((@) s) (denote rnd its args)"
  by (induction s) (auto simp: option.map_comp o_def option.map_ident split: Option.bind_splits)

lemma unparse_lits: "unparse (map Lit s @ its) = s @ unparse its"
  by (induction s) (auto simp: unparse_def)

lemma item_ok_lits: "CHR ''%'' \<notin> set s \<Longrightarrow> no_nul s \<Longrightarrow> \<forall>it \<in> set (map Lit s). item_ok it"
  by (auto simp: no_nul_def)

abbreviation plain :: "cflag \<Rightarrow> byte \<Rightarrow> item" where
  "plain md cv \<equiv> Dir [] Omitted Omitted md cv"

lemma hex_decimal: "d < 10 \<Longrightarrow> hex_digits flags ! d = digit_char d"
proof -
  assume "d < 10"
  then have d: "d \<in> set [0..<10]" by simp
  have up: "\<forall>d \<in> set [0..<10]. ''0123456789ABCDEF'' ! d = digit_char d" by code_simp
  have low: "\<forall>d \<in> set [0..<10]. ''0123456789abcdef'' ! d = digit_char d" by code_simp
  show ?thesis unfolding hex_digits_def using bspec[OF up d] bspec[OF low d] by (simp only: simp_thms split: if_split)
qed

lemma base_text_hex: "base_text ((!) (hex_digits flags)) 10 n = show_nat n"
proof (induction n rule: show_nat.induct)
  case (1 n)
  then show ?case by (subst base_text.simps, subst show_nat.simps) (simp add: hex_decimal)
qed

lemma c99_plain_unsigned: "c99_int {DP_F_UNSIGNED} 10 0 (-1) v = show_nat (nat \<bar>v\<bar>)"
  by (simp add: c99_int_def base_text_hex spaces_def Let_def)

lemma c99_plain_signed: "c99_int {} 10 0 (-1) v = show_int v"
  by (auto simp: c99_int_def base_text_hex spaces_def show_int_def Let_def)

lemma item_text_str: "no_nul s \<Longrightarrow> int (length s) \<le> INT_MAX \<Longrightarrow>
    item_text rnd (plain DP_C_NONE (CHR ''s'')) (VStr (Some (s @ NUL # junk)) # args) = Some (s, args)"
  by (simp add: dir_text_branches guard_def str_readable_def str_part_def c99_str_def spaces_def)

lemma item_text_long: "item_text rnd (plain DP_C_LONG (CHR ''u'')) (VLong x # args) = Some (show_nat (unat x), args)"
  by (simp add: dir_text_branches va_unsigned_def int_text_def guard_def c99_plain_def int_value_def c99_plain_unsigned)

lemma item_text_int: "item_text rnd (plain DP_C_NONE (CHR ''d'')) (VInt x # args) = Some (show_int (sint x), args)"
proof -
  have "sint (scast x :: u64) = sint x" by (rule sint_up_scast) (simp add: is_up)
  moreover have "sint x \<noteq> - (2 ^ 63)" using sint_greater_eq[of x] by auto
  ultimately show ?thesis
    by (simp add: dir_text_branches va_signed_def int_text_def guard_def c99_plain_def int_value_def c99_plain_signed)
qed

end
