(* ===== verification/Alloc.thy ===== *)
theory Alloc
  imports Printf
begin

text \<open>
  The state of a program as far as its memory and its messages are concerned, and the functions of
  the C library that \<open>util/messages.c\<close>, \<open>util/xmalloc.c\<close> and the replacements under
  \<open>portable/\<close> call to allocate memory and to write. What the library decides, whether there is memory,
  what a fresh block holds, whether formatting fails, is the record \<open>clib\<close>, which may answer
  differently at every call. Using a block that is not allocated is \<open>None\<close>.
\<close>

section \<open>The state\<close>

datatype stream = Stdout | Stderr | Syslog int

text \<open>A message handler, and a pointer to a list of them: a static list, none, or a block.\<close>

datatype handler = H_stdout | H_stderr | H_syslog int | H_user nat

datatype hlist = Stdout_handlers | Stderr_handlers | Null_list | List_at nat

text \<open>
  Blocks of bytes and of handlers are kept apart; addresses are never used twice. Text written to
  standard output waits in a buffer; \<open>shown\<close> is what has come out, the newest last.
\<close>

record prog =
  blocks :: "nat \<Rightarrow> bytes option"
  lists :: "nat \<Rightarrow> handler list option"
  fresh :: nat
  tries :: nat
  prints :: nat
  errnum :: int
  pending :: string
  shown :: "(stream \<times> string) list"
  user_calls :: "(nat \<times> int \<times> int) list"
  debug_handlers :: hlist
  notice_handlers :: hlist
  warn_handlers :: hlist
  die_handlers :: hlist
  message_fatal_cleanup :: "int option"
  message_program_name :: "string option"

record clib =
  lib_room :: "nat \<Rightarrow> nat \<Rightarrow> bool"
  lib_junk :: "nat \<Rightarrow> nat \<Rightarrow> byte"
  lib_text :: "nat \<Rightarrow> bytes \<Rightarrow> va_arg list \<Rightarrow> string option"
  lib_strerror :: "int \<Rightarrow> string"
  lib_enomem :: int

text \<open>The end of the program with a status, or the state it goes on in; \<open>None\<close> is undefined behaviour.\<close>

type_synonym 'a outcome = "(int \<times> prog + 'a) option"

abbreviation goes_on :: "'a \<Rightarrow> 'a outcome" where
  "goes_on x \<equiv> Some (Inr x)"

abbreviation exits :: "int \<Rightarrow> prog \<Rightarrow> 'a outcome" where
  "exits code s \<equiv> Some (Inl (code, s))"

definition and_then :: "'a outcome \<Rightarrow> ('a \<Rightarrow> 'b outcome) \<Rightarrow> 'b outcome" where
  "and_then r f = (case r of None \<Rightarrow> None | Some (Inl e) \<Rightarrow> Some (Inl e) | Some (Inr x) \<Rightarrow> f x)"

lemma and_then_simps [simp]:
  "and_then None f = None" "and_then (Some (Inl e)) f = Some (Inl e)" "and_then (Some (Inr x)) f = f x"
  by (simp_all add: and_then_def)

section \<open>Memory\<close>

definition c_malloc :: "clib \<Rightarrow> nat \<Rightarrow> prog \<Rightarrow> nat option \<times> prog" where
  "c_malloc lib n s =
     (if lib_room lib (tries s) n
      then (Some (fresh s),
            s\<lparr>blocks := (blocks s)(fresh s \<mapsto> map (lib_junk lib (tries s)) [0..<n]),
              fresh := fresh s + 1, tries := tries s + 1\<rparr>)
      else (None, s\<lparr>tries := tries s + 1, errnum := lib_enomem lib\<rparr>))"

text \<open>\<open>calloc\<close> checks its product itself.\<close>

definition c_calloc :: "clib \<Rightarrow> nat \<Rightarrow> nat \<Rightarrow> prog \<Rightarrow> nat option \<times> prog" where
  "c_calloc lib n sz s =
     (if n * sz \<le> SIZE_MAX \<and> lib_room lib (tries s) (n * sz)
      then (Some (fresh s),
            s\<lparr>blocks := (blocks s)(fresh s \<mapsto> replicate (n * sz) NUL),
              fresh := fresh s + 1, tries := tries s + 1\<rparr>)
      else (None, s\<lparr>tries := tries s + 1, errnum := lib_enomem lib\<rparr>))"

definition c_free :: "nat option \<Rightarrow> prog \<Rightarrow> prog option" where
  "c_free p s =
     (case p of None \<Rightarrow> Some s
      | Some a \<Rightarrow> if blocks s a = None then None else Some (s\<lparr>blocks := (blocks s)(a := None)\<rparr>))"

text \<open>
  \<open>realloc\<close> moves the block, or leaves it as it is when there is no room. With the size 0 it frees the
  block and returns a null pointer, as the GNU library does. A null pointer asks for a new block.
\<close>

definition c_realloc :: "clib \<Rightarrow> nat option \<Rightarrow> nat \<Rightarrow> prog \<Rightarrow> (nat option \<times> prog) option" where
  "c_realloc lib p n s =
     (case p of None \<Rightarrow> Some (c_malloc lib n s)
      | Some a \<Rightarrow>
          (case blocks s a of None \<Rightarrow> None
           | Some b \<Rightarrow>
               if n = 0 then map_option (\<lambda>s. (None, s)) (c_free p s)
               else (let (q, s') = c_malloc lib n s
                     in case q of None \<Rightarrow> Some (None, s')
                        | Some a' \<Rightarrow>
                            Some (Some a', s'\<lparr>blocks := (blocks s')(a := None,
                              a' \<mapsto> take n b @ map (lib_junk lib (tries s)) [length b..<n])\<rparr>))))"

definition block_put :: "nat \<Rightarrow> nat \<Rightarrow> bytes \<Rightarrow> prog \<Rightarrow> prog option" where
  "block_put a off bs s = do {
     b \<leftarrow> blocks s a;
     b \<leftarrow> mem_write b off bs;
     Some (s\<lparr>blocks := (blocks s)(a \<mapsto> b)\<rparr>) }"

section \<open>Output\<close>

definition fflush_stdout :: "prog \<Rightarrow> prog" where
  "fflush_stdout s =
     (if pending s = [] then s else s\<lparr>shown := shown s @ [(Stdout, pending s)], pending := []\<rparr>)"

text \<open>Formatting fails or gives a text; it counts as one call of the library.\<close>

definition lib_format :: "clib \<Rightarrow> bytes \<Rightarrow> va_arg list \<Rightarrow> prog \<Rightarrow> string option \<times> prog" where
  "lib_format lib fmt args s = (lib_text lib (prints s) fmt args, s\<lparr>prints := prints s + 1\<rparr>)"

definition put_stdout :: "string \<Rightarrow> prog \<Rightarrow> prog" where
  "put_stdout t s = s\<lparr>pending := pending s @ t\<rparr>"

definition put_stderr :: "string \<Rightarrow> prog \<Rightarrow> prog" where
  "put_stderr t s = s\<lparr>shown := shown s @ [(Stderr, t)]\<rparr>"

definition c_syslog :: "int \<Rightarrow> string \<Rightarrow> prog \<Rightarrow> prog" where
  "c_syslog pri t s = s\<lparr>shown := shown s @ [(Syslog pri, t)]\<rparr>"

text \<open>No block has an address that is still to be given out.\<close>

definition heap_ok :: "prog \<Rightarrow> bool" where
  "heap_ok s \<longleftrightarrow> (\<forall>a. fresh s \<le> a \<longrightarrow> blocks s a = None \<and> lists s a = None)"

lemma c_malloc_heap: "heap_ok s \<Longrightarrow> heap_ok (snd (c_malloc lib n s))"
  by (auto simp: c_malloc_def heap_ok_def)

lemma c_calloc_heap: "heap_ok s \<Longrightarrow> heap_ok (snd (c_calloc lib n sz s))"
  by (auto simp: c_calloc_def heap_ok_def)

lemma c_free_heap: "heap_ok s \<Longrightarrow> c_free p s = Some s' \<Longrightarrow> heap_ok s'"
  by (auto simp: c_free_def heap_ok_def split: option.splits if_splits)

text \<open>A block that was just allocated can be freed, and then the heap is what it was.\<close>

lemma malloc_free:
  assumes "heap_ok s" "c_malloc lib n s = (Some a, s')"
  shows "\<exists>s''. c_free (Some a) s' = Some s'' \<and> blocks s'' = blocks s \<and> lists s'' = lists s"
proof -
  have a: "a = fresh s" "blocks s (fresh s) = None" "blocks s' = (blocks s)(a \<mapsto> map (lib_junk lib (tries s)) [0..<n])"
    "lists s' = lists s"
    using assms by (auto simp: c_malloc_def heap_ok_def split: if_splits)
  then have "(blocks s')(a := None) = blocks s" by (simp add: fun_upd_idem)
  then show ?thesis using a by (simp add: c_free_def)
qed

end
