(* ===== verification/Messages.thy ===== *)
theory Messages
  imports Alloc
begin

text \<open>
  \<open>util/messages.c\<close>: the functions that report, the handlers they call, and the lists of handlers,
  each with a list of its own. A report formats once with no buffer to learn the length, and calls
  every handler of its list with it; a report that is fatal ends the program then. The handler for
  \<open>syslog\<close> formats into a block of its own, and warns when that fails, which calls the handlers for
  warnings again; the depth of that recursion is bounded by a number, and running out of it is \<open>None\<close>.

  The lemmas show what a report adds for a list of handlers: what each of them writes, in order, up
  to the first one for \<open>syslog\<close> that gets no memory for its line, which ends the program.
\<close>

section \<open>Handlers\<close>

definition newline :: string where
  "newline = [CHR 0x0A]"

definition message_log_stdout ::
  "clib \<Rightarrow> bytes \<Rightarrow> va_arg list \<Rightarrow> int \<Rightarrow> prog \<Rightarrow> prog" where
  "message_log_stdout lib fmt args e s =
     (let s = (case message_program_name s of None \<Rightarrow> s | Some p \<Rightarrow> put_stdout (p @ '': '') s);
          (t, s) = lib_format lib fmt args s;
          s = put_stdout (case t of None \<Rightarrow> [] | Some t \<Rightarrow> t) s;
          s = (if e \<noteq> 0 then put_stdout ('': '' @ lib_strerror lib e) s else s);
          s = put_stdout newline s
      in fflush_stdout s)"

definition message_log_stderr ::
  "clib \<Rightarrow> bytes \<Rightarrow> va_arg list \<Rightarrow> int \<Rightarrow> prog \<Rightarrow> prog" where
  "message_log_stderr lib fmt args e s =
     (let s = fflush_stdout s;
          s = (case message_program_name s of None \<Rightarrow> s | Some p \<Rightarrow> put_stderr (p @ '': '') s);
          (t, s) = lib_format lib fmt args s;
          s = put_stderr (case t of None \<Rightarrow> [] | Some t \<Rightarrow> t) s;
          s = (if e \<noteq> 0 then put_stderr ('': '' @ lib_strerror lib e) s else s)
      in put_stderr newline s)"

text \<open>The status of \<open>exit\<close>: what the cleanup function returns, if there is one.\<close>

definition fatal_status :: "prog \<Rightarrow> int" where
  "fatal_status s = (case message_fatal_cleanup s of None \<Rightarrow> 1 | Some c \<Rightarrow> c)"

text \<open>The list a pointer leads to; a list that was freed, or none, cannot be read.\<close>

fun handler_list :: "hlist \<Rightarrow> prog \<Rightarrow> handler list option" where
  "handler_list Stdout_handlers s = Some [H_stdout]"
| "handler_list Stderr_handlers s = Some [H_stderr]"
| "handler_list Null_list s = None"
| "handler_list (List_at a) s = lists s a"

type_synonym syslog_fun = "int \<Rightarrow> nat \<Rightarrow> bytes \<Rightarrow> va_arg list \<Rightarrow> int \<Rightarrow> prog \<Rightarrow> prog outcome"

fun call_handler :: "syslog_fun \<Rightarrow> clib \<Rightarrow> handler \<Rightarrow> nat \<Rightarrow> bytes \<Rightarrow> va_arg list \<Rightarrow> int \<Rightarrow> prog \<Rightarrow> prog outcome" where
  "call_handler sl lib H_stdout len fmt args e s = goes_on (message_log_stdout lib fmt args e s)"
| "call_handler sl lib H_stderr len fmt args e s = goes_on (message_log_stderr lib fmt args e s)"
| "call_handler sl lib (H_syslog pri) len fmt args e s = sl pri len fmt args e s"
| "call_handler sl lib (H_user i) len fmt args e s =
     goes_on (s\<lparr>user_calls := user_calls s @ [(i, int len, e)]\<rparr>)"

text \<open>The loop over the list.\<close>

fun call_handlers ::
  "syslog_fun \<Rightarrow> clib \<Rightarrow> handler list \<Rightarrow> nat \<Rightarrow> bytes \<Rightarrow> va_arg list \<Rightarrow> int \<Rightarrow> prog \<Rightarrow> prog outcome" where
  "call_handlers sl lib [] len fmt args e s = goes_on s"
| "call_handlers sl lib (h # hs) len fmt args e s =
     and_then (call_handler sl lib h len fmt args e s) (call_handlers sl lib hs len fmt args e)"

text \<open>Formatting for the length, then the handlers.\<close>

definition deliver ::
  "syslog_fun \<Rightarrow> clib \<Rightarrow> hlist \<Rightarrow> bytes \<Rightarrow> va_arg list \<Rightarrow> int \<Rightarrow> prog \<Rightarrow> prog outcome" where
  "deliver sl lib hl fmt args e s =
     (let (t, s) = lib_format lib fmt args s
      in case t of None \<Rightarrow> goes_on s
         | Some t \<Rightarrow> (case handler_list hl s of None \<Rightarrow> None
                     | Some hs \<Rightarrow> call_handlers sl lib hs (length t) fmt args e s))"

definition SYSLOG_LINE :: nat where
  "SYSLOG_LINE = 237"

fun message_log_syslog :: "nat \<Rightarrow> clib \<Rightarrow> syslog_fun" where
  "message_log_syslog 0 lib pri len fmt args e s = None"
| "message_log_syslog (Suc n) lib pri len fmt args e s =
     (let (p, s) = c_malloc lib (len + 1) s
      in case p of
           None \<Rightarrow> exits (fatal_status s)
             (put_stderr (''failed to malloc '' @ show_nat (len + 1) @ '' bytes at util/messages.c line ''
                @ show_nat SYSLOG_LINE @ '': '' @ lib_strerror lib (errnum s)) s)
         | Some a \<Rightarrow>
             (let (t, s) = lib_format lib fmt args s
              in case t of
                   None \<Rightarrow>
                     and_then (deliver (message_log_syslog n lib) lib (warn_handlers s)
                         (''failed to format output with vsnprintf in syslog handler'' @ [NUL]) [] 0 s)
                       (\<lambda>s. map_option Inr (c_free (Some a) s))
                 | Some t \<Rightarrow> do {
                     s \<leftarrow> block_put a 0 (take len t @ [NUL]) s;
                     b \<leftarrow> blocks s a;
                     let s = (if e = 0 then c_syslog pri (c_str b) s
                              else c_syslog pri (c_str b @ '': '' @ lib_strerror lib e) s);
                     map_option Inr (c_free (Some a) s) }))"

declare message_log_syslog.simps [simp del]

section \<open>Reports\<close>

definition debug :: "nat \<Rightarrow> clib \<Rightarrow> bytes \<Rightarrow> va_arg list \<Rightarrow> prog \<Rightarrow> prog outcome" where
  "debug n lib fmt args s =
     (if debug_handlers s = Null_list then goes_on s
      else deliver (message_log_syslog n lib) lib (debug_handlers s) fmt args 0 s)"

definition notice :: "nat \<Rightarrow> clib \<Rightarrow> bytes \<Rightarrow> va_arg list \<Rightarrow> prog \<Rightarrow> prog outcome" where
  "notice n lib fmt args s = deliver (message_log_syslog n lib) lib (notice_handlers s) fmt args 0 s"

definition sysnotice :: "nat \<Rightarrow> clib \<Rightarrow> bytes \<Rightarrow> va_arg list \<Rightarrow> prog \<Rightarrow> prog outcome" where
  "sysnotice n lib fmt args s =
     (let e = errnum s in deliver (message_log_syslog n lib) lib (notice_handlers s) fmt args e s)"

definition warn :: "nat \<Rightarrow> clib \<Rightarrow> bytes \<Rightarrow> va_arg list \<Rightarrow> prog \<Rightarrow> prog outcome" where
  "warn n lib fmt args s = deliver (message_log_syslog n lib) lib (warn_handlers s) fmt args 0 s"

definition syswarn :: "nat \<Rightarrow> clib \<Rightarrow> bytes \<Rightarrow> va_arg list \<Rightarrow> prog \<Rightarrow> prog outcome" where
  "syswarn n lib fmt args s =
     (let e = errnum s in deliver (message_log_syslog n lib) lib (warn_handlers s) fmt args e s)"

definition die :: "nat \<Rightarrow> clib \<Rightarrow> bytes \<Rightarrow> va_arg list \<Rightarrow> prog \<Rightarrow> prog outcome" where
  "die n lib fmt args s =
     and_then (deliver (message_log_syslog n lib) lib (die_handlers s) fmt args 0 s)
       (\<lambda>s. exits (fatal_status s) s)"

definition sysdie :: "nat \<Rightarrow> clib \<Rightarrow> bytes \<Rightarrow> va_arg list \<Rightarrow> prog \<Rightarrow> prog outcome" where
  "sysdie n lib fmt args s =
     (let e = errnum s
      in and_then (deliver (message_log_syslog n lib) lib (die_handlers s) fmt args e s)
           (\<lambda>s. exits (fatal_status s) s))"

section \<open>What a report does\<close>

text \<open>What is read, in order: everything that has come out, and what waits for standard output.\<close>

definition screen :: "prog \<Rightarrow> (stream \<times> byte) list" where
  "screen s = concat (map (\<lambda>(st, t). map (Pair st) t) (shown s)) @ map (Pair Stdout) (pending s)"

definition error_suffix :: "clib \<Rightarrow> int \<Rightarrow> string" where
  "error_suffix lib e = (if e = 0 then [] else '': '' @ lib_strerror lib e)"

definition message_line :: "clib \<Rightarrow> string option \<Rightarrow> string \<Rightarrow> int \<Rightarrow> string" where
  "message_line lib name t e =
     (case name of None \<Rightarrow> [] | Some p \<Rightarrow> p @ '': '') @ t @ error_suffix lib e @ newline"

text \<open>The specification: what one handler of the list adds.\<close>

fun handler_line :: "clib \<Rightarrow> string option \<Rightarrow> string \<Rightarrow> int \<Rightarrow> handler \<Rightarrow> (stream \<times> byte) list" where
  "handler_line lib name t e H_stdout = map (Pair Stdout) (message_line lib name t e)"
| "handler_line lib name t e H_stderr = map (Pair Stderr) (message_line lib name t e)"
| "handler_line lib name t e (H_syslog pri) = map (Pair (Syslog pri)) (t @ error_suffix lib e)"
| "handler_line lib name t e (H_user i) = []"

fun user_entry :: "nat \<Rightarrow> int \<Rightarrow> handler \<Rightarrow> (nat \<times> int \<times> int) list" where
  "user_entry len e (H_user i) = [(i, int len, e)]"
| "user_entry len e _ = []"

text \<open>The library formats this format as this text every time.\<close>

definition steady :: "clib \<Rightarrow> bytes \<Rightarrow> va_arg list \<Rightarrow> string \<Rightarrow> bool" where
  "steady lib fmt args t \<longleftrightarrow> (\<forall>i. lib_text lib i fmt args = Some t) \<and> no_nul t"

text \<open>Everything but the output and the counters of the library is as before.\<close>

definition keeps :: "prog \<Rightarrow> prog \<Rightarrow> bool" where
  "keeps s s' \<longleftrightarrow> blocks s' = blocks s \<and> lists s' = lists s \<and> fresh s \<le> fresh s' \<and> errnum s' = errnum s
     \<and> debug_handlers s' = debug_handlers s \<and> notice_handlers s' = notice_handlers s
     \<and> warn_handlers s' = warn_handlers s \<and> die_handlers s' = die_handlers s
     \<and> message_fatal_cleanup s' = message_fatal_cleanup s \<and> message_program_name s' = message_program_name s"

lemma keeps_refl [simp]: "keeps s s"
  by (simp add: keeps_def)

lemma keeps_trans [trans]: "keeps s s' \<Longrightarrow> keeps s' s'' \<Longrightarrow> keeps s s''"
  by (auto simp: keeps_def)

lemma keeps_heap: "keeps s s' \<Longrightarrow> heap_ok s \<Longrightarrow> heap_ok s'"
  by (auto simp: keeps_def heap_ok_def)

definition adds :: "prog \<Rightarrow> (stream \<times> byte) list \<Rightarrow> (nat \<times> int \<times> int) list \<Rightarrow> prog \<Rightarrow> bool" where
  "adds s out us s' \<longleftrightarrow> keeps s s' \<and> pending s' = [] \<and> screen s' = screen s @ out
     \<and> user_calls s' = user_calls s @ us"

lemma adds_trans: "adds s o1 u1 s' \<Longrightarrow> adds s' o2 u2 s'' \<Longrightarrow> adds s (o1 @ o2) (u1 @ u2) s''"
  by (auto simp: adds_def intro: keeps_trans)

lemma log_stdout_adds:
  assumes "steady lib fmt args t" "pending s = []"
  shows "adds s (map (Pair Stdout) (message_line lib (message_program_name s) t e)) []
           (message_log_stdout lib fmt args e s)"
  using assms
  by (auto simp: adds_def keeps_def message_log_stdout_def lib_format_def steady_def put_stdout_def
      fflush_stdout_def screen_def message_line_def error_suffix_def newline_def Let_def split: option.splits)

lemma log_stderr_adds:
  assumes "steady lib fmt args t" "pending s = []"
  shows "adds s (map (Pair Stderr) (message_line lib (message_program_name s) t e)) []
           (message_log_stderr lib fmt args e s)"
  using assms
  by (auto simp: adds_def keeps_def message_log_stderr_def lib_format_def steady_def put_stderr_def
      fflush_stdout_def screen_def message_line_def error_suffix_def newline_def Let_def split: option.splits)

lemma log_tries [simp]:
  "tries (message_log_stdout lib fmt args e s) = tries s" "tries (message_log_stderr lib fmt args e s) = tries s"
  by (auto simp: message_log_stdout_def message_log_stderr_def lib_format_def put_stdout_def put_stderr_def
      fflush_stdout_def Let_def split: option.split)

lemma log_syslog_adds:
  assumes "steady lib fmt args t" "pending s = []" "lib_room lib (tries s) (length t + 1)" "heap_ok s"
  shows "\<exists>s'. message_log_syslog (Suc n) lib pri (length t) fmt args e s = goes_on s'
    \<and> adds s (map (Pair (Syslog pri)) (t @ error_suffix lib e)) [] s' \<and> tries s' = Suc (tries s)"
proof -
  have free: "blocks s (fresh s) = None" using assms(4) by (simp add: heap_ok_def)
  have upd: "(blocks s)(fresh s := None) = blocks s" using free by auto
  have w: "mem_write (map (lib_junk lib (tries s)) [0..<Suc (length t)]) 0 (t @ [NUL]) = Some (t @ [NUL])"
    by (simp add: mem_write_def)
  have c: "c_str (t @ [NUL]) = t" using assms(1) c_str_terminated[of t "[]"] by (simp add: steady_def)
  show ?thesis
    using assms(1-3) w c upd
    by (auto simp: message_log_syslog.simps c_malloc_def lib_format_def steady_def block_put_def c_free_def c_syslog_def
        adds_def keeps_def screen_def error_suffix_def Let_def simp del: upt_Suc)
qed

text \<open>
  The handler for \<open>syslog\<close> needs a block for the line. Without memory it writes this to standard
  error instead, with no newline, and ends the program.
\<close>

definition no_room_text :: "clib \<Rightarrow> nat \<Rightarrow> string" where
  "no_room_text lib len = ''failed to malloc '' @ show_nat (len + 1) @ '' bytes at util/messages.c line 237: ''
     @ lib_strerror lib (lib_enomem lib)"

lemma syslog_line_text: "show_nat SYSLOG_LINE = ''237''"
  by code_simp

lemma log_syslog_no_room:
  assumes "pending s = []" "\<not> lib_room lib (tries s) (len + 1)"
  shows "\<exists>s'. message_log_syslog (Suc n) lib pri len fmt args e s = exits (fatal_status s) s'
    \<and> screen s' = screen s @ map (Pair Stderr) (no_room_text lib len) \<and> user_calls s' = user_calls s"
  using assms
  by (auto simp: message_log_syslog.simps c_malloc_def put_stderr_def screen_def no_room_text_def fatal_status_def
      syslog_line_text)

text \<open>
  The handlers of a list that do their work: all of them, or those before the first handler for
  \<open>syslog\<close> that gets no memory. The requests are numbered from \<open>i\<close> on.
\<close>

fun served :: "clib \<Rightarrow> nat \<Rightarrow> nat \<Rightarrow> handler list \<Rightarrow> handler list" where
  "served lib len i [] = []"
| "served lib len i (H_syslog pri # hs) =
     (if lib_room lib i (len + 1) then H_syslog pri # served lib len (i + 1) hs else [])"
| "served lib len i (h # hs) = h # served lib len i hs"

text \<open>
  What a report to the handlers \<open>hs\<close> does to the state \<open>s\<close>: the handlers that are served add their
  lines and their calls; when all are, everything else is as before, and otherwise the program ends.
\<close>

definition reports :: "clib \<Rightarrow> handler list \<Rightarrow> string \<Rightarrow> int \<Rightarrow> prog \<Rightarrow> prog outcome \<Rightarrow> bool" where
  "reports lib hs t e s r \<longleftrightarrow>
     (let served_hs = served lib (length t) (tries s) hs
      in \<exists>s'. (if served_hs = hs then r = goes_on s' \<and> keeps s s' else r = exits (fatal_status s) s') \<and>
        screen s' = screen s @ concat (map (handler_line lib (message_program_name s) t e) served_hs)
          @ (if served_hs = hs then [] else map (Pair Stderr) (no_room_text lib (length t))) \<and>
        user_calls s' = user_calls s @ concat (map (user_entry (length t) e) served_hs))"

text \<open>One handler that is served, and the rest of the list.\<close>

lemma served_Cons:
  assumes "(\<exists>pri. h = H_syslog pri) \<longrightarrow> lib_room lib i (len + 1)"
  shows "served lib len i (h # hs) = h # served lib len (if \<exists>pri. h = H_syslog pri then i + 1 else i) hs"
  using assms by (cases h) auto

lemma reports_Cons:
  assumes "adds s (handler_line lib (message_program_name s) t e h) (user_entry (length t) e h) s1"
    and "tries s1 = (if \<exists>pri. h = H_syslog pri then tries s + 1 else tries s)"
    and "(\<exists>pri. h = H_syslog pri) \<longrightarrow> lib_room lib (tries s) (length t + 1)"
    and "reports lib hs t e s1 r"
  shows "reports lib (h # hs) t e s r"
proof -
  let ?hs = "served lib (length t) (tries s1) hs"
  have sv: "served lib (length t) (tries s) (h # hs) = h # ?hs" using served_Cons[OF assms(3), of hs] assms(2) by simp
  have a: "keeps s s1" "screen s1 = screen s @ handler_line lib (message_program_name s) t e h"
    "user_calls s1 = user_calls s @ user_entry (length t) e h" using assms(1) by (simp_all add: adds_def)
  then have n: "message_program_name s1 = message_program_name s" "fatal_status s1 = fatal_status s"
    by (simp_all add: keeps_def fatal_status_def)
  show ?thesis using assms(4) keeps_trans[OF a(1)] unfolding reports_def sv Let_def n
    by (fastforce simp: a(2,3))
qed

lemma call_handler_served:
  assumes "steady lib fmt args t" "pending s = []" "heap_ok s"
    and "(\<exists>pri. h = H_syslog pri) \<longrightarrow> lib_room lib (tries s) (length t + 1)"
  shows "\<exists>s'. call_handler (message_log_syslog (Suc n) lib) lib h (length t) fmt args e s = goes_on s'
    \<and> adds s (handler_line lib (message_program_name s) t e h) (user_entry (length t) e h) s'
    \<and> tries s' = (if \<exists>pri. h = H_syslog pri then tries s + 1 else tries s)"
proof (cases h)
  case (H_user i)
  then show ?thesis using assms(2) by (simp add: adds_def keeps_def screen_def)
next
  case (H_syslog pri)
  then show ?thesis using log_syslog_adds[OF assms(1,2) _ assms(3)] assms(4) by auto
qed (use log_stdout_adds[OF assms(1,2)] log_stderr_adds[OF assms(1,2)] in simp_all)

lemma call_handlers_reports:
  assumes "steady lib fmt args t" "pending s = []" "heap_ok s"
  shows "reports lib hs t e s (call_handlers (message_log_syslog (Suc n) lib) lib hs (length t) fmt args e s)"
  using assms(2,3)
proof (induction hs arbitrary: s)
  case Nil
  then show ?case by (simp add: reports_def)
next
  case (Cons h hs)
  show ?case
  proof (cases "(\<exists>pri. h = H_syslog pri) \<longrightarrow> lib_room lib (tries s) (length t + 1)")
    case True
    obtain s1 where s1: "call_handler (message_log_syslog (Suc n) lib) lib h (length t) fmt args e s = goes_on s1"
      and a1: "adds s (handler_line lib (message_program_name s) t e h) (user_entry (length t) e h) s1"
      "tries s1 = (if \<exists>pri. h = H_syslog pri then tries s + 1 else tries s)"
      using call_handler_served[OF assms(1) Cons.prems True] by blast
    have "pending s1 = []" "heap_ok s1" using a1(1) keeps_heap Cons.prems(2) by (auto simp: adds_def)
    from reports_Cons[OF a1 True Cons.IH[OF this]] show ?thesis by (simp add: s1)
  next
    case False
    then obtain pri where h: "h = H_syslog pri" "\<not> lib_room lib (tries s) (length t + 1)" by blast
    then show ?thesis using log_syslog_no_room[OF Cons.prems(1) h(2), of n pri fmt args e] by (auto simp: reports_def)
  qed
qed

lemma deliver_reports:
  assumes "steady lib fmt args t" "pending s = []" "heap_ok s" "handler_list hl s = Some hs"
  shows "reports lib hs t e s (deliver (message_log_syslog (Suc n) lib) lib hl fmt args e s)"
proof -
  let ?s = "s\<lparr>prints := prints s + 1\<rparr>"
  have f: "lib_format lib fmt args s = (Some t, ?s)" using assms(1) by (simp add: lib_format_def steady_def)
  have h: "handler_list hl (s\<lparr>prints := Suc (prints s)\<rparr>) = Some hs" using assms(4) by (cases hl) auto
  have "heap_ok ?s" "pending ?s = []" using assms(2,3) by (auto simp: heap_ok_def)
  then have r: "reports lib hs t e ?s (call_handlers (message_log_syslog (Suc n) lib) lib hs (length t) fmt args e ?s)"
    using call_handlers_reports[OF assms(1)] by blast
  have "screen ?s = screen s" "fatal_status ?s = fatal_status s" "keeps ?s = keeps s"
    by (auto simp: screen_def fatal_status_def keeps_def)
  then have "reports lib hs t e ?s = reports lib hs t e s" by (simp add: fun_eq_iff reports_def)
  then show ?thesis using r by (simp add: deliver_def f h)
qed

end
