(* ===== verification/Xmalloc.thy ===== *)
theory Xmalloc
  imports Messages
begin

text \<open>
  \<open>util/xmalloc.c\<close> and \<open>portable/asprintf.c\<close>, and the part of \<open>util/messages.c\<close> that sets the
  lists of handlers, which allocates with \<open>xcalloc\<close>. The error handler is a parameter of every
  function, as it is a variable in the code; the default one, \<open>xmalloc_fail\<close>, reports with \<open>sysdie\<close>
  and does not return. A handler that returns makes the function try again, and a loop that never
  gets memory is \<open>None\<close>.
\<close>

section \<open>Formatting into a block\<close>

text \<open>The pointer \<open>strp\<close> is part of the result, with the return value.\<close>

definition vasprintf :: "clib \<Rightarrow> bytes \<Rightarrow> va_arg list \<Rightarrow> prog \<Rightarrow> ((int \<times> nat option) \<times> prog) option" where
  "vasprintf lib fmt args s =
     (let (needed, s) = lib_format lib fmt args s
      in case needed of
           None \<Rightarrow> Some ((-1, None), s)
         | Some t \<Rightarrow>
             (let (p, s) = c_malloc lib (length t + 1) s
              in case p of
                   None \<Rightarrow> Some ((-1, None), s)
                 | Some a \<Rightarrow>
                     (let (status, s) = lib_format lib fmt args s
                      in case status of
                           Some u \<Rightarrow>
                             map_option (\<lambda>s. ((int (length u), Some a), s))
                               (block_put a 0 (take (length t) u @ [NUL]) s)
                         | None \<Rightarrow> (let oerrno = errnum s
                                   in map_option (\<lambda>s. ((-1, None), s\<lparr>errnum := oerrno\<rparr>)) (c_free (Some a) s)))))"

definition asprintf :: "clib \<Rightarrow> bytes \<Rightarrow> va_arg list \<Rightarrow> prog \<Rightarrow> ((int \<times> nat option) \<times> prog) option" where
  "asprintf lib fmt args s = vasprintf lib fmt args s"

section \<open>Allocation that does not fail\<close>

type_synonym xhandler = "string \<Rightarrow> nat \<Rightarrow> string \<Rightarrow> int \<Rightarrow> prog \<Rightarrow> prog outcome"

definition xmalloc_fail :: "nat \<Rightarrow> clib \<Rightarrow> xhandler" where
  "xmalloc_fail n lib function sz file line s =
     (if sz = 0
      then sysdie n lib (''failed to format output with %s at %s line %d'' @ [NUL])
             [VStr (Some (function @ [NUL])), VStr (Some (file @ [NUL])), VInt (word_of_int line)] s
      else sysdie n lib (''failed to %s %lu bytes at %s line %d'' @ [NUL])
             [VStr (Some (function @ [NUL])), VLong (word_of_nat sz), VStr (Some (file @ [NUL])),
              VInt (word_of_int line)] s)"

text \<open>The loop every function has: the call that may fail, the condition to go on, and the handler.\<close>

partial_function (option) x_loop ::
  "(prog \<Rightarrow> (nat option \<times> prog) option) \<Rightarrow> bool \<Rightarrow> (prog \<Rightarrow> prog outcome) \<Rightarrow> prog \<Rightarrow> (nat option \<times> prog) outcome" where
  "x_loop attempt again fail s =
     (case attempt s of
        None \<Rightarrow> None
      | Some (Some p, s) \<Rightarrow> goes_on (Some p, s)
      | Some (None, s) \<Rightarrow>
          if \<not> again then goes_on (None, s)
          else (case fail s of None \<Rightarrow> None | Some (Inl e) \<Rightarrow> Some (Inl e)
                | Some (Inr s) \<Rightarrow> x_loop attempt again fail s))"

definition wrap64 :: "nat \<Rightarrow> nat" where
  "wrap64 n = n mod 2 ^ 64"

definition x_malloc :: "xhandler \<Rightarrow> clib \<Rightarrow> nat \<Rightarrow> string \<Rightarrow> int \<Rightarrow> prog \<Rightarrow> (nat option \<times> prog) outcome" where
  "x_malloc eh lib sz file line =
     (let real_size = (if sz > 0 then sz else 1)
      in x_loop (\<lambda>s. Some (c_malloc lib real_size s)) True (eh ''malloc'' sz file line))"

definition x_calloc :: "xhandler \<Rightarrow> clib \<Rightarrow> nat \<Rightarrow> nat \<Rightarrow> string \<Rightarrow> int \<Rightarrow> prog \<Rightarrow> (nat option \<times> prog) outcome" where
  "x_calloc eh lib n sz file line =
     (let n = (if n > 0 then n else 1); sz = (if sz > 0 then sz else 1)
      in x_loop (\<lambda>s. Some (c_calloc lib n sz s)) True (eh ''calloc'' (wrap64 (n * sz)) file line))"

definition x_realloc ::
  "xhandler \<Rightarrow> clib \<Rightarrow> nat option \<Rightarrow> nat \<Rightarrow> string \<Rightarrow> int \<Rightarrow> prog \<Rightarrow> (nat option \<times> prog) outcome" where
  "x_realloc eh lib p sz file line =
     x_loop (c_realloc lib p sz) (sz > 0) (eh ''realloc'' sz file line)"

definition try_reallocarray :: "clib \<Rightarrow> nat option \<Rightarrow> nat \<Rightarrow> nat \<Rightarrow> prog \<Rightarrow> (nat option \<times> prog) option" where
  "try_reallocarray lib p n sz s =
     (case reallocarray n sz of
        None \<Rightarrow> Some (None, s\<lparr>errnum := lib_enomem lib\<rparr>)
      | Some bytes \<Rightarrow> c_realloc lib p bytes s)"

definition x_reallocarray ::
  "xhandler \<Rightarrow> clib \<Rightarrow> nat option \<Rightarrow> nat \<Rightarrow> nat \<Rightarrow> string \<Rightarrow> int \<Rightarrow> prog \<Rightarrow> (nat option \<times> prog) outcome" where
  "x_reallocarray eh lib p n sz file line =
     x_loop (try_reallocarray lib p n sz) (sz > 0 \<and> n > 0) (eh ''reallocarray'' (wrap64 (n * sz)) file line)"

text \<open>The copies. The source is the memory the pointer leads to.\<close>

definition copy_to :: "bytes \<Rightarrow> nat option \<times> prog \<Rightarrow> (nat option \<times> prog) outcome" where
  "copy_to bs r =
     (case r of (None, s) \<Rightarrow> None
      | (Some a, s) \<Rightarrow> map_option (\<lambda>s. Inr (Some a, s)) (block_put a 0 bs s))"

definition x_strdup :: "xhandler \<Rightarrow> clib \<Rightarrow> bytes \<Rightarrow> string \<Rightarrow> int \<Rightarrow> prog \<Rightarrow> (nat option \<times> prog) outcome" where
  "x_strdup eh lib mem file line s =
     (case c_strlen mem of None \<Rightarrow> None
      | Some l \<Rightarrow>
          (let len = l + 1
           in and_then (x_loop (\<lambda>s. Some (c_malloc lib len s)) True (eh ''strdup'' len file line) s)
                (copy_to (take len mem))))"

definition x_strndup :: "xhandler \<Rightarrow> clib \<Rightarrow> bytes \<Rightarrow> nat \<Rightarrow> string \<Rightarrow> int \<Rightarrow> prog \<Rightarrow> (nat option \<times> prog) outcome" where
  "x_strndup eh lib mem sz file line s =
     (case strndup_scan mem sz of None \<Rightarrow> None
      | Some len \<Rightarrow>
          and_then (x_loop (\<lambda>s. Some (c_malloc lib (len + 1) s)) True (eh ''strndup'' (len + 1) file line) s)
            (copy_to (take len mem @ [NUL])))"

text \<open>A failed attempt to format reports the size it would have needed, or 0 when there is none.\<close>

definition try_asprintf :: "clib \<Rightarrow> bytes \<Rightarrow> va_arg list \<Rightarrow> prog \<Rightarrow> (nat option \<times> prog) option" where
  "try_asprintf lib fmt args s =
     map_option (\<lambda>((status, p), s). (if status < 0 then None else p, s)) (vasprintf lib fmt args s)"

definition asprintf_fail :: "xhandler \<Rightarrow> clib \<Rightarrow> string \<Rightarrow> bytes \<Rightarrow> va_arg list \<Rightarrow> string \<Rightarrow> int \<Rightarrow> prog \<Rightarrow> prog outcome" where
  "asprintf_fail eh lib function fmt args file line s =
     (let (t, s) = lib_format lib fmt args s;
          status = (case t of None \<Rightarrow> 0 | Some t \<Rightarrow> length t + 1)
      in eh function status file line s)"

definition x_vasprintf ::
  "xhandler \<Rightarrow> clib \<Rightarrow> bytes \<Rightarrow> va_arg list \<Rightarrow> string \<Rightarrow> int \<Rightarrow> prog \<Rightarrow> (nat option \<times> prog) outcome" where
  "x_vasprintf eh lib fmt args file line =
     x_loop (try_asprintf lib fmt args) True (asprintf_fail eh lib ''vasprintf'' fmt args file line)"

definition x_asprintf ::
  "xhandler \<Rightarrow> clib \<Rightarrow> string \<Rightarrow> int \<Rightarrow> bytes \<Rightarrow> va_arg list \<Rightarrow> prog \<Rightarrow> (nat option \<times> prog) outcome" where
  "x_asprintf eh lib file line fmt args =
     x_loop (try_asprintf lib fmt args) True (asprintf_fail eh lib ''asprintf'' fmt args file line)"

section \<open>Setting the lists of handlers\<close>

definition HANDLER_SIZE :: nat where
  "HANDLER_SIZE = 8"

definition XCALLOC_LINE :: int where
  "XCALLOC_LINE = 134"

text \<open>
  The old list is freed unless it is static, which must not be freed, then a block for the new one is allocated. The block of
  zeroed bytes becomes a list of handlers when they are stored in it. The last argument is what
  assigns the variable.
\<close>

definition free_list :: "hlist \<Rightarrow> prog \<Rightarrow> prog option" where
  "free_list l s =
     (case l of
        List_at a \<Rightarrow> if lists s a = None then None else Some (s\<lparr>lists := (lists s)(a := None)\<rparr>)
      | Null_list \<Rightarrow> Some s
      | _ \<Rightarrow> None)"

definition message_handlers ::
  "xhandler \<Rightarrow> clib \<Rightarrow> hlist \<Rightarrow> handler list \<Rightarrow> (hlist \<Rightarrow> prog \<Rightarrow> prog) \<Rightarrow> prog \<Rightarrow> prog outcome" where
  "message_handlers eh lib l hs assign s =
     (case (if l \<noteq> Stdout_handlers \<and> l \<noteq> Stderr_handlers then free_list l s else Some s) of
        None \<Rightarrow> None
      | Some s \<Rightarrow>
          and_then (x_calloc eh lib (length hs + 1) HANDLER_SIZE ''util/messages.c'' XCALLOC_LINE s)
            (\<lambda>(p, s). case p of None \<Rightarrow> None
               | Some a \<Rightarrow> goes_on (assign (List_at a)
                             (s\<lparr>blocks := (blocks s)(a := None), lists := (lists s)(a \<mapsto> hs)\<rparr>))))"

definition message_handlers_debug :: "xhandler \<Rightarrow> clib \<Rightarrow> handler list \<Rightarrow> prog \<Rightarrow> prog outcome" where
  "message_handlers_debug eh lib hs s =
     message_handlers eh lib (debug_handlers s) hs (\<lambda>l s. s\<lparr>debug_handlers := l\<rparr>) s"

definition message_handlers_notice :: "xhandler \<Rightarrow> clib \<Rightarrow> handler list \<Rightarrow> prog \<Rightarrow> prog outcome" where
  "message_handlers_notice eh lib hs s =
     message_handlers eh lib (notice_handlers s) hs (\<lambda>l s. s\<lparr>notice_handlers := l\<rparr>) s"

definition message_handlers_warn :: "xhandler \<Rightarrow> clib \<Rightarrow> handler list \<Rightarrow> prog \<Rightarrow> prog outcome" where
  "message_handlers_warn eh lib hs s =
     message_handlers eh lib (warn_handlers s) hs (\<lambda>l s. s\<lparr>warn_handlers := l\<rparr>) s"

definition message_handlers_die :: "xhandler \<Rightarrow> clib \<Rightarrow> handler list \<Rightarrow> prog \<Rightarrow> prog outcome" where
  "message_handlers_die eh lib hs s =
     message_handlers eh lib (die_handlers s) hs (\<lambda>l s. s\<lparr>die_handlers := l\<rparr>) s"

definition message_handlers_reset :: "prog \<Rightarrow> prog option" where
  "message_handlers_reset s = do {
     s \<leftarrow> free_list (debug_handlers s) s;
     let s = s\<lparr>debug_handlers := Null_list\<rparr>;
     s \<leftarrow> (if notice_handlers s \<noteq> Stdout_handlers
          then map_option (\<lambda>s. s\<lparr>notice_handlers := Stdout_handlers\<rparr>) (free_list (notice_handlers s) s) else Some s);
     s \<leftarrow> (if warn_handlers s \<noteq> Stderr_handlers
          then map_option (\<lambda>s. s\<lparr>warn_handlers := Stderr_handlers\<rparr>) (free_list (warn_handlers s) s) else Some s);
     (if die_handlers s \<noteq> Stderr_handlers
      then map_option (\<lambda>s. s\<lparr>die_handlers := Stderr_handlers\<rparr>) (free_list (die_handlers s) s) else Some s) }"

section \<open>The loop\<close>

lemma x_loop_first:
  "attempt s = Some (Some p, s') \<Longrightarrow> x_loop attempt again fail s = goes_on (Some p, s')"
  by (subst x_loop.simps) simp

lemma x_loop_stops:
  "attempt s = Some (None, s') \<Longrightarrow> \<not> again \<Longrightarrow> x_loop attempt again fail s = goes_on (None, s')"
  by (subst x_loop.simps) simp

lemma x_loop_exits:
  "attempt s = Some (None, s') \<Longrightarrow> again \<Longrightarrow> fail s' = exits c s'' \<Longrightarrow> x_loop attempt again fail s = exits c s''"
  by (subst x_loop.simps) simp

lemma x_loop_retries:
  "attempt s = Some (None, s') \<Longrightarrow> again \<Longrightarrow> fail s' = goes_on s'' \<Longrightarrow>
   x_loop attempt again fail s = x_loop attempt again fail s''"
  by (subst x_loop.simps) simp

text \<open>
  What the loop returns is what one of the attempts gave, and not a null pointer where the function
  goes on until it has memory.
\<close>

lemma x_loop_result:
  assumes "x_loop attempt again fail s = goes_on (p, s')"
  shows "(\<exists>t. attempt t = Some (p, s')) \<and> (again \<longrightarrow> p \<noteq> None)"
proof -
  let ?P = "\<lambda>(attempt :: prog \<Rightarrow> (nat option \<times> prog) option) again (fail :: prog \<Rightarrow> prog outcome) (s :: prog)
    (r :: int \<times> prog + nat option \<times> prog). \<forall>p s'. r = Inr (p, s') \<longrightarrow>
    (\<exists>t. attempt t = Some (p, s')) \<and> (again \<longrightarrow> p \<noteq> None)"
  have "?P attempt again fail s (Inr (p, s'))"
    using assms
  proof (rule x_loop.raw_induct[where P = ?P, rotated])
    fix loop attempt again fail s r
    assume ih: "\<And>again fail s b y. loop again fail s b = Some y \<Longrightarrow> ?P again fail s b y"
      and step: "(case attempt s of None \<Rightarrow> None
        | Some (None, s) \<Rightarrow> if \<not> again then goes_on (None, s)
            else case fail s of None \<Rightarrow> None | Some (Inl e) \<Rightarrow> Some (Inl e) | Some (Inr s) \<Rightarrow> loop attempt again fail s
        | Some (Some p, s) \<Rightarrow> goes_on (Some p, s)) = Some r"
    show "?P attempt again fail s r"
    proof (intro allI impI)
      fix p s' assume r: "r = Inr (p, s')"
      obtain q t where q: "attempt s = Some (q, t)" using step by (auto split: option.splits)
      show "(\<exists>t. attempt t = Some (p, s')) \<and> (again \<longrightarrow> p \<noteq> None)"
      proof (cases "q = None \<and> again")
        case True
        then obtain t' where "loop attempt again fail t' = Some r"
          using step q r by (auto split: option.splits sum.splits)
        from ih[OF this] r show ?thesis by blast
      next
        case False
        then have "q = p" "t = s'" using step q r by (auto split: option.splits if_splits)
        then show ?thesis using q False by auto
      qed
    qed
  qed
  then show ?thesis by blast
qed

text \<open>
  With a handler that returns and makes no more allocations, or some, and memory from some request on,
  the loop ends.
\<close>

lemma x_loop_returns:
  assumes attempt: "\<And>s. attempt s \<noteq> None"
    and later: "\<And>s. n \<le> tries s \<Longrightarrow> \<exists>p s'. attempt s = Some (Some p, s')"
    and counts: "\<And>s s'. attempt s = Some (None, s') \<Longrightarrow> tries s < tries s'"
    and fail: "\<And>s. \<exists>s'. fail s = goes_on s' \<and> tries s \<le> tries s'"
  shows "\<exists>p s'. x_loop attempt True fail s = goes_on (Some p, s')"
proof (induction "n - tries s" arbitrary: s rule: less_induct)
  case less
  obtain q t where q: "attempt s = Some (q, t)" using attempt[of s] by auto
  show ?case
  proof (cases q)
    case (Some p)
    then show ?thesis using x_loop_first q by blast
  next
    case None
    then have lt: "tries s < tries t" using counts q by blast
    have "tries s < n" using later[of s] q None by (metis not_le option.inject prod.inject option.distinct(1))
    obtain t' where t': "fail t = goes_on t'" "tries t \<le> tries t'" using fail by blast
    have "n - tries t' < n - tries s" using lt t'(2) \<open>tries s < n\<close> by simp
    from less[OF this] show ?thesis
      using x_loop_retries[where attempt = attempt and again = True and fail = fail, OF q[unfolded None] TrueI t'(1)]
      by simp
  qed
qed

section \<open>The default handler\<close>

lemma sysdie_no_return: "sysdie n lib fmt args s \<noteq> goes_on s'"
  by (auto simp: sysdie_def and_then_def Let_def split: option.splits sum.splits)

lemma xmalloc_fail_no_return: "xmalloc_fail n lib f sz file line s \<noteq> goes_on s'"
  by (simp add: xmalloc_fail_def sysdie_no_return)

lemma x_loop_default:
  assumes "x_loop attempt True (xmalloc_fail n lib f sz file line) s = goes_on (p, s')"
  shows "attempt s = Some (p, s') \<and> p \<noteq> None"
  using assms xmalloc_fail_no_return
  by (subst (asm) x_loop.simps) (auto split: option.splits sum.splits)

text \<open>The message of the default handler.\<close>

definition alloc_message :: "string \<Rightarrow> nat \<Rightarrow> string \<Rightarrow> int \<Rightarrow> string" where
  "alloc_message function sz file line =
     ''failed to '' @ function @ '' '' @ show_nat sz @ '' bytes at '' @ file @ '' line '' @ show_int line"

definition alloc_items :: "item list" where
  "alloc_items = map Lit ''failed to '' @ plain DP_C_NONE (CHR ''s'') # map Lit '' '' @ plain DP_C_LONG (CHR ''u'')
     # map Lit '' bytes at '' @ plain DP_C_NONE (CHR ''s'') # map Lit '' line '' @ plain DP_C_NONE (CHR ''d'') # []"

lemma alloc_items_format: "unparse alloc_items = ''failed to %s %lu bytes at %s line %d''"
  by (simp add: alloc_items_def unparse_def prec_text_def)

lemma alloc_items_ok: "well_formed alloc_items"
  by (auto simp: alloc_items_def well_formed_def conversions_def)

lemma sint_line: "- 2147483648 \<le> line \<Longrightarrow> line < 2147483648 \<Longrightarrow> sint (word_of_int line :: u32) = line"
  by (rule sint_word_of_int_small)

lemma denote_cons: "denote rnd (it # its) args =
    Option.bind (item_text rnd it args) (\<lambda>(t, args). map_option ((@) t) (denote rnd its args))"
  by (simp split: Option.bind_splits)

lemma alloc_message_denote:
  assumes "no_nul function" "no_nul file" "int (length function) \<le> INT_MAX" "int (length file) \<le> INT_MAX"
    "sz < 2 ^ 64" "- 2147483648 \<le> line" "line < 2147483648"
  shows "denote rnd alloc_items [VStr (Some (function @ [NUL])), VLong (word_of_nat sz), VStr (Some (file @ [NUL])),
      VInt (word_of_int line)] = Some (alloc_message function sz file line)"
proof -
  have u: "unat (word_of_nat sz :: u64) = sz" using assms(5) by (simp add: unat_of_nat)
  note s = item_text_str[OF assms(1,3), of rnd "[]"] item_text_str[OF assms(2,4), of rnd "[]"]
  show ?thesis
    unfolding alloc_items_def
    by (simp only: denote_lits denote_cons s item_text_long item_text_int sint_line[OF assms(6,7)] u
        bind.bind_lunit prod.case denote.simps(1) option.map append_Nil2 alloc_message_def)
qed

lemma alloc_message_no_nul: "no_nul function \<Longrightarrow> no_nul file \<Longrightarrow> no_nul (alloc_message function sz file line)"
  by (auto simp: alloc_message_def show_int_def)

lemma show_nat_u64: "n < 2 ^ 64 \<Longrightarrow> length (show_nat n) \<le> 20"
  by (rule show_nat_length) auto

text \<open>A library that formats with the \<open>vsnprintf\<close> of this repository.\<close>

definition portable_lib :: "(rat \<Rightarrow> rat) \<Rightarrow> clib \<Rightarrow> bool" where
  "portable_lib rnd lib \<longleftrightarrow> rounding rnd \<and> (\<forall>i fmt args. lib_text lib i fmt args = portable_text rnd fmt args)"

lemma portable_steady:
  assumes "portable_lib rnd lib" "well_formed its" "denote rnd its args = Some t" "int (length t) \<le> INT_MAX" "no_nul t"
  shows "steady lib (unparse its @ NUL # junk) args t"
  using assms portable_text_denote[OF _ assms(2-4)] by (simp add: steady_def portable_lib_def)

text \<open>
  A fatal report ends the program with the status of a fatal error, whether all handlers are served
  or not.
\<close>

definition dies :: "clib \<Rightarrow> handler list \<Rightarrow> string \<Rightarrow> int \<Rightarrow> prog \<Rightarrow> 'a outcome \<Rightarrow> bool" where
  "dies lib hs t e s r \<longleftrightarrow>
     (let served_hs = served lib (length t) (tries s) hs
      in \<exists>s'. r = exits (fatal_status s) s' \<and>
        screen s' = screen s @ concat (map (handler_line lib (message_program_name s) t e) served_hs)
          @ (if served_hs = hs then [] else map (Pair Stderr) (no_room_text lib (length t))) \<and>
        user_calls s' = user_calls s @ concat (map (user_entry (length t) e) served_hs))"

lemma reports_dies:
  assumes "reports lib hs t e s r" shows "dies lib hs t e s (and_then r (\<lambda>s. exits (fatal_status s) s))"
proof -
  have f: "keeps s s' \<Longrightarrow> fatal_status s' = fatal_status s" for s' by (simp add: keeps_def fatal_status_def)
  show ?thesis
  proof (cases "served lib (length t) (tries s) hs = hs")
    case True
    then obtain s' where r: "r = goes_on s'" "keeps s s'"
        "screen s' = screen s @ concat (map (handler_line lib (message_program_name s) t e) hs)"
        "user_calls s' = user_calls s @ concat (map (user_entry (length t) e) hs)"
      using assms by (auto simp: reports_def)
    show ?thesis using True r(3,4) f[OF r(2)] by (simp add: dies_def Let_def r(1))
  next
    case False
    then show ?thesis using assms by (auto simp: reports_def dies_def Let_def)
  qed
qed

lemma sysdie_reports:
  assumes "steady lib fmt args t" "pending s = []" "heap_ok s" "handler_list (die_handlers s) s = Some hs"
  shows "dies lib hs t (errnum s) s (sysdie (Suc n) lib fmt args s)"
  unfolding sysdie_def Let_def by (rule reports_dies[OF deliver_reports[OF assms]])

lemma xmalloc_fail_reports:
  assumes lib: "portable_lib rnd lib" and s: "pending s = []" "heap_ok s" "handler_list (die_handlers s) s = Some hs"
    and names: "no_nul function" "no_nul file" "length function + length file \<le> 1000"
    and sz: "0 < sz" "sz < 2 ^ 64" and line: "0 \<le> line" "line < 2147483648"
  shows "dies lib hs (alloc_message function sz file line) (errnum s) s (xmalloc_fail (Suc n) lib function sz file line s)"
proof -
  let ?t = "alloc_message function sz file line"
  let ?args = "[VStr (Some (function @ [NUL])), VLong (word_of_nat sz), VStr (Some (file @ [NUL])), VInt (word_of_int line)]"
  have d: "denote rnd alloc_items ?args = Some ?t"
    using names sz(2) line by (intro alloc_message_denote) auto
  have "length (show_int line) \<le> 20" using line show_nat_u64[of "nat line"] by (simp add: show_int_def)
  then have "int (length ?t) \<le> INT_MAX" using names(3) show_nat_u64[OF sz(2)] by (simp add: alloc_message_def)
  then have "steady lib (unparse alloc_items @ [NUL]) ?args ?t"
    by (intro portable_steady[OF lib alloc_items_ok d]) (auto simp: alloc_message_no_nul names)
  then show ?thesis
    unfolding xmalloc_fail_def if_not_P[OF less_imp_neq[OF sz(1), THEN not_sym]] alloc_items_format
    by (rule sysdie_reports[OF _ s])
qed

section \<open>The functions\<close>

text \<open>
  Out of memory, with the default handler: a fatal report of the size, the file and the line, by a
  program that has made one request more and has the \<open>errno\<close> of a failed request.
\<close>

definition refused :: "clib \<Rightarrow> prog \<Rightarrow> prog" where
  "refused lib s = s\<lparr>tries := tries s + 1, errnum := lib_enomem lib\<rparr>"

lemma x_malloc_dies:
  assumes lib: "portable_lib rnd lib" and s: "pending s = []" "heap_ok s" "handler_list (die_handlers s) s = Some hs"
    and filename: "no_nul file" "length file \<le> 900"
    and sz: "0 < sz" "sz < 2 ^ 64" and line: "0 \<le> line" "line < 2147483648"
    and full: "\<not> lib_room lib (tries s) sz"
  shows "dies lib hs (alloc_message ''malloc'' sz file line) (lib_enomem lib) (refused lib s)
    (x_malloc (xmalloc_fail (Suc n) lib) lib sz file line s)"
proof -
  let ?s = "refused lib s"
  have m: "c_malloc lib sz s = (None, ?s)" using full by (simp add: c_malloc_def refused_def)
  have hl: "handler_list (die_handlers ?s) ?s = Some hs" using s(3) by (cases "die_handlers s") (auto simp: refused_def)
  have h: "pending ?s = []" "heap_ok ?s" using s(1,2) by (auto simp: heap_ok_def refused_def)
  have d: "dies lib hs (alloc_message ''malloc'' sz file line) (lib_enomem lib) ?s
      (xmalloc_fail (Suc n) lib ''malloc'' sz file line ?s)"
    using xmalloc_fail_reports[OF lib h hl, of "''malloc''" "file" sz line n] filename sz line by (simp add: refused_def)
  then obtain c s' where f: "xmalloc_fail (Suc n) lib ''malloc'' sz file line ?s = exits c s'"
    by (auto simp: dies_def Let_def)
  have "x_malloc (xmalloc_fail (Suc n) lib) lib sz file line s = exits c s'"
    unfolding x_malloc_def Let_def if_P[OF sz(1)] by (rule x_loop_exits) (use m f in simp_all)
  then show ?thesis using d f by (auto simp: dies_def)
qed

lemma x_malloc_returns:
  assumes later: "\<And>i. n \<le> i \<Longrightarrow> lib_room lib i (if sz > 0 then sz else 1)"
    and handler: "\<And>s. \<exists>s'. eh ''malloc'' sz file line s = goes_on s' \<and> tries s \<le> tries s'"
  shows "\<exists>p s'. x_malloc eh lib sz file line s = goes_on (Some p, s')"
  unfolding x_malloc_def Let_def
  by (rule x_loop_returns[where n = n]) (use later handler in \<open>auto simp: c_malloc_def split: if_splits\<close>)

lemma malloc_put:
  assumes "c_malloc lib (length bs) t = (Some a, s)"
  shows "block_put a 0 bs s = Some (s\<lparr>blocks := (blocks s)(a \<mapsto> bs)\<rparr>)"
  using assms by (auto simp: c_malloc_def block_put_def mem_write_def split: if_splits)

lemma x_strndup_copies:
  assumes "x_strndup eh lib mem sz file line s = goes_on (p, s')"
  shows "\<exists>a. p = Some a \<and> blocks s' a = Some (c_str (take sz mem) @ [NUL])"
proof -
  obtain len where len: "strndup_scan mem sz = Some len" using assms by (auto simp: x_strndup_def split: option.splits)
  note copy = strndup_scan_c_str[OF len]
  have r: "and_then (x_loop (\<lambda>s. Some (c_malloc lib (len + 1) s)) True (eh ''strndup'' (len + 1) file line) s)
      (copy_to (take len mem @ [NUL])) = goes_on (p, s')"
    using assms by (simp add: x_strndup_def len)
  then obtain q t where q: "x_loop (\<lambda>s. Some (c_malloc lib (len + 1) s)) True (eh ''strndup'' (len + 1) file line) s = goes_on (q, t)"
    and c: "copy_to (take len mem @ [NUL]) (q, t) = goes_on (p, s')"
    by (auto simp: and_then_def split: option.splits sum.splits)
  from x_loop_result[OF q] obtain a u where a: "c_malloc lib (len + 1) u = (Some a, t)" "q = Some a" by auto
  have l: "length (take len mem @ [NUL]) = len + 1" using copy by (metis length_append_singleton Suc_eq_plus1)
  show ?thesis using c malloc_put[OF a(1)[folded l]] a(2) copy by (auto simp: copy_to_def)
qed

lemma vasprintf_text:
  assumes "steady lib fmt args t"
  shows "vasprintf lib fmt args s =
    (if lib_room lib (tries s) (length t + 1)
     then Some ((int (length t), Some (fresh s)),
       s\<lparr>blocks := (blocks s)(fresh s \<mapsto> t @ [NUL]), fresh := fresh s + 1, tries := tries s + 1, prints := prints s + 2\<rparr>)
     else Some ((-1, None), s\<lparr>prints := prints s + 1, tries := tries s + 1, errnum := lib_enomem lib\<rparr>))"
proof -
  have w: "mem_write (map (lib_junk lib (tries s)) [0..<Suc (length t)]) 0 (t @ [NUL]) = Some (t @ [NUL])"
    by (simp add: mem_write_def)
  show ?thesis using assms w
    by (simp add: vasprintf_def lib_format_def steady_def c_malloc_def block_put_def Let_def del: upt_Suc)
qed

lemma x_asprintf_text:
  assumes "steady lib fmt args t" "x_asprintf eh lib file line fmt args s = goes_on (p, s')"
  shows "\<exists>a. p = Some a \<and> blocks s' a = Some (t @ [NUL])"
proof -
  obtain u where u: "try_asprintf lib fmt args u = Some (p, s')" "p \<noteq> None"
    using x_loop_result assms(2) unfolding x_asprintf_def by blast
  then show ?thesis
    by (auto simp: try_asprintf_def vasprintf_text[OF assms(1)] split: if_splits)
qed

end
