(* ===== verification/Handlers.thy ===== *)
theory Handlers
  imports Xmalloc
begin

text \<open>
  The lists of message handlers as a state machine. Its steps are the calls a program makes to
  \<open>util/messages.c\<close>: setting one of the four lists, resetting them, and reporting. The invariant is
  that every list that is a block is allocated, belongs to exactly one of the four variables, and that no
  block is lost; it holds in every reachable state when memory exhaustion ends the program.
\<close>

section \<open>Ownership\<close>

fun list_address :: "hlist \<Rightarrow> nat list" where
  "list_address (List_at a) = [a]"
| "list_address _ = []"

definition owned :: "prog \<Rightarrow> nat list" where
  "owned s = list_address (debug_handlers s) @ list_address (notice_handlers s)
     @ list_address (warn_handlers s) @ list_address (die_handlers s)"

fun is_block :: "hlist \<Rightarrow> bool" where
  "is_block (List_at a) = True"
| "is_block _ = False"

definition lists_ok :: "prog \<Rightarrow> bool" where
  "lists_ok s \<longleftrightarrow> heap_ok s \<and> distinct (owned s) \<and> dom (lists s) = set (owned s)
     \<and> (debug_handlers s = Null_list \<or> is_block (debug_handlers s))
     \<and> (notice_handlers s = Stdout_handlers \<or> is_block (notice_handlers s))
     \<and> (warn_handlers s = Stderr_handlers \<or> is_block (warn_handlers s))
     \<and> (die_handlers s = Stderr_handlers \<or> is_block (die_handlers s))"

text \<open>The state before the first call.\<close>

definition start_prog :: prog where
  "start_prog = \<lparr>blocks = Map.empty, lists = Map.empty, fresh = 0, tries = 0, prints = 0, errnum = 0,
     pending = [], shown = [], user_calls = [], debug_handlers = Null_list, notice_handlers = Stdout_handlers,
     warn_handlers = Stderr_handlers, die_handlers = Stderr_handlers, message_fatal_cleanup = None,
     message_program_name = None\<rparr>"

lemma start_ok: "lists_ok start_prog"
  by (simp add: lists_ok_def heap_ok_def owned_def start_prog_def)

section \<open>Reports leave the lists alone\<close>

definition same_lists :: "prog \<Rightarrow> prog \<Rightarrow> bool" where
  "same_lists s s' \<longleftrightarrow> lists s' = lists s \<and> debug_handlers s' = debug_handlers s \<and> notice_handlers s' = notice_handlers s
     \<and> warn_handlers s' = warn_handlers s \<and> die_handlers s' = die_handlers s \<and> (heap_ok s \<longrightarrow> heap_ok s')"

lemma same_lists_refl [simp]: "same_lists s s"
  by (simp add: same_lists_def)

lemma same_lists_trans: "same_lists s t \<Longrightarrow> same_lists t u \<Longrightarrow> same_lists s u"
  by (simp add: same_lists_def)

lemma same_lists_ok: "same_lists s s' \<Longrightarrow> lists_ok s \<Longrightarrow> lists_ok s'"
  by (simp add: same_lists_def lists_ok_def owned_def)

lemma format_same: "same_lists s (snd (lib_format lib fmt args s))"
  by (simp add: same_lists_def lib_format_def heap_ok_def)

lemma malloc_same: "same_lists s (snd (c_malloc lib n s))"
  by (auto simp: same_lists_def c_malloc_def heap_ok_def)

lemma free_same: "c_free p s = Some s' \<Longrightarrow> same_lists s s'"
  by (auto simp: same_lists_def c_free_def heap_ok_def split: option.splits if_splits)

lemma put_same: "block_put a off bs s = Some s' \<Longrightarrow> same_lists s s'"
  by (auto simp: same_lists_def block_put_def heap_ok_def split: Option.bind_splits if_splits)

lemma output_same:
  "same_lists s (message_log_stdout lib fmt args e s)" "same_lists s (message_log_stderr lib fmt args e s)"
  "same_lists s (c_syslog pri t s)" "same_lists s (s\<lparr>user_calls := us\<rparr>)"
  by (auto simp: same_lists_def heap_ok_def message_log_stdout_def message_log_stderr_def lib_format_def put_stdout_def
      put_stderr_def c_syslog_def fflush_stdout_def Let_def split: option.splits)

text \<open>A syslog function that leaves them alone makes every report do so.\<close>

definition quiet :: "syslog_fun \<Rightarrow> bool" where
  "quiet sl \<longleftrightarrow> (\<forall>pri len fmt args e s s'. sl pri len fmt args e s = goes_on s' \<longrightarrow> same_lists s s')"

lemma call_handlers_same:
  "quiet sl \<Longrightarrow> call_handlers sl lib hs len fmt args e s = goes_on s' \<Longrightarrow> same_lists s s'"
proof (induction hs arbitrary: s)
  case (Cons h hs)
  from Cons.prems(2) obtain t where t: "call_handler sl lib h len fmt args e s = goes_on t"
    "call_handlers sl lib hs len fmt args e t = goes_on s'"
    by (auto simp: and_then_def split: option.splits sum.splits)
  have "same_lists s t"
    using t(1) Cons.prems(1) output_same by (cases h) (auto simp: quiet_def)
  then show ?case using Cons.IH[OF Cons.prems(1) t(2)] same_lists_trans by blast
qed simp

lemma deliver_same:
  assumes "quiet sl" "deliver sl lib hl fmt args e s = goes_on s'"
  shows "same_lists s s'"
proof -
  obtain t s1 where f: "lib_format lib fmt args s = (t, s1)" by (cases "lib_format lib fmt args s")
  then have s1: "same_lists s s1" using format_same[of s lib fmt args] by simp
  show ?thesis
  proof (cases t)
    case None
    then show ?thesis using assms(2) s1 f by (simp add: deliver_def)
  next
    case (Some x)
    then obtain hs where "call_handlers sl lib hs (length x) fmt args e s1 = goes_on s'"
      using assms(2) f by (auto simp: deliver_def split: option.splits)
    then show ?thesis using call_handlers_same[OF assms(1)] s1 same_lists_trans by blast
  qed
qed

lemma syslog_quiet: "quiet (message_log_syslog n lib)"
proof (induction n)
  case 0
  then show ?case by (simp add: quiet_def message_log_syslog.simps)
next
  case (Suc n)
  show ?case unfolding quiet_def
  proof (intro allI impI)
    fix pri len fmt args e s s'
    assume r: "message_log_syslog (Suc n) lib pri len fmt args e s = goes_on s'"
    obtain p s1 where m: "c_malloc lib (len + 1) s = (p, s1)" by (cases "c_malloc lib (len + 1) s")
    then have s1: "same_lists s s1" using malloc_same[of s lib "len + 1"] by simp
    obtain a where a: "p = Some a" using r m by (cases p) (auto simp: message_log_syslog.simps)
    obtain t s2 where f: "lib_format lib fmt args s1 = (t, s2)" by (cases "lib_format lib fmt args s1")
    then have s2: "same_lists s s2" using format_same[of s1 lib fmt args] s1 same_lists_trans by simp
    show "same_lists s s'"
    proof (cases t)
      case None
      then obtain s3 where rep: "deliver (message_log_syslog n lib) lib (warn_handlers s2)
          (''failed to format output with vsnprintf in syslog handler'' @ [NUL]) [] 0 s2 = goes_on s3"
        and free: "c_free (Some a) s3 = Some s'"
        using r m a f by (auto simp: message_log_syslog.simps and_then_def split: option.splits sum.splits)
      from deliver_same[OF Suc.IH rep] free_same[OF free] show ?thesis
        using s2 same_lists_trans by metis
    next
      case (Some x)
      then obtain s3 b where "block_put a 0 (take len x @ [NUL]) s2 = Some s3" "blocks s3 a = Some b"
        "c_free (Some a) (if e = 0 then c_syslog pri (c_str b) s3
           else c_syslog pri (c_str b @ '': '' @ lib_strerror lib e) s3) = Some s'"
        using r m a f by (auto simp: message_log_syslog.simps Let_def split: Option.bind_splits)
      note x = this
      have "same_lists s3 (if e = 0 then c_syslog pri (c_str b) s3
           else c_syslog pri (c_str b @ '': '' @ lib_strerror lib e) s3)"
        using output_same(3) by simp
      then show ?thesis
        using same_lists_trans[OF same_lists_trans[OF s2 put_same[OF x(1)]]] free_same[OF x(3)] same_lists_trans by metis
    qed
  qed
qed

lemma report_same:
  "deliver (message_log_syslog n lib) lib hl fmt args e s = goes_on s' \<Longrightarrow> same_lists s s'"
  by (rule deliver_same[OF syslog_quiet])

section \<open>Setting and resetting\<close>

text \<open>The four variables, so that one lemma covers the four functions.\<close>

datatype list_var = Debug_list | Notice_list | Warn_list | Die_list

fun var_get :: "list_var \<Rightarrow> prog \<Rightarrow> hlist" where
  "var_get Debug_list s = debug_handlers s"
| "var_get Notice_list s = notice_handlers s"
| "var_get Warn_list s = warn_handlers s"
| "var_get Die_list s = die_handlers s"

fun var_set :: "list_var \<Rightarrow> hlist \<Rightarrow> prog \<Rightarrow> prog" where
  "var_set Debug_list l s = s\<lparr>debug_handlers := l\<rparr>"
| "var_set Notice_list l s = s\<lparr>notice_handlers := l\<rparr>"
| "var_set Warn_list l s = s\<lparr>warn_handlers := l\<rparr>"
| "var_set Die_list l s = s\<lparr>die_handlers := l\<rparr>"

lemma setters:
  "message_handlers_debug eh lib hs s = message_handlers eh lib (var_get Debug_list s) hs (var_set Debug_list) s"
  "message_handlers_notice eh lib hs s = message_handlers eh lib (var_get Notice_list s) hs (var_set Notice_list) s"
  "message_handlers_warn eh lib hs s = message_handlers eh lib (var_get Warn_list s) hs (var_set Warn_list) s"
  "message_handlers_die eh lib hs s = message_handlers eh lib (var_get Die_list s) hs (var_set Die_list) s"
proof -
  have "var_set Debug_list = (\<lambda>l s. s\<lparr>debug_handlers := l\<rparr>)" "var_set Notice_list = (\<lambda>l s. s\<lparr>notice_handlers := l\<rparr>)"
    "var_set Warn_list = (\<lambda>l s. s\<lparr>warn_handlers := l\<rparr>)" "var_set Die_list = (\<lambda>l s. s\<lparr>die_handlers := l\<rparr>)"
    by (simp_all add: fun_eq_iff)
  then show "message_handlers_debug eh lib hs s = message_handlers eh lib (var_get Debug_list s) hs (var_set Debug_list) s"
    "message_handlers_notice eh lib hs s = message_handlers eh lib (var_get Notice_list s) hs (var_set Notice_list) s"
    "message_handlers_warn eh lib hs s = message_handlers eh lib (var_get Warn_list s) hs (var_set Warn_list) s"
    "message_handlers_die eh lib hs s = message_handlers eh lib (var_get Die_list s) hs (var_set Die_list) s"
    by (simp_all add: message_handlers_debug_def message_handlers_notice_def message_handlers_warn_def
        message_handlers_die_def)
qed

text \<open>Allocation with the default handler either succeeds at once or ends the program.\<close>

lemma x_calloc_default:
  assumes "x_calloc (xmalloc_fail n lib) lib k sz file line s = goes_on (p, s')" "0 < k" "0 < sz"
  shows "p = Some (fresh s) \<and> s' = s\<lparr>blocks := (blocks s)(fresh s \<mapsto> replicate (k * sz) NUL),
           fresh := fresh s + 1, tries := tries s + 1\<rparr>"
proof -
  have "x_loop (\<lambda>s. Some (c_calloc lib k sz s)) True (xmalloc_fail n lib ''calloc'' (wrap64 (k * sz)) file line) s = goes_on (p, s')"
    using assms by (simp add: x_calloc_def)
  from x_loop_default[OF this] show ?thesis by (auto simp: c_calloc_def split: if_splits)
qed

text \<open>What a setter leaves: the old list is gone, the new one is in a block of its own.\<close>

lemma message_handlers_effect:
  assumes "message_handlers (xmalloc_fail n lib) lib l hs assign s = goes_on s'"
  shows "(\<forall>a. l = List_at a \<longrightarrow> lists s a \<noteq> None)
    \<and> s' = assign (List_at (fresh s))
        (s\<lparr>fresh := fresh s + 1, tries := tries s + 1, blocks := (blocks s)(fresh s := None),
           lists := (case l of List_at a \<Rightarrow> (lists s)(a := None) | _ \<Rightarrow> lists s)(fresh s \<mapsto> hs)\<rparr>)"
proof -
  obtain s1 where f: "(if l \<noteq> Stdout_handlers \<and> l \<noteq> Stderr_handlers then free_list l s else Some s) = Some s1"
    using assms(1) unfolding message_handlers_def by (simp split: option.splits)
  then have s1: "s1 = s\<lparr>lists := (case l of List_at a \<Rightarrow> (lists s)(a := None) | _ \<Rightarrow> lists s)\<rparr>"
    "\<forall>a. l = List_at a \<longrightarrow> lists s a \<noteq> None"
    by (cases l; auto simp: free_list_def split: if_splits)+
  obtain p s2 where c: "x_calloc (xmalloc_fail n lib) lib (length hs + 1) HANDLER_SIZE ''util/messages.c'' XCALLOC_LINE s1
      = goes_on (p, s2)"
    using assms(1) f unfolding message_handlers_def and_then_def by (auto split: option.splits sum.splits)
  have "p = Some (fresh s1) \<and> s2 = s1\<lparr>blocks := (blocks s1)(fresh s1 \<mapsto> replicate ((length hs + 1) * HANDLER_SIZE) NUL),
           fresh := fresh s1 + 1, tries := tries s1 + 1\<rparr>"
    by (rule x_calloc_default[OF c]) (simp_all add: HANDLER_SIZE_def)
  then show ?thesis
    using assms(1) s1(2) unfolding message_handlers_def f option.case c and_then_simps by (auto simp: s1(1))
qed

lemma var_get_set: "var_get u (var_set v l s) = (if u = v then l else var_get u s)"
  by (cases u; cases v) simp_all

lemma var_set_lists [simp]:
  "lists (var_set v l s) = lists s" "blocks (var_set v l s) = blocks s" "fresh (var_set v l s) = fresh s"
  by (cases v; simp)+

lemma list_address_iff: "a \<in> set (list_address l) \<longleftrightarrow> l = List_at a"
  by (cases l) auto

lemma owned_var: "set (owned s) = (\<Union>v. set (list_address (var_get v s)))"
proof -
  have U: "(UNIV :: list_var set) = {Debug_list, Notice_list, Warn_list, Die_list}"
  proof (rule set_eqI)
    fix v show "v \<in> UNIV \<longleftrightarrow> v \<in> {Debug_list, Notice_list, Warn_list, Die_list}" by (cases v) simp_all
  qed
  show ?thesis unfolding U owned_def by simp
qed

text \<open>No two variables share a block.\<close>

lemma owned_distinct:
  "distinct (owned s) \<longleftrightarrow> (\<forall>u v a. u \<noteq> v \<longrightarrow> var_get u s = List_at a \<longrightarrow> var_get v s \<noteq> List_at a)"
  (is "?l = ?r")
proof
  assume d: ?l
  show ?r
  proof (intro allI impI)
    fix u v a assume "u \<noteq> v" "var_get u s = List_at a"
    then show "var_get v s \<noteq> List_at a" using d by (cases u; cases v) (auto simp: owned_def)
  qed
next
  assume r: ?r
  have ne: "set (list_address (var_get u s)) \<inter> set (list_address (var_get v s)) = {}" if "u \<noteq> v" for u v
    using r that by (auto simp: list_address_iff)
  have d: "distinct (list_address l)" for l by (cases l) auto
  show ?l unfolding owned_def distinct_append
    using ne[of Debug_list Notice_list] ne[of Debug_list Warn_list] ne[of Debug_list Die_list]
      ne[of Notice_list Warn_list] ne[of Notice_list Die_list] ne[of Warn_list Die_list] d by auto
qed

lemma lists_ok_var: "lists_ok s \<Longrightarrow> var_get v s = List_at a \<Longrightarrow> lists s a \<noteq> None \<and> a < fresh s"
proof -
  assume ok: "lists_ok s" and a: "var_get v s = List_at a"
  then have "a \<in> dom (lists s)" by (cases v) (auto simp: lists_ok_def owned_def)
  then show ?thesis using ok by (auto simp: lists_ok_def heap_ok_def not_less[symmetric])
qed

lemma setter_ok:
  assumes ok: "lists_ok s"
    and set: "message_handlers (xmalloc_fail n lib) lib (var_get v s) hs (var_set v) s = goes_on s'"
  shows "lists_ok s' \<and> var_get v s' = List_at (fresh s) \<and> handler_list (var_get v s') s' = Some hs
    \<and> (\<forall>u. u \<noteq> v \<longrightarrow> var_get u s' = var_get u s \<and> handler_list (var_get u s') s' = handler_list (var_get u s) s)"
proof -
  note e = conjunct2[OF message_handlers_effect[OF set]]
  have heap: "\<forall>a. fresh s \<le> a \<longrightarrow> blocks s a = None \<and> lists s a = None"
    and dist: "distinct (owned s)" and dom: "dom (lists s) = set (owned s)"
    and nn: "debug_handlers s = Null_list \<or> is_block (debug_handlers s)"
      "notice_handlers s = Stdout_handlers \<or> is_block (notice_handlers s)"
      "warn_handlers s = Stderr_handlers \<or> is_block (warn_handlers s)"
      "die_handlers s = Stderr_handlers \<or> is_block (die_handlers s)"
    using ok by (auto simp: lists_ok_def heap_ok_def)
  have new: "fresh s \<notin> set (owned s)" using heap dom by auto
  have old: "a \<noteq> fresh s" if "var_get u s = List_at a" for u a
    using lists_ok_var[OF ok that] by simp
  have other: "a \<noteq> b" if "u \<noteq> v" "var_get u s = List_at a" "var_get v s = List_at b" for u a b
    using dist that by (cases u; cases v) (auto simp: owned_def)
  let ?L = "(case var_get v s of List_at a \<Rightarrow> (lists s)(a := None) | _ \<Rightarrow> lists s)(fresh s \<mapsto> hs)"
  have get: "var_get u s' = (if u = v then List_at (fresh s) else var_get u s)" for u
    unfolding e by (simp add: var_get_set) (cases u; simp)
  have L: "lists s' = ?L" unfolding e by (simp add: var_set_lists)
  have heap': "heap_ok s'" unfolding e heap_ok_def using heap by (auto simp: var_set_lists split: hlist.splits)
  have dom': "a \<in> dom ?L \<longleftrightarrow> a = fresh s \<or> a \<in> set (owned s) \<and> var_get v s \<noteq> List_at a" for a
    using dom by (cases "var_get v s") auto
  have own: "a \<in> set (owned s') \<longleftrightarrow> a = fresh s \<or> (\<exists>u. u \<noteq> v \<and> var_get u s = List_at a)" for a
    unfolding owned_var UN_iff list_address_iff get by auto
  have rest: "a \<in> set (owned s) \<and> var_get v s \<noteq> List_at a \<longleftrightarrow> (\<exists>u. u \<noteq> v \<and> var_get u s = List_at a)" for a
    unfolding owned_var UN_iff list_address_iff using other[of _ a a] by auto
  have "dom (lists s') = set (owned s')"
    unfolding L set_eq_iff dom' own rest by simp
  moreover have "distinct (owned s')"
    unfolding owned_distinct get using owned_distinct[THEN iffD1, OF dist] old by auto
  moreover have "debug_handlers s' = Null_list \<or> is_block (debug_handlers s')"
    "notice_handlers s' = Stdout_handlers \<or> is_block (notice_handlers s')"
    "warn_handlers s' = Stderr_handlers \<or> is_block (warn_handlers s')"
    "die_handlers s' = Stderr_handlers \<or> is_block (die_handlers s')"
    using get[of Debug_list] get[of Notice_list] get[of Warn_list] get[of Die_list] nn by (auto split: if_splits)
  ultimately have "lists_ok s'" using heap' by (simp add: lists_ok_def)
  moreover have "handler_list (var_get v s') s' = Some hs" by (simp add: get L)
  moreover have "handler_list (var_get u s') s' = handler_list (var_get u s) s" if "u \<noteq> v" for u
    using that old[of u] other[OF that] by (cases "var_get u s"; cases "var_get v s") (auto simp: get L)
  ultimately show ?thesis by (simp add: get)
qed

text \<open>Freeing a list removes what it owns.\<close>

lemma free_list_owned:
  assumes "l = Null_list \<or> is_block l" and "set (list_address l) \<subseteq> dom (lists s)"
  shows "free_list l s = Some (s\<lparr>lists := lists s |` (- set (list_address l))\<rparr>)"
  using assms by (cases l) (auto simp: free_list_def restrict_map_def fun_upd_def fun_eq_iff intro!: prog.equality)

lemma reset_one:
  assumes "l = d \<or> is_block l" and "d \<in> {Stdout_handlers, Stderr_handlers}"
    and "set (list_address l) \<subseteq> dom (lists t)" and "l = d \<Longrightarrow> upd t = t"
  shows "(if l \<noteq> d then map_option upd (free_list l t) else Some t)
    = Some (upd (t\<lparr>lists := lists t |` (- set (list_address l))\<rparr>))"
proof (cases "l = d")
  case True
  then have "list_address l = []" using assms(2) by auto
  moreover have "lists t |` UNIV = lists t" by (simp add: restrict_map_def)
  ultimately show ?thesis using True assms(4) by simp
next
  case False
  then show ?thesis using assms(1) free_list_owned[OF _ assms(3)] by auto
qed

lemma reset_ok:
  assumes "lists_ok s"
  shows "\<exists>s'. message_handlers_reset s = Some s' \<and> lists_ok s' \<and> lists s' = Map.empty
    \<and> debug_handlers s' = Null_list \<and> notice_handlers s' = Stdout_handlers
    \<and> warn_handlers s' = Stderr_handlers \<and> die_handlers s' = Stderr_handlers"
proof -
  define A where "A = set (list_address (debug_handlers s))"
  define B where "B = set (list_address (notice_handlers s))"
  define C where "C = set (list_address (warn_handlers s))"
  define D where "D = set (list_address (die_handlers s))"
  have dom: "dom (lists s) = A \<union> B \<union> C \<union> D" and heap: "heap_ok s"
    using assms by (auto simp: lists_ok_def owned_def A_def B_def C_def D_def)
  have disj: "B \<inter> A = {}" "C \<inter> (A \<union> B) = {}" "D \<inter> (A \<union> B \<union> C) = {}"
    using assms by (auto simp: lists_ok_def owned_def A_def B_def C_def D_def)
  define s1 where "s1 = s\<lparr>lists := lists s |` (- A), debug_handlers := Null_list\<rparr>"
  define s2 where "s2 = s1\<lparr>lists := lists s |` (- (A \<union> B)), notice_handlers := Stdout_handlers\<rparr>"
  define s3 where "s3 = s2\<lparr>lists := lists s |` (- (A \<union> B \<union> C)), warn_handlers := Stderr_handlers\<rparr>"
  define s4 where "s4 = s3\<lparr>lists := Map.empty, die_handlers := Stderr_handlers\<rparr>"
  have none: "lists s |` (- (A \<union> B \<union> C \<union> D)) = Map.empty"
    using dom by (auto simp: restrict_map_def fun_eq_iff domIff)
  have f1: "free_list (debug_handlers s) s = Some (s\<lparr>lists := lists s |` (- A)\<rparr>)"
    using assms dom unfolding A_def by (intro free_list_owned) (auto simp: lists_ok_def)
  have kinds: "notice_handlers s = Stdout_handlers \<or> is_block (notice_handlers s)"
    "warn_handlers s = Stderr_handlers \<or> is_block (warn_handlers s)"
    "die_handlers s = Stderr_handlers \<or> is_block (die_handlers s)"
    using assms by (auto simp: lists_ok_def)
  have vars: "notice_handlers s1 = notice_handlers s" "warn_handlers s2 = warn_handlers s" "die_handlers s3 = die_handlers s"
    by (simp_all add: s1_def s2_def s3_def)
  have sub: "B \<subseteq> dom (lists s1)" "C \<subseteq> dom (lists s2)" "D \<subseteq> dom (lists s3)"
    using dom disj by (auto simp: s1_def s2_def s3_def)
  have "(if notice_handlers s \<noteq> Stdout_handlers
          then map_option (\<lambda>s. s\<lparr>notice_handlers := Stdout_handlers\<rparr>) (free_list (notice_handlers s) s1) else Some s1)
      = Some (s1\<lparr>lists := lists s1 |` (- B), notice_handlers := Stdout_handlers\<rparr>)"
    using reset_one[OF kinds(1) _ sub(1)[unfolded B_def], of "\<lambda>s. s\<lparr>notice_handlers := Stdout_handlers\<rparr>"]
    by (simp add: B_def[symmetric] s1_def)
  also have "\<dots> = Some s2" by (simp add: s2_def s1_def Compl_Un)
  finally have f2: "(if notice_handlers s1 \<noteq> Stdout_handlers
          then map_option (\<lambda>s. s\<lparr>notice_handlers := Stdout_handlers\<rparr>) (free_list (notice_handlers s1) s1) else Some s1) = Some s2"
    unfolding vars(1) .
  have "(if warn_handlers s \<noteq> Stderr_handlers
          then map_option (\<lambda>s. s\<lparr>warn_handlers := Stderr_handlers\<rparr>) (free_list (warn_handlers s) s2) else Some s2)
      = Some (s2\<lparr>lists := lists s2 |` (- C), warn_handlers := Stderr_handlers\<rparr>)"
    using reset_one[OF kinds(2) _ sub(2)[unfolded C_def], of "\<lambda>s. s\<lparr>warn_handlers := Stderr_handlers\<rparr>"]
    by (simp add: C_def[symmetric] s2_def s1_def)
  also have "\<dots> = Some s3" by (simp add: s3_def s2_def Compl_Un)
  finally have f3: "(if warn_handlers s2 \<noteq> Stderr_handlers
          then map_option (\<lambda>s. s\<lparr>warn_handlers := Stderr_handlers\<rparr>) (free_list (warn_handlers s2) s2) else Some s2) = Some s3"
    unfolding vars(2) .
  have "(if die_handlers s \<noteq> Stderr_handlers
      then map_option (\<lambda>s. s\<lparr>die_handlers := Stderr_handlers\<rparr>) (free_list (die_handlers s) s3) else Some s3)
      = Some (s3\<lparr>lists := lists s3 |` (- D), die_handlers := Stderr_handlers\<rparr>)"
    using reset_one[OF kinds(3) _ sub(3)[unfolded D_def], of "\<lambda>s. s\<lparr>die_handlers := Stderr_handlers\<rparr>"]
    by (simp add: D_def[symmetric] s3_def s2_def s1_def)
  also have "\<dots> = Some s4"
    using none by (simp add: s4_def s3_def Compl_Un)
  finally have f4: "(if die_handlers s3 \<noteq> Stderr_handlers
      then map_option (\<lambda>s. s\<lparr>die_handlers := Stderr_handlers\<rparr>) (free_list (die_handlers s3) s3) else Some s3) = Some s4"
    unfolding vars(3) .
  have "message_handlers_reset s = Some s4"
    unfolding message_handlers_reset_def f1 bind.bind_lunit Let_def s1_def[symmetric] f2 f3 f4 by simp
  moreover have "lists_ok s4"
    using heap by (simp add: lists_ok_def owned_def heap_ok_def s4_def s3_def s2_def s1_def)
  ultimately show ?thesis by (auto simp: s4_def s3_def s2_def s1_def)
qed

section \<open>The state machine\<close>

inductive handler_step :: "nat \<Rightarrow> clib \<Rightarrow> prog \<Rightarrow> prog \<Rightarrow> bool" for n lib where
  set_debug: "message_handlers_debug (xmalloc_fail n lib) lib hs s = goes_on s' \<Longrightarrow> handler_step n lib s s'"
| set_notice: "message_handlers_notice (xmalloc_fail n lib) lib hs s = goes_on s' \<Longrightarrow> handler_step n lib s s'"
| set_warn: "message_handlers_warn (xmalloc_fail n lib) lib hs s = goes_on s' \<Longrightarrow> handler_step n lib s s'"
| set_die: "message_handlers_die (xmalloc_fail n lib) lib hs s = goes_on s' \<Longrightarrow> handler_step n lib s s'"
| reset: "message_handlers_reset s = Some s' \<Longrightarrow> handler_step n lib s s'"
| debug_report: "debug n lib fmt args s = goes_on s' \<Longrightarrow> handler_step n lib s s'"
| notice_report: "notice n lib fmt args s = goes_on s' \<Longrightarrow> handler_step n lib s s'"
| sysnotice_report: "sysnotice n lib fmt args s = goes_on s' \<Longrightarrow> handler_step n lib s s'"
| warn_report: "warn n lib fmt args s = goes_on s' \<Longrightarrow> handler_step n lib s s'"
| syswarn_report: "syswarn n lib fmt args s = goes_on s' \<Longrightarrow> handler_step n lib s s'"

text \<open>The states a program reaches, whatever the library does.\<close>

inductive handler_reach :: "nat \<Rightarrow> clib \<Rightarrow> prog \<Rightarrow> bool" for n lib where
  start: "handler_reach n lib start_prog"
| step: "handler_reach n lib s \<Longrightarrow> handler_step n lib s s' \<Longrightarrow> handler_reach n lib s'"

inductive_cases handler_stepE: "handler_step n lib s s'"


lemma handler_step_ok:
  assumes "handler_step n lib s s'" "lists_ok s"
  shows "lists_ok s'"
  using assms
proof (cases rule: handler_step.cases)
  case (set_debug hs)
  from conjunct1[OF setter_ok[OF assms(2) this[unfolded setters]]] show ?thesis .
next
  case (set_notice hs)
  from conjunct1[OF setter_ok[OF assms(2) this[unfolded setters]]] show ?thesis .
next
  case (set_warn hs)
  from conjunct1[OF setter_ok[OF assms(2) this[unfolded setters]]] show ?thesis .
next
  case (set_die hs)
  from conjunct1[OF setter_ok[OF assms(2) this[unfolded setters]]] show ?thesis .
next
  case reset
  then show ?thesis using reset_ok[OF assms(2)] by auto
next
  case (debug_report fmt args)
  show ?thesis
  proof (cases "debug_handlers s = Null_list")
    case True
    then show ?thesis using debug_report assms(2) by (simp add: debug_def)
  next
    case False
    from debug_report[unfolded debug_def if_not_P[OF False]]
    show ?thesis by (rule same_lists_ok[OF report_same assms(2)])
  qed
next
  case (notice_report fmt args)
  from same_lists_ok[OF report_same[OF this[unfolded notice_def]] assms(2)] show ?thesis .
next
  case (sysnotice_report fmt args)
  from same_lists_ok[OF report_same[OF this[unfolded sysnotice_def Let_def]] assms(2)] show ?thesis .
next
  case (warn_report fmt args)
  from same_lists_ok[OF report_same[OF this[unfolded warn_def]] assms(2)] show ?thesis .
next
  case (syswarn_report fmt args)
  from same_lists_ok[OF report_same[OF this[unfolded syswarn_def Let_def]] assms(2)] show ?thesis .
qed

lemma handler_reach_ok: "handler_reach n lib s \<Longrightarrow> lists_ok s"
  by (induction rule: handler_reach.induct) (auto intro: start_ok handler_step_ok)

text \<open>
  With a list for fatal errors that is a block, setting it when there is no memory reads the list that was
  just freed, since the failure is reported to it.
\<close>

lemma set_die_without_memory:
  assumes "die_handlers s = List_at a" and "\<forall>i k. \<not> lib_room lib i k"
    and "\<forall>i fmt args. lib_text lib i fmt args \<noteq> None"
  shows "message_handlers_die (xmalloc_fail n lib) lib hs s = None"
proof (cases "lists s a")
  case None
  then show ?thesis by (simp add: message_handlers_die_def message_handlers_def free_list_def assms(1))
next
  case (Some hs')
  let ?s = "s\<lparr>lists := (lists s)(a := None)\<rparr>"
  have free: "free_list (List_at a) s = Some ?s" using Some by (simp add: free_list_def)
  obtain t where c: "c_calloc lib (length hs + 1) HANDLER_SIZE ?s = (None, t)" "t = ?s\<lparr>tries := tries s + 1, errnum := lib_enomem lib\<rparr>"
    using assms(2) by (simp add: c_calloc_def)
  have d: "sysdie n lib fmt args t = None" for fmt args
  proof -
    have f: "lib_format lib fmt args t = (lib_text lib (prints t) fmt args, t\<lparr>prints := prints t + 1\<rparr>)"
      by (simp add: lib_format_def)
    obtain x where x: "lib_text lib (prints t) fmt args = Some x" using assms(3) by blast
    have "deliver (message_log_syslog n lib) lib (die_handlers t) fmt args (errnum t) t = None"
      unfolding deliver_def f x by (simp add: c(2) assms(1))
    then show ?thesis by (simp add: sysdie_def Let_def)
  qed
  have "x_calloc (xmalloc_fail n lib) lib (length hs + 1) HANDLER_SIZE ''util/messages.c'' XCALLOC_LINE ?s = None"
    unfolding x_calloc_def Let_def using c(1) d
    by (subst x_loop.simps) (simp add: HANDLER_SIZE_def xmalloc_fail_def)
  then show ?thesis by (simp add: message_handlers_die_def message_handlers_def free assms(1))
qed

end
