(* ===== verification/GetAddr.thy ===== *)
theory GetAddr
  imports Inet "HOL-Library.Monad_Syntax"
begin

text \<open>
  \<open>portable/getaddrinfo.c\<close>: the replacement for \<open>getaddrinfo\<close> on systems without one, for IPv4 only.
  The blocks it allocates are a map from addresses to cells, one for each \<open>struct addrinfo\<close>, socket
  address and name; using or freeing a cell that is not there is \<open>None\<close>. Whether there is memory for a
  request is the parameter \<open>room\<close>, and the resolver of the C library is the record \<open>resolver\<close>.

  A fresh node is \<open>raw_node\<close>: the code assigns every member before anyone reads it. The theory \<open>GaiList\<close>
  has the lemmas.
\<close>

section \<open>Constants\<close>

definition AI_PASSIVE_BIT :: u32 where "AI_PASSIVE_BIT = 0x0001"
definition AI_CANONNAME :: u32 where "AI_CANONNAME = 0x0002"
definition AI_NUMERICHOST :: u32 where "AI_NUMERICHOST = 0x0004"
definition AI_NUMERICSERV_BIT :: u32 where "AI_NUMERICSERV_BIT = 0x0008"
definition AI_INTERNAL_ALL :: u32 where "AI_INTERNAL_ALL = 0x007f"

definition EAI_AGAIN :: int where "EAI_AGAIN = 1"
definition EAI_BADFLAGS :: int where "EAI_BADFLAGS = 2"
definition EAI_FAIL :: int where "EAI_FAIL = 3"
definition EAI_FAMILY :: int where "EAI_FAMILY = 4"
definition EAI_MEMORY :: int where "EAI_MEMORY = 5"
definition EAI_NONAME :: int where "EAI_NONAME = 6"
definition EAI_SERVICE :: int where "EAI_SERVICE = 7"
definition EAI_SOCKTYPE :: int where "EAI_SOCKTYPE = 8"
definition EAI_SYSTEM :: int where "EAI_SYSTEM = 9"
definition EAI_OVERFLOW :: int where "EAI_OVERFLOW = 10"

lemmas eai_defs = EAI_AGAIN_def EAI_BADFLAGS_def EAI_FAIL_def EAI_FAMILY_def EAI_MEMORY_def EAI_NONAME_def
  EAI_SERVICE_def EAI_SOCKTYPE_def EAI_SYSTEM_def EAI_OVERFLOW_def

definition TYPE_STREAM :: int where "TYPE_STREAM = 1"
definition TYPE_DGRAM :: int where "TYPE_DGRAM = 2"
definition IPPROTO_TCP :: int where "IPPROTO_TCP = 6"
definition IPPROTO_UDP :: int where "IPPROTO_UDP = 17"

definition SIN_SIZE :: nat where "SIN_SIZE = 16"

definition gai_errors :: "string list" where
  "gai_errors = [''Host name lookup failure'', ''Invalid flag value'', ''Unknown server error'',
     ''Unsupported address family'', ''Memory allocation failure'', ''Host unknown or not given'',
     ''Service not supported for socket'', ''Unsupported socket type'', ''System error'',
     ''Supplied buffer too small'']"

definition gai_strerror :: "int \<Rightarrow> string" where
  "gai_strerror ecode =
     (if ecode < 1 \<or> nat ecode > length gai_errors then ''Unknown error'' else gai_errors ! nat (ecode - 1))"

section \<open>Memory\<close>

record ainode =
  n_flags :: u32
  n_family :: family
  n_socktype :: int
  n_protocol :: int
  n_addrlen :: nat
  n_addr :: "nat option"
  n_canonname :: "nat option"
  n_next :: "nat option"

text \<open>A cell that was just allocated with \<open>malloc\<close>, a node, a socket address, a name.\<close>

datatype cell = Raw | Node ainode | Sin family u32 u16 | Name string

record gmem =
  cells :: "nat \<Rightarrow> cell option"
  next_cell :: nat
  requests :: nat

definition g_alloc :: "(nat \<Rightarrow> bool) \<Rightarrow> cell \<Rightarrow> gmem \<Rightarrow> nat option \<times> gmem" where
  "g_alloc room c m =
     (if room (requests m)
      then (Some (next_cell m), m\<lparr>cells := (cells m)(next_cell m \<mapsto> c), next_cell := next_cell m + 1,
                                  requests := requests m + 1\<rparr>)
      else (None, m\<lparr>requests := requests m + 1\<rparr>))"

definition g_free :: "nat option \<Rightarrow> gmem \<Rightarrow> gmem option" where
  "g_free p m =
     (case p of None \<Rightarrow> Some m
      | Some a \<Rightarrow> if cells m a = None then None else Some (m\<lparr>cells := (cells m)(a := None)\<rparr>))"

definition g_store :: "nat \<Rightarrow> cell \<Rightarrow> gmem \<Rightarrow> gmem" where
  "g_store a c m = m\<lparr>cells := (cells m)(a \<mapsto> c)\<rparr>"

partial_function (option) freeaddrinfo :: "nat option \<Rightarrow> gmem \<Rightarrow> gmem option" where
  "freeaddrinfo ai m =
     (case ai of None \<Rightarrow> Some m
      | Some a \<Rightarrow>
          (case cells m a of
             Some (Node n) \<Rightarrow> do {
               m \<leftarrow> g_free (n_addr n) m;
               m \<leftarrow> g_free (n_canonname n) m;
               m \<leftarrow> g_free (Some a) m;
               freeaddrinfo (n_next n) m }
           | _ \<Rightarrow> None))"

section \<open>Services\<close>

datatype h_error = HOST_NOT_FOUND | TRY_AGAIN | NO_RECOVERY | NO_DATA | NETDB_OTHER

record hostent =
  h_name :: "string option"
  h_aliases :: "string list"
  h_length :: nat
  h_addr_list :: "u32 list"

text \<open>Ports are in network byte order, as \<open>struct servent\<close> has them.\<close>

record resolver =
  gethostbyname :: "string \<Rightarrow> h_error + hostent"
  gethostbyaddr :: "u32 \<Rightarrow> hostent option"
  getservbyname :: "string \<Rightarrow> string option \<Rightarrow> (string \<times> u16) option"
  getservbyport :: "u16 \<Rightarrow> string \<Rightarrow> string option"

definition convert_service :: "string \<Rightarrow> int option" where
  "convert_service string =
     (if string = [] then None
      else (let (result, erange, end) = c_strtol string
            in if erange \<or> end \<noteq> [] \<or> result < 0 then None else Some result))"

text \<open>The result is a status, or the socket type and the port.\<close>

definition gai_service :: "resolver \<Rightarrow> endian \<Rightarrow> string \<Rightarrow> u32 \<Rightarrow> int \<Rightarrow> int + int \<times> u16" where
  "gai_service rs e servname flags type =
     (case convert_service servname of
        Some value \<Rightarrow> if value > 2 ^ 16 - 1 then Inl EAI_SERVICE else Inr (type, word_of_int value)
      | None \<Rightarrow>
          if flags AND AI_NUMERICSERV_BIT \<noteq> 0 then Inl EAI_NONAME
          else (let protocol = (if type \<noteq> 0 then Some (if type = TYPE_DGRAM then ''udp'' else ''tcp'') else None)
                in case getservbyname rs servname protocol of
                     None \<Rightarrow> Inl EAI_NONAME
                   | Some (s_proto, s_port) \<Rightarrow>
                       if s_proto = ''udp'' then Inr (TYPE_DGRAM, htons e s_port)
                       else if s_proto = ''tcp'' then Inr (TYPE_STREAM, htons e s_port)
                       else Inl EAI_SERVICE))"

section \<open>Nodes\<close>

definition raw_node :: ainode where
  "raw_node = \<lparr>n_flags = 0, n_family = AF_UNSPEC, n_socktype = 0, n_protocol = 0, n_addrlen = 0, n_addr = None,
     n_canonname = None, n_next = None\<rparr>"

text \<open>The node pointer, or none when there was no memory; freeing what is not there is \<open>None\<close>.\<close>

definition gai_addrinfo_new ::
  "(nat \<Rightarrow> bool) \<Rightarrow> endian \<Rightarrow> int \<Rightarrow> string option \<Rightarrow> u32 \<Rightarrow> u16 \<Rightarrow> gmem \<Rightarrow> (nat option \<times> gmem) option" where
  "gai_addrinfo_new room e socktype canonical addr port m =
     (let (ai, m) = g_alloc room Raw m
      in case ai of None \<Rightarrow> Some (None, m)
         | Some a \<Rightarrow>
             (let (sin, m) = g_alloc room (Sin AF_UNSPEC 0 0) m
              in case sin of
                   None \<Rightarrow> map_option (\<lambda>m. (None, m)) (g_free (Some a) m)
                 | Some sa \<Rightarrow>
                     (let n = raw_node\<lparr>n_addr := Some sa\<rparr>;
                          (copied, m) = (case canonical of None \<Rightarrow> (None, m) | Some c \<Rightarrow> g_alloc room (Name c) m)
                      in if canonical \<noteq> None \<and> copied = None
                         then map_option (\<lambda>m. (None, m)) (freeaddrinfo (Some a) (g_store a (Node n) m))
                         else (let n = n\<lparr>n_canonname := copied, n_family := AF_INET, n_socktype := socktype,
                                         n_protocol := (if socktype = TYPE_DGRAM then IPPROTO_UDP else IPPROTO_TCP),
                                         n_addrlen := SIN_SIZE\<rparr>
                               in Some (Some a, g_store sa (Sin AF_INET addr (htons e port)) (g_store a (Node n) m))))))"

definition set_next :: "nat \<Rightarrow> nat \<Rightarrow> gmem \<Rightarrow> gmem option" where
  "set_next prev a m =
     (case cells m prev of Some (Node n) \<Rightarrow> Some (g_store prev (Node (n\<lparr>n_next := Some a\<rparr>)) m) | _ \<Rightarrow> None)"

section \<open>Lookups\<close>

text \<open>The loop over the addresses of a host.\<close>

fun gai_hosts ::
  "(nat \<Rightarrow> bool) \<Rightarrow> endian \<Rightarrow> nat \<Rightarrow> int \<Rightarrow> string option \<Rightarrow> u16 \<Rightarrow> u32 list \<Rightarrow> nat option \<Rightarrow> nat option \<Rightarrow> gmem
    \<Rightarrow> ((int \<times> nat option) \<times> gmem) option" where
  "gai_hosts room e len socktype canonical port [] first prev m = Some ((0, first), m)"
| "gai_hosts room e len socktype canonical port (addr # addrs) first prev m =
     (if len \<noteq> 4 then map_option (\<lambda>m. ((EAI_FAIL, None), m)) (freeaddrinfo first m)
      else do {
        (ai, m) \<leftarrow> gai_addrinfo_new room e socktype canonical addr port m;
        (case ai of
           None \<Rightarrow> map_option (\<lambda>m. ((EAI_MEMORY, None), m)) (freeaddrinfo first m)
         | Some a \<Rightarrow>
             (case first of
                None \<Rightarrow> gai_hosts room e len socktype canonical port addrs (Some a) (Some a) m
              | Some f \<Rightarrow> do {
                  p \<leftarrow> prev;
                  m \<leftarrow> set_next p a m;
                  gai_hosts room e len socktype canonical port addrs first (Some a) m })) })"

definition h_errno_status :: "h_error \<Rightarrow> int" where
  "h_errno_status h =
     (case h of HOST_NOT_FOUND \<Rightarrow> EAI_NONAME | TRY_AGAIN \<Rightarrow> EAI_AGAIN | NO_DATA \<Rightarrow> EAI_AGAIN
      | NO_RECOVERY \<Rightarrow> EAI_FAIL | NETDB_OTHER \<Rightarrow> EAI_SYSTEM)"

definition one_node ::
  "(nat \<Rightarrow> bool) \<Rightarrow> endian \<Rightarrow> int \<Rightarrow> string option \<Rightarrow> u32 \<Rightarrow> u16 \<Rightarrow> gmem \<Rightarrow> ((int \<times> nat option) \<times> gmem) option" where
  "one_node room e socktype canonical addr port m = do {
     (ai, m) \<leftarrow> gai_addrinfo_new room e socktype canonical addr port m;
     Some ((if ai = None then EAI_MEMORY else 0, ai), m) }"

definition gai_lookup ::
  "resolver \<Rightarrow> 'l::len itself \<Rightarrow> (nat \<Rightarrow> bool) \<Rightarrow> endian \<Rightarrow> string \<Rightarrow> u32 \<Rightarrow> int \<Rightarrow> u16 \<Rightarrow> gmem
    \<Rightarrow> ((int \<times> nat option) \<times> gmem) option" where
  "gai_lookup rs ulong room e nodename flags socktype port m =
     (case inet_aton ulong e (Some nodename) of
        Some addr \<Rightarrow>
          one_node room e socktype (if flags AND AI_CANONNAME \<noteq> 0 then Some nodename else None) addr port m
      | None \<Rightarrow>
          if flags AND AI_NUMERICHOST \<noteq> 0 then Some ((EAI_NONAME, None), m)
          else (case gethostbyname rs nodename of
                  Inl h \<Rightarrow> Some ((h_errno_status h, None), m)
                | Inr host \<Rightarrow>
                    if h_addr_list host = [] then Some ((EAI_FAIL, None), m)
                    else (let canonical = (if flags AND AI_CANONNAME \<noteq> 0
                                           then Some (case h_name host of Some n \<Rightarrow> n | None \<Rightarrow> nodename) else None)
                          in gai_hosts room e (h_length host) socktype canonical port (h_addr_list host) None None m)))"

section \<open>getaddrinfo\<close>

record gai_hints =
  hint_flags :: u32
  hint_family :: family
  hint_socktype :: int
  hint_protocol :: int

definition gai_check :: "gai_hints option \<Rightarrow> int + u32 \<times> int" where
  "gai_check hints =
     (case hints of None \<Rightarrow> Inr (0, 0)
      | Some h \<Rightarrow>
          if hint_flags h AND AI_INTERNAL_ALL \<noteq> hint_flags h then Inl EAI_BADFLAGS
          else if hint_family h \<noteq> AF_UNSPEC \<and> hint_family h \<noteq> AF_INET then Inl EAI_FAMILY
          else if hint_socktype h \<noteq> 0 \<and> hint_socktype h \<noteq> TYPE_STREAM \<and> hint_socktype h \<noteq> TYPE_DGRAM
          then Inl EAI_SOCKTYPE
          else if hint_protocol h \<noteq> 0 \<and> hint_protocol h \<noteq> IPPROTO_TCP \<and> hint_protocol h \<noteq> IPPROTO_UDP
          then Inl EAI_SOCKTYPE
          else Inr (hint_flags h, hint_socktype h))"

text \<open>On failure \<open>*res\<close> is not assigned; the list of the result is then \<open>None\<close>.\<close>

definition getaddrinfo ::
  "resolver \<Rightarrow> 'l::len itself \<Rightarrow> (nat \<Rightarrow> bool) \<Rightarrow> endian \<Rightarrow> string option \<Rightarrow> string option \<Rightarrow> gai_hints option \<Rightarrow> gmem
    \<Rightarrow> ((int \<times> nat option) \<times> gmem) option" where
  "getaddrinfo rs ulong room e nodename servname hints m =
     (case gai_check hints of Inl status \<Rightarrow> Some ((status, None), m)
      | Inr (flags, socktype) \<Rightarrow>
          (case (case servname of None \<Rightarrow> Inr (socktype, 0) | Some s \<Rightarrow> gai_service rs e s flags socktype) of
             Inl status \<Rightarrow> Some ((status, None), m)
           | Inr (socktype, port) \<Rightarrow>
               (case nodename of
                  Some node \<Rightarrow> gai_lookup rs ulong room e node flags socktype port m
                | None \<Rightarrow>
                    if servname = None then Some ((EAI_NONAME, None), m)
                    else one_node room e socktype None
                           (if flags AND AI_PASSIVE_BIT = AI_PASSIVE_BIT then 0 else htonl e 0x7f000001) port m)))"

end
