(* ===== verification/GaiList.thy ===== *)
theory GaiList
  imports GetAddr
begin

text \<open>
  The list that \<open>getaddrinfo\<close> builds. \<open>layout\<close> puts the cells of a list of entries on top of the memory
  that was there before; \<open>read_list\<close> walks the list as a caller does. The lemmas show that the list holds one
  entry for every address of the host, in order, that nothing stays allocated when the call fails, and that
  \<open>freeaddrinfo\<close> gives back everything otherwise.
\<close>

section \<open>The cells of a list\<close>

declare split_paired_Ex [simp del] split_paired_All [simp del]

text \<open>The addresses of a node, its socket address and its name, and the host's address.\<close>

type_synonym entry = "nat \<times> nat \<times> nat option \<times> u32"

record gai_info =
  i_endian :: endian
  i_socktype :: int
  i_canonical :: "string option"
  i_port :: u16

definition made_node :: "gai_info \<Rightarrow> nat \<Rightarrow> nat option \<Rightarrow> nat option \<Rightarrow> ainode" where
  "made_node i sa ca nx =
     \<lparr>n_flags = 0, n_family = AF_INET, n_socktype = i_socktype i,
      n_protocol = (if i_socktype i = TYPE_DGRAM then IPPROTO_UDP else IPPROTO_TCP), n_addrlen = SIN_SIZE,
      n_addr = Some sa, n_canonname = ca, n_next = nx\<rparr>"

fun put_entry :: "gai_info \<Rightarrow> nat option \<Rightarrow> entry \<Rightarrow> (nat \<Rightarrow> cell option) \<Rightarrow> nat \<Rightarrow> cell option" where
  "put_entry i nx (a, sa, ca, ip) c =
     (case ca of None \<Rightarrow> c | Some b \<Rightarrow> c(b \<mapsto> Name (the (i_canonical i))))
       (sa \<mapsto> Sin AF_INET ip (htons (i_endian i) (i_port i)), a \<mapsto> Node (made_node i sa ca nx))"

fun entry_cells :: "entry \<Rightarrow> nat list" where
  "entry_cells (a, sa, ca, ip) = (case ca of None \<Rightarrow> [] | Some b \<Rightarrow> [b]) @ [sa, a]"

fun entry_node :: "entry \<Rightarrow> nat" where
  "entry_node (a, sa, ca, ip) = a"

fun entry_ip :: "entry \<Rightarrow> u32" where
  "entry_ip (a, sa, ca, ip) = ip"

fun entry_named :: "entry \<Rightarrow> bool" where
  "entry_named (a, sa, ca, ip) = (ca \<noteq> None)"

definition head_of :: "entry list \<Rightarrow> nat option \<Rightarrow> nat option" where
  "head_of es q = (case es of [] \<Rightarrow> q | x # xs \<Rightarrow> Some (entry_node x))"

lemma head_of_simps [simp]:
  "head_of [] q = q"
  "head_of (x # xs) q = Some (entry_node x)"
  by (simp_all add: head_of_def)

primrec layout :: "gai_info \<Rightarrow> entry list \<Rightarrow> nat option \<Rightarrow> (nat \<Rightarrow> cell option) \<Rightarrow> nat \<Rightarrow> cell option" where
  "layout i [] q base = base"
| "layout i (x # xs) q base = put_entry i (head_of xs q) x (layout i xs q base)"

definition list_cells :: "entry list \<Rightarrow> nat list" where
  "list_cells es = concat (map entry_cells es)"

lemma list_cells_simps [simp]:
  "list_cells [] = []"
  "list_cells (x # xs) = entry_cells x @ list_cells xs"
  "list_cells (xs @ ys) = list_cells xs @ list_cells ys"
  by (simp_all add: list_cells_def)

definition laid :: "gai_info \<Rightarrow> entry list \<Rightarrow> (nat \<Rightarrow> cell option) \<Rightarrow> bool" where
  "laid i es base \<longleftrightarrow> distinct (list_cells es) \<and> (\<forall>a \<in> set (list_cells es). base a = None) \<and>
     (\<forall>x \<in> set es. entry_named x \<longleftrightarrow> i_canonical i \<noteq> None)"

text \<open>Nothing is allocated at or above the next cell.\<close>

definition fresh_mem :: "gmem \<Rightarrow> bool" where
  "fresh_mem m \<longleftrightarrow> (\<forall>a \<ge> next_cell m. cells m a = None)"

lemma layout_else: "a \<notin> set (list_cells es) \<Longrightarrow> layout i es q base a = base a"
  by (induction es) (auto split: option.splits)

lemma layout_upd:
  "a \<notin> set (list_cells es) \<Longrightarrow> layout i es q (base(a \<mapsto> v)) = (layout i es q base)(a \<mapsto> v)"
  by (induction es) (auto simp: fun_upd_twist split: option.splits)

lemma layout_put:
  "set (entry_cells x) \<inter> set (list_cells es) = {} \<Longrightarrow>
   layout i es q (put_entry i nx x base) = put_entry i nx x (layout i es q base)"
  by (cases x) (auto simp: layout_upd split: option.splits)

lemma layout_snoc:
  "set (entry_cells x) \<inter> set (list_cells es) = {} \<Longrightarrow>
   layout i (es @ [x]) q base = put_entry i q x (layout i es (Some (entry_node x)) base)"
proof (induction es)
  case (Cons y ys)
  then have d: "set (entry_cells x) \<inter> set (entry_cells y) = {}" "set (entry_cells x) \<inter> set (list_cells ys) = {}"
    by auto
  then have "put_entry i nx y (put_entry i q x c) = put_entry i q x (put_entry i nx y c)" for nx c
    by (cases x; cases y) (auto simp: fun_upd_twist split: option.splits)
  moreover have "head_of (ys @ [x]) q = head_of ys (Some (entry_node x))"
    by (cases ys) auto
  ultimately show ?case
    using Cons.IH d by simp
qed simp

lemma layout_last:
  assumes "laid i es base" "es \<noteq> []"
  shows "\<exists>n. layout i es q base (entry_node (last es)) = Some (Node n) \<and> n_next n = q \<and>
     layout i es r base = (layout i es q base)(entry_node (last es) \<mapsto> Node (n\<lparr>n_next := r\<rparr>))"
proof -
  obtain ys a sa ca ip where es: "es = ys @ [(a, sa, ca, ip)]"
    using assms(2) by (metis append_butlast_last_id prod.exhaust)
  have d: "set (entry_cells (a, sa, ca, ip)) \<inter> set (list_cells ys) = {}" "sa \<noteq> a" "\<And>b. ca = Some b \<Longrightarrow> b \<noteq> a"
    using assms(1) by (auto simp: laid_def es split: option.splits)
  show ?thesis
    using layout_snoc[OF d(1), of i q base] layout_snoc[OF d(1), of i r base] d
    by (auto simp: es made_node_def split: option.splits)
qed

section \<open>Freeing and reading\<close>

lemma free_entry:
  assumes "laid i (x # xs) base" "cells m = put_entry i nx x c" "\<And>a. a \<in> set (entry_cells x) \<Longrightarrow> c a = None"
  shows "\<exists>m'. freeaddrinfo (Some (entry_node x)) m = freeaddrinfo nx m' \<and> cells m' = c \<and>
     next_cell m' = next_cell m"
proof -
  obtain a sa ca ip where x: "x = (a, sa, ca, ip)" by (cases x) auto
  have d: "sa \<noteq> a" "\<And>b. ca = Some b \<Longrightarrow> b \<noteq> a \<and> b \<noteq> sa"
    using assms(1) by (auto simp: laid_def x split: option.splits)
  have n: "c a = None" "c sa = None" "\<And>b. ca = Some b \<Longrightarrow> c b = None"
    using assms(3) by (auto simp: x split: option.splits)
  have cm: "cells m = (case ca of None \<Rightarrow> c | Some b \<Rightarrow> c(b \<mapsto> Name (the (i_canonical i))))
      (sa \<mapsto> Sin AF_INET ip (htons (i_endian i) (i_port i)), a \<mapsto> Node (made_node i sa ca nx))"
    using assms(2) by (simp add: x)
  let ?m = "m\<lparr>cells := c\<rparr>"
  have "freeaddrinfo (Some a) m = freeaddrinfo nx ?m"
    using d n
    by (subst freeaddrinfo.simps, cases ca)
       (auto simp: cm g_free_def made_node_def fun_upd_idem fun_upd_twist intro!: arg_cong[of _ _ "freeaddrinfo nx"])
  then show ?thesis by (auto simp: x intro!: exI[of _ ?m])
qed

theorem freeaddrinfo_list:
  assumes "laid i es base" "cells m = layout i es None base"
  shows "\<exists>m'. freeaddrinfo (head_of es None) m = Some m' \<and> cells m' = base \<and> next_cell m' = next_cell m"
  using assms
proof (induction es arbitrary: m)
  case Nil
  then show ?case by (simp add: freeaddrinfo.simps)
next
  case (Cons x xs)
  have l: "laid i xs base"
    using Cons.prems(1) by (auto simp: laid_def)
  have n: "layout i xs None base a = None" if "a \<in> set (entry_cells x)" for a
  proof -
    have "a \<notin> set (list_cells xs)" "base a = None"
      using Cons.prems(1) that by (auto simp: laid_def)
    then show ?thesis by (simp add: layout_else)
  qed
  obtain m' where "freeaddrinfo (Some (entry_node x)) m = freeaddrinfo (head_of xs None) m'"
    "cells m' = layout i xs None base" "next_cell m' = next_cell m"
    using free_entry[OF Cons.prems(1), of m _ "layout i xs None base"] Cons.prems(2) n by fastforce
  with Cons.IH[OF l, of m'] show ?case by simp
qed

text \<open>What a caller reads: family, socket type, protocol, address and port in network order, canonical name.\<close>

type_synonym addr_info = "family \<times> int \<times> int \<times> u32 \<times> u16 \<times> string option"

partial_function (option) read_list :: "(nat \<Rightarrow> cell option) \<Rightarrow> nat option \<Rightarrow> addr_info list option" where
  "read_list c p =
     (case p of None \<Rightarrow> Some []
      | Some a \<Rightarrow>
          (case c a of
             Some (Node n) \<Rightarrow>
               (case Option.bind (n_addr n) c of
                  Some (Sin family ip port) \<Rightarrow> do {
                    name \<leftarrow> (case n_canonname n of None \<Rightarrow> Some None
                              | Some b \<Rightarrow> (case c b of Some (Name s) \<Rightarrow> Some (Some s) | _ \<Rightarrow> None));
                    rest \<leftarrow> read_list c (n_next n);
                    Some ((n_family n, n_socktype n, n_protocol n, ip, port, name) # rest) }
                | _ \<Rightarrow> None)
           | _ \<Rightarrow> None))"

definition addr_info :: "endian \<Rightarrow> int \<Rightarrow> u16 \<Rightarrow> string option \<Rightarrow> u32 \<Rightarrow> addr_info" where
  "addr_info e socktype port name ip =
     (AF_INET, socktype, if socktype = TYPE_DGRAM then IPPROTO_UDP else IPPROTO_TCP, ip, htons e port, name)"

definition info_of :: "gai_info \<Rightarrow> u32 \<Rightarrow> addr_info" where
  "info_of i = addr_info (i_endian i) (i_socktype i) (i_port i) (i_canonical i)"

lemma read_list_layout:
  assumes "laid i es base" "\<And>a. a \<in> set (list_cells es) \<Longrightarrow> c a = layout i es None base a"
  shows "read_list c (head_of es None) = Some (map (\<lambda>x. info_of i (entry_ip x)) es)"
  using assms
proof (induction es)
  case Nil
  then show ?case by (simp add: read_list.simps)
next
  case (Cons x xs)
  obtain a sa ca ip where x: "x = (a, sa, ca, ip)" by (cases x) auto
  have "laid i xs base" using Cons.prems(1) by (auto simp: laid_def)
  moreover have "c b = layout i xs None base b" if "b \<in> set (list_cells xs)" for b
  proof -
    have "b \<notin> set (entry_cells x)" using Cons.prems(1) that by (auto simp: laid_def)
    then show ?thesis
      using Cons.prems(2)[of b] that by (auto simp: x split: option.splits)
  qed
  ultimately have rest: "read_list c (head_of xs None) = Some (map (\<lambda>x. info_of i (entry_ip x)) xs)"
    by (rule Cons.IH)
  have d: "sa \<noteq> a" "\<And>b. ca = Some b \<Longrightarrow> b \<noteq> a \<and> b \<noteq> sa" "ca = None \<longleftrightarrow> i_canonical i = None"
    using Cons.prems(1) by (auto simp: laid_def x split: option.splits)
  have "c a = Some (Node (made_node i sa ca (head_of xs None)))"
    "c sa = Some (Sin AF_INET ip (htons (i_endian i) (i_port i)))"
    "\<And>b. ca = Some b \<Longrightarrow> c b = Some (Name (the (i_canonical i)))"
    using Cons.prems(2) d by (auto simp: x split: option.splits)
  then show ?case
    using rest d(3)
    by (subst read_list.simps) (auto simp: x made_node_def info_of_def addr_info_def split: option.splits)
qed

section \<open>Building\<close>

definition mem_after :: "gmem \<Rightarrow> gmem \<Rightarrow> bool" where
  "mem_after m m' \<longleftrightarrow> fresh_mem m' \<and> next_cell m \<le> next_cell m'"

lemma one_laid:
  "\<lbrakk>fresh_mem m; next_cell m \<le> a; sa \<noteq> a; next_cell m \<le> sa; \<And>b. ca = Some b \<Longrightarrow> b \<noteq> a \<and> b \<noteq> sa \<and> next_cell m \<le> b;
    ca = None \<longleftrightarrow> i_canonical i = None\<rbrakk> \<Longrightarrow> laid i [(a, sa, ca, ip)] (cells m)"
  by (auto simp: laid_def fresh_mem_def split: option.splits)

text \<open>One more entry, in cells that were not in use.\<close>

definition added :: "gai_info \<Rightarrow> u32 \<Rightarrow> gmem \<Rightarrow> gmem \<Rightarrow> nat \<Rightarrow> entry \<Rightarrow> bool" where
  "added i ip m m' a x \<longleftrightarrow> entry_node x = a \<and> entry_ip x = ip \<and>
     (\<forall>b \<in> set (entry_cells x). next_cell m \<le> b \<and> b < next_cell m') \<and>
     laid i [x] (cells m) \<and> cells m' = layout i [x] None (cells m)"

lemma gai_addrinfo_new_result:
  assumes "fresh_mem m"
  shows "\<exists>r m'. gai_addrinfo_new room e st can ip port m = Some (r, m') \<and> mem_after m m' \<and>
     (case r of None \<Rightarrow> cells m' = cells m
      | Some a \<Rightarrow> \<exists>x. added \<lparr>i_endian = e, i_socktype = st, i_canonical = can, i_port = port\<rparr> ip m m' a x)"
proof -
  let ?n = "next_cell m" and ?q = "requests m"
  let ?i = "\<lparr>i_endian = e, i_socktype = st, i_canonical = can, i_port = port\<rparr>"
  have f: "cells m ?n = None" "cells m (Suc ?n) = None" "cells m (Suc (Suc ?n)) = None"
    using assms by (auto simp: fresh_mem_def)
  note d = gai_addrinfo_new_def g_alloc_def g_free_def g_store_def mem_after_def fresh_mem_def Let_def
  consider "\<not> room ?q" | "room ?q" "\<not> room (Suc ?q)" | "room ?q" "room (Suc ?q)" "can = None"
    | c where "room ?q" "room (Suc ?q)" "can = Some c" "\<not> room (Suc (Suc ?q))"
    | c where "room ?q" "room (Suc ?q)" "can = Some c" "room (Suc (Suc ?q))"
    by (cases can) auto
  then show ?thesis
  proof cases
    case 1
    then show ?thesis using assms by (auto simp: d)
  next
    case 2
    then show ?thesis using assms f by (auto simp: d fun_upd_idem)
  next
    case 3
    let ?x = "(?n, Suc ?n, None :: nat option, ip)"
    have "\<exists>m'. gai_addrinfo_new room e st can ip port m = Some (Some ?n, m') \<and> mem_after m m' \<and>
        next_cell m' = Suc (Suc ?n) \<and> cells m' = layout ?i [?x] None (cells m)"
      using 3 assms by (auto simp: d made_node_def raw_node_def fun_upd_twist)
    moreover have "laid ?i [?x] (cells m)"
      by (rule one_laid[OF assms]) (simp_all add: 3)
    ultimately show ?thesis
      by (auto simp: added_def simp del: layout.simps intro!: exI[of _ ?x])
  next
    case 4
    then show ?thesis
      using assms f
      by (auto simp: d freeaddrinfo.simps[of "Some _"] freeaddrinfo.simps[of None] raw_node_def fun_upd_idem fun_upd_twist)
  next
    case 5
    let ?x = "(?n, Suc ?n, Some (Suc (Suc ?n)), ip)"
    have "\<exists>m'. gai_addrinfo_new room e st can ip port m = Some (Some ?n, m') \<and> mem_after m m' \<and>
        next_cell m' = Suc (Suc (Suc ?n)) \<and> cells m' = layout ?i [?x] None (cells m)"
      using 5 assms by (auto simp: d made_node_def raw_node_def fun_upd_twist)
    moreover have "laid ?i [?x] (cells m)"
      by (rule one_laid[OF assms]) (simp_all add: 5)
    ultimately show ?thesis
      by (auto simp: added_def simp del: layout.simps intro!: exI[of _ ?x])
  qed
qed

text \<open>What a lookup has made of the memory: a list of entries for the addresses, or nothing.\<close>

definition gai_made :: "gai_info \<Rightarrow> (nat \<Rightarrow> cell option) \<Rightarrow> u32 list \<Rightarrow> int \<times> nat option \<Rightarrow> gmem \<Rightarrow> bool" where
  "gai_made i base ips r m \<longleftrightarrow>
     (if fst r = 0
      then \<exists>es. map entry_ip es = ips \<and> laid i es base \<and> cells m = layout i es None base \<and> snd r = head_of es None
      else snd r = None \<and> cells m = base)"

definition building :: "gai_info \<Rightarrow> (nat \<Rightarrow> cell option) \<Rightarrow> entry list \<Rightarrow> gmem \<Rightarrow> bool" where
  "building i base es m \<longleftrightarrow> fresh_mem m \<and> laid i es base \<and> cells m = layout i es None base \<and>
     (\<forall>a \<in> set (list_cells es). a < next_cell m)"

lemma made_nothing:
  assumes "building i base es m" "status \<noteq> 0" "first = head_of es None"
  shows "\<exists>m'. map_option (\<lambda>m. ((status, None), m)) (freeaddrinfo first m) = Some ((status, None), m') \<and>
     gai_made i base ips (status, None) m'"
  using freeaddrinfo_list[of i es base m] assms by (auto simp: building_def gai_made_def)

lemma building_snoc:
  assumes b: "building i base es m" and es: "es \<noteq> []"
    and x: "added i ip m m' a x" and after: "mem_after m m'"
  shows "\<exists>m''. set_next (entry_node (last es)) a m' = Some m'' \<and> building i base (es @ [x]) m''"
proof -
  have new: "entry_node x = a" "\<And>c. c \<in> set (entry_cells x) \<Longrightarrow> next_cell m \<le> c \<and> c < next_cell m'"
    "laid i [x] (cells m)" "cells m' = layout i [x] None (cells m)"
    using x by (auto simp: added_def)
  have d: "set (entry_cells x) \<inter> set (list_cells es) = {}"
    using b new(2) by (fastforce simp: building_def)
  have l: "laid i es base" "cells m = layout i es None base"
    using b by (auto simp: building_def)
  obtain n where n: "layout i es None base (entry_node (last es)) = Some (Node n)"
    "layout i es (Some a) base = (layout i es None base)(entry_node (last es) \<mapsto> Node (n\<lparr>n_next := Some a\<rparr>))"
    using layout_last[OF l(1) es, of None "Some a"] by blast
  have last: "entry_node (last es) \<in> set (list_cells es)"
    using es by (induction es rule: rev_induct) (auto split: option.splits elim: entry_node.elims)
  have other: "put_entry i None x c (entry_node (last es)) = c (entry_node (last es))"
    "put_entry i None x (c(entry_node (last es) \<mapsto> v)) = (put_entry i None x c)(entry_node (last es) \<mapsto> v)" for c v
    using d last by (cases x; fastforce simp: fun_upd_twist split: option.splits)+
  have m': "cells m' = put_entry i None x (layout i es None base)"
    using new(4) l(2) by simp
  define m'' where "m'' = m'\<lparr>cells := (cells m')(entry_node (last es) \<mapsto> Node (n\<lparr>n_next := Some a\<rparr>))\<rparr>"
  have step: "set_next (entry_node (last es)) a m' = Some m''"
    using n(1) by (simp add: set_next_def g_store_def other(1) m''_def m')
  have "cells m'' = layout i (es @ [x]) None base"
    by (simp add: m''_def m' layout_snoc[OF d] new(1) n(2) other(2))
  moreover have "laid i (es @ [x]) base"
  proof -
    have "base c = None" if "c \<in> set (entry_cells x)" for c
    proof -
      have "c \<notin> set (list_cells es)" using that d by blast
      then show ?thesis using new(3) that l(2) by (auto simp: laid_def layout_else)
    qed
    then show ?thesis using l(1) new(3) d by (auto simp: laid_def)
  qed
  moreover have "\<forall>c \<in> set (list_cells (es @ [x])). c < next_cell m'"
    using b new(2) after by (fastforce simp: building_def mem_after_def)
  moreover have "fresh_mem m''"
  proof -
    have "entry_node (last es) < next_cell m'"
      using b last after by (fastforce simp: building_def mem_after_def)
    then show ?thesis using after by (auto simp: mem_after_def fresh_mem_def m''_def)
  qed
  moreover have "next_cell m'' = next_cell m'" by (simp add: m''_def)
  ultimately have "building i base (es @ [x]) m''"
    by (simp add: building_def)
  with step show ?thesis by blast
qed

lemma gai_hosts_list:
  assumes "building i base es m" "first = head_of es None"
    "prev = (if es = [] then None else Some (entry_node (last es)))"
    "i = \<lparr>i_endian = e, i_socktype = st, i_canonical = can, i_port = port\<rparr>"
  shows "\<exists>r m'. gai_hosts room e len st can port ips first prev m = Some (r, m') \<and>
     gai_made i base (map entry_ip es @ ips) r m'"
  using assms
proof (induction ips arbitrary: es m first prev)
  case Nil
  then show ?case by (auto simp: gai_made_def building_def intro!: exI[of _ es])
next
  case (Cons ip ips)
  note b = Cons.prems(1)
  show ?case
  proof (cases "len = 4")
    case False
    obtain m' where "map_option (\<lambda>m. ((EAI_FAIL, None), m)) (freeaddrinfo first m) = Some ((EAI_FAIL, None), m')"
      "gai_made i base (map entry_ip es @ ip # ips) (EAI_FAIL, None) m'"
      using made_nothing[OF b _ Cons.prems(2), of EAI_FAIL] by (auto simp: EAI_FAIL_def)
    then show ?thesis using False by simp
  next
    case True
    have "fresh_mem m" using b by (simp add: building_def)
    from gai_addrinfo_new_result[OF this, of room e st can ip port] Cons.prems(4)
    obtain r m' where new: "gai_addrinfo_new room e st can ip port m = Some (r, m')" "mem_after m m'"
      "case r of None \<Rightarrow> cells m' = cells m | Some a \<Rightarrow> \<exists>x. added i ip m m' a x"
      by blast
    show ?thesis
    proof (cases r)
      case None
      have "\<forall>a \<in> set (list_cells es). a < next_cell m'"
        using b new(2) by (fastforce simp: building_def mem_after_def)
      then have "building i base es m'"
        using new b None by (simp add: building_def mem_after_def)
      then obtain m'' where
        "map_option (\<lambda>m. ((EAI_MEMORY, None), m)) (freeaddrinfo first m') = Some ((EAI_MEMORY, None), m'')"
        "gai_made i base (map entry_ip es @ ip # ips) (EAI_MEMORY, None) m''"
        using made_nothing[OF _ _ Cons.prems(2), of i base m' EAI_MEMORY] by (auto simp: EAI_MEMORY_def)
      then show ?thesis using None new(1) True by simp
    next
      case (Some a)
      then obtain x where x: "added i ip m m' a x"
        using new(3) by auto
      then have n: "entry_node x = a" "entry_ip x = ip"
        by (simp_all add: added_def)
      show ?thesis
      proof (cases "es = []")
        case True
        then have bx: "building i base [x] m'"
          using b x new(2) by (simp add: building_def mem_after_def added_def)
        have "\<exists>r m''. gai_hosts room e len st can port ips (Some a) (Some a) m' = Some (r, m'') \<and>
            gai_made i base (map entry_ip [x] @ ips) r m''"
          by (rule Cons.IH[OF bx _ _ Cons.prems(4)]) (simp_all add: n)
        then show ?thesis
          by (simp add: True n \<open>len = 4\<close> new(1) Some Cons.prems(2))
      next
        case False
        with building_snoc[OF b False x new(2)] obtain m'' where
          s: "set_next (entry_node (last es)) a m' = Some m''" "building i base (es @ [x]) m''"
          by blast
        have "first = head_of (es @ [x]) None"
          using False Cons.prems(2) by (cases es) simp_all
        then have "\<exists>r m'. gai_hosts room e len st can port ips first (Some a) m'' = Some (r, m') \<and>
            gai_made i base (map entry_ip (es @ [x]) @ ips) r m'"
          by (rule Cons.IH[OF s(2) _ _ Cons.prems(4)]) (simp add: n)
        moreover obtain f where "first = Some f"
          using False Cons.prems(2) by (cases es) simp_all
        ultimately show ?thesis
          using False n(2) \<open>len = 4\<close> new(1) Some Cons.prems(3) s(1) by simp
      qed
    qed
  qed
qed

lemma one_node_list:
  assumes "fresh_mem m" "i = \<lparr>i_endian = e, i_socktype = st, i_canonical = can, i_port = port\<rparr>"
  shows "\<exists>r m'. one_node room e st can ip port m = Some (r, m') \<and> gai_made i (cells m) [ip] r m'"
proof -
  from gai_addrinfo_new_result[OF assms(1), of room e st can ip port]
  obtain r m' where new: "gai_addrinfo_new room e st can ip port m = Some (r, m')"
    "case r of None \<Rightarrow> cells m' = cells m | Some a \<Rightarrow> \<exists>x. added i ip m m' a x"
    unfolding assms(2) by blast
  show ?thesis
  proof (cases r)
    case None
    with new show ?thesis by (simp add: one_node_def gai_made_def eai_defs)
  next
    case (Some a)
    then obtain x where "added i ip m m' a x"
      using new(2) by auto
    then have "gai_made i (cells m) [ip] (0, Some a) m'"
      unfolding gai_made_def by (auto simp: added_def intro!: exI[of _ "[x]"])
    then show ?thesis
      using new(1) Some by (simp add: one_node_def)
  qed
qed

section \<open>The whole function\<close>

text \<open>The addresses and the canonical name to expect for a node name.\<close>

definition host_addresses ::
  "resolver \<Rightarrow> 'l::len itself \<Rightarrow> endian \<Rightarrow> u32 \<Rightarrow> string \<Rightarrow> (u32 list \<times> string option) option" where
  "host_addresses rs ulong e flags node =
     (case inet_aton ulong e (Some node) of
        Some addr \<Rightarrow> Some ([addr], if flags AND AI_CANONNAME \<noteq> 0 then Some node else None)
      | None \<Rightarrow>
          if flags AND AI_NUMERICHOST \<noteq> 0 then None
          else (case gethostbyname rs node of Inl _ \<Rightarrow> None
                | Inr h \<Rightarrow> if h_addr_list h = [] then None
                           else Some (h_addr_list h, if flags AND AI_CANONNAME \<noteq> 0
                                        then Some (case h_name h of Some n \<Rightarrow> n | None \<Rightarrow> node) else None)))"

lemma gai_lookup_list:
  assumes "fresh_mem m"
  shows "\<exists>r m'. gai_lookup rs ulong room e node flags st port m = Some (r, m') \<and>
     (case host_addresses rs ulong e flags node of
        Some (ips, can) \<Rightarrow> gai_made \<lparr>i_endian = e, i_socktype = st, i_canonical = can, i_port = port\<rparr> (cells m) ips r m'
      | None \<Rightarrow> fst r \<noteq> 0 \<and> snd r = None \<and> m' = m)"
proof -
  have b: "building i (cells m) [] m" for i
    using assms by (auto simp: building_def laid_def)
  show ?thesis
    using one_node_list[OF assms refl] gai_hosts_list[OF b _ _ refl, of None None]
    by (auto simp: gai_lookup_def host_addresses_def h_errno_status_def eai_defs Let_def
          split: option.splits sum.splits h_error.splits)
qed

definition gai_expected ::
  "resolver \<Rightarrow> 'l::len itself \<Rightarrow> endian \<Rightarrow> string option \<Rightarrow> string option \<Rightarrow> gai_hints option
    \<Rightarrow> (u32 list \<times> int \<times> u16 \<times> string option) option" where
  "gai_expected rs ulong e nodename servname hints =
     (case gai_check hints of Inl _ \<Rightarrow> None
      | Inr (flags, socktype) \<Rightarrow>
          (case (case servname of None \<Rightarrow> Inr (socktype, 0) | Some s \<Rightarrow> gai_service rs e s flags socktype) of
             Inl _ \<Rightarrow> None
           | Inr (socktype, port) \<Rightarrow>
               (case nodename of
                  Some node \<Rightarrow> map_option (\<lambda>(ips, can). (ips, socktype, port, can)) (host_addresses rs ulong e flags node)
                | None \<Rightarrow>
                    if servname = None then None
                    else Some ([if flags AND AI_PASSIVE_BIT = AI_PASSIVE_BIT then 0 else htonl e 0x7f000001],
                               socktype, port, None))))"

lemma gai_made_reads:
  assumes "gai_made i base ips (0, res) m"
  shows "read_list (cells m) res = Some (map (info_of i) ips) \<and> (\<exists>m'. freeaddrinfo res m = Some m' \<and> cells m' = base)"
proof -
  obtain es where es: "map entry_ip es = ips" "laid i es base" "cells m = layout i es None base" "res = head_of es None"
    using assms by (auto simp: gai_made_def)
  then have "map (\<lambda>x. info_of i (entry_ip x)) es = map (info_of i) ips" by auto
  then show ?thesis
    using freeaddrinfo_list[OF es(2,3)] read_list_layout[OF es(2), of "cells m"] es(3,4) by auto
qed

lemma gai_check_nonzero: "gai_check hints = Inl status \<Longrightarrow> status \<noteq> 0"
  by (auto simp: gai_check_def eai_defs split: option.splits if_splits)

lemma gai_service_nonzero: "gai_service rs e s flags st = Inl status \<Longrightarrow> status \<noteq> 0"
  by (auto simp: gai_service_def eai_defs Let_def split: option.splits if_splits prod.splits)

lemma getaddrinfo_result:
  assumes "fresh_mem m"
  shows "\<exists>r m'. getaddrinfo rs ulong room e nodename servname hints m = Some (r, m') \<and>
     (case gai_expected rs ulong e nodename servname hints of
        Some (ips, st, port, can) \<Rightarrow>
          gai_made \<lparr>i_endian = e, i_socktype = st, i_canonical = can, i_port = port\<rparr> (cells m) ips r m'
      | None \<Rightarrow> fst r \<noteq> 0 \<and> snd r = None \<and> m' = m)"
proof (cases "gai_check hints")
  case (Inl status)
  then show ?thesis by (simp add: getaddrinfo_def gai_expected_def gai_check_nonzero)
next
  case (Inr fs)
  obtain flags st0 where fs: "fs = (flags, st0)" by (cases fs)
  let ?s = "case servname of None \<Rightarrow> Inr (st0, 0) | Some s \<Rightarrow> gai_service rs e s flags st0"
  show ?thesis
  proof (cases ?s)
    case (Inl status)
    then have "status \<noteq> 0" by (auto simp: gai_service_nonzero split: option.splits)
    then show ?thesis using Inl Inr fs by (simp add: getaddrinfo_def gai_expected_def)
  next
    case (Inr sp)
    obtain st port where sp: "sp = (st, port)" by (cases sp)
    note d = getaddrinfo_def gai_expected_def \<open>gai_check hints = Inr fs\<close> fs Inr sp
    show ?thesis
    proof (cases nodename)
      case None
      then show ?thesis
        using one_node_list[OF assms refl] by (simp add: d eai_defs)
    next
      case (Some node)
      then show ?thesis
        using gai_lookup_list[OF assms, of rs ulong room e node flags st port]
        by (cases "host_addresses rs ulong e flags node") (auto simp: d)
    qed
  qed
qed

end
