(* ===== verification/GetName.thy ===== *)
theory GetName
  imports Printf GaiList Os
begin

text \<open>
  \<open>portable/getnameinfo.c\<close>: names of an address and a port, for IPv4. The resolver of the C library is
  the record \<open>resolver\<close> of \<open>GetAddr\<close>; ports without a name are printed by the \<open>snprintf\<close> of
  \<open>portable/snprintf.c\<close>, of which \<open>rnd\<close> is the rounding of floating point that \<open>%hu\<close> never uses. The two buffers
  are memory with a length of its own, beside the one the caller claims; a write outside of it is \<open>None\<close>.

  The lemmas compare both lookups with the text they ought to write, and show that numeric names are
  read back by \<open>getaddrinfo\<close>.
\<close>

section \<open>Lookups\<close>

definition NI_NOFQDN :: u32 where "NI_NOFQDN = 0x0001"
definition NI_NUMERICHOST :: u32 where "NI_NUMERICHOST = 0x0002"
definition NI_NAMEREQD :: u32 where "NI_NAMEREQD = 0x0004"
definition NI_NUMERICSERV :: u32 where "NI_NUMERICSERV = 0x0008"
definition NI_DGRAM :: u32 where "NI_DGRAM = 0x0010"

definition store_name :: "string \<Rightarrow> bytes \<Rightarrow> nat \<Rightarrow> (int \<times> bytes) option" where
  "store_name name node nodelen =
     (if length name + 1 > nodelen then Some (EAI_OVERFLOW, node)
      else map_option (\<lambda>b. (0, b)) (mem_write node 0 (name @ [NUL])))"

text \<open>The result is \<open>Some None\<close> for false, and otherwise the status and the buffer.\<close>

definition try_name :: "string option \<Rightarrow> bytes \<Rightarrow> nat \<Rightarrow> (int \<times> bytes) option option" where
  "try_name name node nodelen =
     (case name of None \<Rightarrow> None
      | Some name \<Rightarrow>
          if CHR ''.'' \<notin> set name then Some None else map_option Some (store_name name node nodelen))"

fun try_aliases :: "string list \<Rightarrow> bytes \<Rightarrow> nat \<Rightarrow> (int \<times> bytes) option option" where
  "try_aliases [] node nodelen = Some None"
| "try_aliases (a # as) node nodelen =
     (case try_name (Some a) node nodelen of None \<Rightarrow> None
      | Some None \<Rightarrow> try_aliases as node nodelen
      | Some (Some r) \<Rightarrow> Some (Some r))"

definition lookup_name :: "resolver \<Rightarrow> endian \<Rightarrow> u32 \<Rightarrow> bytes \<Rightarrow> nat \<Rightarrow> u32 \<Rightarrow> (int \<times> bytes) option" where
  "lookup_name rs e addr node nodelen flags =
     (let ascii = store_name (inet_ntoa e addr) node nodelen
      in if flags AND NI_NUMERICHOST = 0
         then (case gethostbyaddr rs addr of
                 None \<Rightarrow> if flags AND NI_NAMEREQD \<noteq> 0 then Some (EAI_NONAME, node) else ascii
               | Some host \<Rightarrow>
                   (case try_name (h_name host) node nodelen of
                      None \<Rightarrow> None
                    | Some (Some r) \<Rightarrow> Some r
                    | Some None \<Rightarrow>
                        (case try_aliases (h_aliases host) node nodelen of
                           None \<Rightarrow> None
                         | Some (Some r) \<Rightarrow> Some r
                         | Some None \<Rightarrow>
                             if flags AND NI_NAMEREQD \<noteq> 0 then Some (EAI_NONAME, node) else ascii)))
         else ascii)"

definition lookup_service ::
  "(rat \<Rightarrow> rat) \<Rightarrow> resolver \<Rightarrow> endian \<Rightarrow> u16 \<Rightarrow> bytes \<Rightarrow> nat \<Rightarrow> u32 \<Rightarrow> (int \<times> bytes) option" where
  "lookup_service rnd rs e port service servicelen flags =
     (let number = do {
            (status, b, _) \<leftarrow> snprintf rnd (Some service) servicelen (''%hu'' @ [NUL]) [VInt (ucast port)];
            b \<leftarrow> b;
            Some (if status < 0 \<or> nat status > servicelen then EAI_OVERFLOW else 0, b) }
      in if flags AND NI_NUMERICSERV = 0
         then (case getservbyport rs (htons e port) (if flags AND NI_DGRAM \<noteq> 0 then ''udp'' else ''tcp'') of
                 Some s_name \<Rightarrow> store_name s_name service servicelen
               | None \<Rightarrow> number)
         else number)"

text \<open>A buffer is the memory and the length the caller passes, or null.\<close>

definition getnameinfo ::
  "(rat \<Rightarrow> rat) \<Rightarrow> resolver \<Rightarrow> endian \<Rightarrow> sockaddr \<Rightarrow> bytes option \<Rightarrow> nat \<Rightarrow> bytes option \<Rightarrow> nat \<Rightarrow> u32
    \<Rightarrow> (int \<times> bytes option \<times> bytes option) option" where
  "getnameinfo rnd rs e sa node nodelen service servicelen flags =
     (if (node = None \<or> nodelen = 0) \<and> (service = None \<or> servicelen = 0)
      then Some (EAI_NONAME, node, service)
      else (case sa of
              SIn s_addr port \<Rightarrow> do {
                (status, node) \<leftarrow>
                   (case node of
                      Some n \<Rightarrow> if nodelen > 0
                                then map_option (\<lambda>(st, n). (st, Some n)) (lookup_name rs e s_addr n nodelen flags)
                                else Some (0, node)
                    | None \<Rightarrow> Some (0, node));
                if status \<noteq> 0 then Some (status, node, service)
                else (case service of
                        Some s \<Rightarrow>
                          if servicelen > 0
                          then map_option (\<lambda>(st, s). (st, node, Some s))
                                 (lookup_service rnd rs e (ntohs e port) s servicelen flags)
                          else Some (0, node, service)
                      | None \<Rightarrow> Some (0, node, service)) }
            | _ \<Rightarrow> Some (EAI_FAMILY, node, service)))"

section \<open>The texts\<close>

text \<open>The name an address ought to get: its first fully qualified one, or its number unless a name is required.\<close>

definition host_text :: "resolver \<Rightarrow> endian \<Rightarrow> u32 \<Rightarrow> u32 \<Rightarrow> string option" where
  "host_text rs e addr flags =
     (if flags AND NI_NUMERICHOST \<noteq> 0 then Some (inet_ntoa e addr)
      else (let names = (case gethostbyaddr rs addr of None \<Rightarrow> []
                         | Some h \<Rightarrow> the (h_name h) # h_aliases h)
            in case find (\<lambda>s. CHR ''.'' \<in> set s) names of
                 Some s \<Rightarrow> Some s
               | None \<Rightarrow> if flags AND NI_NAMEREQD \<noteq> 0 then None else Some (inet_ntoa e addr)))"

lemma try_aliases_find:
  "try_aliases as node nodelen =
     (case find (\<lambda>s. CHR ''.'' \<in> set s) as of None \<Rightarrow> Some None
      | Some s \<Rightarrow> map_option Some (store_name s node nodelen))"
  by (induction as) (auto simp: try_name_def split: option.splits)

lemma lookup_name_text:
  assumes "\<And>h. gethostbyaddr rs addr = Some h \<Longrightarrow> h_name h \<noteq> None"
  shows "lookup_name rs e addr node nodelen flags =
     (case host_text rs e addr flags of None \<Rightarrow> Some (EAI_NONAME, node)
      | Some t \<Rightarrow> store_name t node nodelen)"
proof (cases "gethostbyaddr rs addr")
  case None
  then show ?thesis by (simp add: lookup_name_def host_text_def)
next
  case (Some h)
  then obtain s where "h_name h = Some s" using assms by blast
  with Some show ?thesis
    by (auto simp: lookup_name_def host_text_def try_aliases_find try_name_def Let_def split: option.splits)
qed

definition port_text :: "u16 \<Rightarrow> string" where
  "port_text port = show_nat (unat port)"

lemma port_less: "unat port < 65536" for port :: u16
  using unsigned_less[where 'b = 16 and 'a = nat, of port] by simp

lemma port_text_length: "length (port_text port) \<le> 5"
  using show_nat_length[of 5 "unat port"] port_less[of port] by (simp add: port_text_def)

lemma unat_port: "unat (ucast (ucast (ucast port :: u32) :: u16) :: u64) = unat port" for port :: u16
  using port_less[of port] by (simp add: unsigned_ucast_eq take_bit_nat_eq_self take_bit_word_eq_self)

lemma print_port:
  assumes "rounding rnd" "0 < n" "n \<le> length b"
  shows "snprintf rnd (Some b) n (''%hu'' @ [NUL]) [VInt (ucast (port :: u16))] =
    Some (int (length (port_text port)), Some (stored n (port_text port) b), [])"
proof -
  have u: "unparse [plain DP_C_SHORT (CHR ''u'')] = ''%hu''"
    by (simp add: unparse_def prec_text_def)
  have w: "well_formed [plain DP_C_SHORT (CHR ''u'')]"
    by (simp add: well_formed_def conversions_def)
  have t: "denote rnd [plain DP_C_SHORT (CHR ''u'')] [VInt (ucast port)] = Some (port_text port)"
    by (simp add: dir_text_branches va_unsigned_def int_text_def guard_def c99_plain_def int_value_def
          c99_plain_unsigned unat_port port_text_def)
  have "int (length (port_text port)) \<le> INT_MAX"
    using port_text_length[of port] by simp
  from vsnprintf_stores[OF assms(1) w t this assms(2,3), of "[]"] show ?thesis
    by (simp add: snprintf_def u)
qed

lemma lookup_service_text:
  assumes "rounding rnd" "0 < n" "n \<le> length b"
  shows "lookup_service rnd rs e port b n flags =
    (case (if flags AND NI_NUMERICSERV \<noteq> 0 then None
           else getservbyport rs (htons e port) (if flags AND NI_DGRAM \<noteq> 0 then ''udp'' else ''tcp'')) of
       Some s \<Rightarrow> store_name s b n
     | None \<Rightarrow> Some (if length (port_text port) > n then EAI_OVERFLOW else 0, stored n (port_text port) b))"
  unfolding lookup_service_def print_port[OF assms, of port] by (simp split: option.splits)

section \<open>Bounds\<close>

lemma drop_behind: "length t < n \<Longrightarrow> drop n (t @ NUL # drop (Suc (length t)) b) = drop n b"
proof -
  assume "length t < n"
  then obtain k where "n = length t + Suc k" using less_imp_Suc_add by auto
  then show ?thesis by (simp add: add.commute)
qed

lemma store_name_Some:
  "n \<le> length b \<Longrightarrow> \<exists>st b'. store_name t b n = Some (st, b') \<and> length b' = length b \<and> drop n b' = drop n b \<and>
     (st = 0 \<longrightarrow> length t < n \<and> b' = t @ NUL # drop (length t + 1) b) \<and> (st \<noteq> 0 \<longrightarrow> b' = b)"
  using drop_behind[of t n b] by (auto simp: store_name_def mem_write_0 eai_defs simp del: drop_append)

lemma stored_drop: "0 < n \<Longrightarrow> n \<le> length b \<Longrightarrow> drop n (stored n t b) = drop n b"
  using drop_behind[of "take (n - 1) t" n b] by (auto simp: stored_def min_def simp del: drop_append)

definition res_ok :: "resolver \<Rightarrow> bool" where
  "res_ok rs \<longleftrightarrow> (\<forall>a h. gethostbyaddr rs a = Some h \<longrightarrow> h_name h \<noteq> None)"

lemma lookup_name_bounds:
  assumes "res_ok rs" "n \<le> length b"
  shows "\<exists>st b'. lookup_name rs e addr b n flags = Some (st, b') \<and> length b' = length b \<and> drop n b' = drop n b \<and>
     (st = 0 \<longrightarrow> (\<exists>t. host_text rs e addr flags = Some t \<and> length t < n \<and> b' = t @ NUL # drop (length t + 1) b))"
proof (cases "host_text rs e addr flags")
  case None
  then show ?thesis
    using lookup_name_text[of rs addr e b n flags] assms(1) by (auto simp: res_ok_def eai_defs)
next
  case (Some t)
  then show ?thesis
    using lookup_name_text[of rs addr e b n flags] assms store_name_Some[OF assms(2), of t]
    by (auto simp: res_ok_def)
qed

lemma lookup_service_bounds:
  assumes "rounding rnd" "0 < n" "n \<le> length b"
  shows "\<exists>st b'. lookup_service rnd rs e port b n flags = Some (st, b') \<and> length b' = length b \<and> drop n b' = drop n b"
  using lookup_service_text[OF assms] store_name_Some[OF assms(3)] stored_fits[OF assms(2,3)] stored_drop[OF assms(2,3)]
  by (fastforce split: option.splits)

section \<open>Numeric names\<close>

lemma uint_port: "\<not> 65535 < uint port" "\<not> uint port < 0" "\<not> uint port < - 9223372036854775808" for port :: u16
  using unsigned_less[where 'b = 16 and 'a = int, of port] unsigned_greater_eq[where 'b = 16 and 'a = int, of port]
  by (simp_all add: not_less order_trans[of _ 0])

lemma convert_port: "convert_service (port_text port) = Some (int (unat port))"
  using scan_int_digits[of "show_nat (unat port)" "[]"] show_nat_digits[of "unat port"] uint_port[of port] port_less[of port]
  by (simp add: convert_service_def c_strtol_def port_text_def Let_def)

lemma gai_service_port: "gai_service rs e (port_text port) flags st = Inr (st, port)"
  using uint_port[of port] by (simp add: gai_service_def convert_port)

lemma c_str_stored: "length t < n \<Longrightarrow> no_nul t \<Longrightarrow> c_str (stored n t b) = t"
  using stored_str[of n t b] by simp

lemma getnameinfo_numeric:
  assumes "rounding rnd" "16 \<le> n" "n \<le> length b" "6 \<le> k" "k \<le> length s"
  shows "\<exists>b' s'. getnameinfo rnd rs e (SIn addr (htons e port)) (Some b) n (Some s) k (NI_NUMERICHOST OR NI_NUMERICSERV)
       = Some (0, Some b', Some s') \<and> c_str b' = inet_ntoa e addr \<and> c_str s' = port_text port"
proof -
  have l: "length (inet_ntoa e addr) < 16" using ntoa_length[of e addr] by (simp add: INET_ADDRSTRLEN_def)
  have f: "(NI_NUMERICHOST OR NI_NUMERICSERV) AND NI_NUMERICHOST \<noteq> 0"
    "(NI_NUMERICHOST OR NI_NUMERICSERV) AND NI_NUMERICSERV \<noteq> 0"
    by (simp_all add: NI_NUMERICHOST_def NI_NUMERICSERV_def)
  have h: "lookup_name rs e addr b n (NI_NUMERICHOST OR NI_NUMERICSERV)
      = Some (0, inet_ntoa e addr @ NUL # drop (length (inet_ntoa e addr) + 1) b)"
    using f assms(2,3) l by (simp add: lookup_name_def store_name_def mem_write_0)
  have p: "lookup_service rnd rs e port s k (NI_NUMERICHOST OR NI_NUMERICSERV) = Some (0, stored k (port_text port) s)"
    using lookup_service_text[OF assms(1) _ assms(5), of rs e port] f(2) assms(4) port_text_length[of port] by simp
  have "no_nul (inet_ntoa e addr)" by (simp add: inet_ntoa_def Let_def no_nul_def show_nat_no_nul[unfolded no_nul_def])
  moreover have "c_str (stored k (port_text port) s) = port_text port"
    using port_text_length[of port] assms(4) by (simp add: c_str_stored port_text_def)
  ultimately show ?thesis
    using assms(2,4) by (simp add: getnameinfo_def h p)
qed

text \<open>A buffer afterwards: nothing beyond the claimed length has changed.\<close>

definition stays_in :: "nat \<Rightarrow> bytes option \<Rightarrow> bytes option \<Rightarrow> bool" where
  "stays_in n b b' \<longleftrightarrow>
     (case (b, b') of (None, None) \<Rightarrow> True
      | (Some x, Some y) \<Rightarrow> length y = length x \<and> drop n y = drop n x | _ \<Rightarrow> False)"

definition buffer_ok :: "nat \<Rightarrow> bytes option \<Rightarrow> bool" where
  "buffer_ok n b \<longleftrightarrow> (case b of None \<Rightarrow> True | Some x \<Rightarrow> n \<le> length x)"

lemma stays_same [simp]: "stays_in n b b"
  by (simp add: stays_in_def split: option.splits)

lemma getnameinfo_stays_in:
  assumes "rounding rnd" "res_ok rs" "buffer_ok n node" "buffer_ok k service"
  shows "\<exists>st node' service'. getnameinfo rnd rs e sa node n service k flags = Some (st, node', service') \<and>
    stays_in n node node' \<and> stays_in k service service'"
proof -
  have N: "\<exists>st node'. (case node of
        Some b \<Rightarrow> if n > 0 then map_option (\<lambda>(st, b). (st, Some b)) (lookup_name rs e addr b n flags) else Some (0, node)
      | None \<Rightarrow> Some (0, node)) = Some (st, node') \<and> stays_in n node node'" for addr
  proof (cases node)
    case (Some b)
    then obtain st b' where "lookup_name rs e addr b n flags = Some (st, b')" "stays_in n (Some b) (Some b')"
      using lookup_name_bounds[OF assms(2), of n b e addr flags] assms(3) by (auto simp: stays_in_def buffer_ok_def)
    then show ?thesis using Some by simp
  qed simp
  have S: "\<exists>st service'. (case service of
        Some b \<Rightarrow> if k > 0 then map_option (\<lambda>(st, b). (st, node', Some b)) (lookup_service rnd rs e port b k flags)
                  else Some (0, node', service)
      | None \<Rightarrow> Some (0, node', service)) = Some (st, node', service') \<and> stays_in k service service'" for port node'
  proof (cases "service = None \<or> k = 0")
    case False
    then obtain b where b: "service = Some b" by auto
    then obtain st b' where "lookup_service rnd rs e port b k flags = Some (st, b')" "stays_in k (Some b) (Some b')"
      using lookup_service_bounds[OF assms(1), of k b rs e port flags] assms(4) False
      by (auto simp: stays_in_def buffer_ok_def)
    then show ?thesis using b False by simp
  qed (auto split: option.splits)
  show ?thesis
  proof (cases sa)
    case (SIn addr port)
    obtain st node' where nm: "(case node of
        Some b \<Rightarrow> if n > 0 then map_option (\<lambda>(st, b). (st, Some b)) (lookup_name rs e addr b n flags) else Some (0, node)
      | None \<Rightarrow> Some (0, node)) = Some (st, node')" "stays_in n node node'"
      using N by blast
    then show ?thesis
      using S[of node' "ntohs e port"] by (auto simp: getnameinfo_def SIn)
  qed (simp_all add: getnameinfo_def)
qed

text \<open>
  The comparison of the length with \<open>servicelen\<close> is off by one: a port of exactly that many digits is cut
  off, and the call reports success.
\<close>

lemma lookup_service_cut:
  assumes "rounding rnd" "length b = length (port_text port)" "getservbyport rs (htons e port) ''tcp'' = None"
  shows "lookup_service rnd rs e port b (length b) 0 = Some (0, butlast (port_text port) @ [NUL])"
proof -
  have "0 < length b" using assms(2) by (simp add: port_text_def)
  moreover have "stored (length b) (port_text port) b = butlast (port_text port) @ [NUL]"
    using assms(2) by (simp add: stored_def butlast_conv_take)
  ultimately show ?thesis
    using lookup_service_text[OF assms(1), of "length b" b rs e port 0] assms(2,3) by simp
qed

end
