(* ===== verification/Portability.thy ===== *)
theory Portability
  imports Machine
begin

text \<open>
  \<open>portable/mkstemp.c\<close> and \<open>portable/daemon.c\<close>. What the system answers is a parameter: for \<open>mkstemp\<close> a
  function from the names tried so far and the next one to the result of the exclusive \<open>open\<close>, for
  \<open>daemon\<close> a function from the calls so far and the next one to its result.

  The lemmas say which names \<open>mkstemp\<close> tries and what is left in the template, and what the
  descriptors of a daemon refer to.
\<close>

section \<open>mkstemp\<close>

type_synonym long_int_type = "64 word"

definition letters :: string where
  "letters = ''ABCDEFGHIJKLMNOPQRSTUVWXYZabcdefghijklmnopqrstuvwxyz0123456789''"

text \<open>The loop that writes letters, here any number of them.\<close>

primrec put_letters :: "nat \<Rightarrow> nat \<Rightarrow> long_int_type \<Rightarrow> bytes \<Rightarrow> bytes" where
  "put_letters 0 off working t = t"
| "put_letters (Suc k) off working t =
     put_letters k (Suc off) (working div 62) (t[off := letters ! unat (working mod 62)])"

text \<open>The result is the descriptor or -1, \<open>errno\<close>, the template and the names given to \<open>open\<close>.\<close>

type_synonym opener = "string list \<Rightarrow> string \<Rightarrow> errno + nat"

fun mkstemp_loop ::
  "opener \<Rightarrow> long_int_type \<Rightarrow> nat \<Rightarrow> nat \<Rightarrow> long_int_type \<Rightarrow> bytes \<Rightarrow> string list \<Rightarrow> errno
    \<Rightarrow> int \<times> errno \<times> bytes \<times> string list" where
  "mkstemp_loop op incr off 0 randnum t tried err = (-1, EEXIST, t, tried)"
| "mkstemp_loop op incr off (Suc tries) randnum t tried err =
     (let t = put_letters 6 off randnum t
      in case op tried (c_str t) of
           Inr fd \<Rightarrow> (int fd, err, t, tried @ [c_str t])
         | Inl e \<Rightarrow> if e \<noteq> EEXIST \<and> e \<noteq> EISDIR then (-1, e, t, tried @ [c_str t])
                   else mkstemp_loop op incr off tries (randnum + incr) t (tried @ [c_str t]) e)"

definition first_number :: "long_int_type \<Rightarrow> long_int_type \<Rightarrow> long_int_type \<Rightarrow> long_int_type" where
  "first_number tv_usec tv_sec pid = xor (xor (push_bit 16 tv_usec) tv_sec) pid"

definition increment :: "long_int_type \<Rightarrow> long_int_type" where
  "increment tv_usec = and (drop_bit 10 tv_usec) 0xfff"

definition mkstemp ::
  "opener \<Rightarrow> nat \<Rightarrow> long_int_type \<Rightarrow> long_int_type \<Rightarrow> long_int_type \<Rightarrow> errno \<Rightarrow> bytes
    \<Rightarrow> (int \<times> errno \<times> bytes \<times> string list) option" where
  "mkstemp op tmp_max tv_usec tv_sec pid err template =
     (case c_strlen template of None \<Rightarrow> None
      | Some n \<Rightarrow>
          if n < 6 then Some (-1, EINVAL, template, [])
          else if drop (n - 6) (c_str template) \<noteq> ''XXXXXX'' then Some (-1, EINVAL, template, [])
          else Some (mkstemp_loop op (increment tv_usec) (n - 6) tmp_max (first_number tv_usec tv_sec pid)
                       template [] err))"

text \<open>The six letters for a number, and the number of a try.\<close>

definition suffix_text :: "nat \<Rightarrow> long_int_type \<Rightarrow> string" where
  "suffix_text k w = map (\<lambda>i. letters ! (unat w div 62 ^ i mod 62)) [0..<k]"

lemma suffix_text_Suc: "suffix_text (Suc k) w = letters ! unat (w mod 62) # suffix_text k (w div 62)"
proof -
  have "unat w div 62 ^ Suc i = unat (w div 62) div 62 ^ i" for i
    by (simp add: unat_div div_mult2_eq)
  then show ?thesis
    by (simp add: suffix_text_def upt_conv_Cons map_Suc_upt[symmetric] unat_mod o_def del: upt_Suc)
qed

lemma put_letters_text:
  "length x = k \<Longrightarrow> put_letters k (length p) w (p @ x @ r) = p @ suffix_text k w @ r"
proof (induction k arbitrary: p w x)
  case 0
  then show ?case by (simp add: suffix_text_def)
next
  case (Suc k)
  then obtain a y where x: "x = a # y" "length y = k" by (cases x) auto
  from Suc.IH[OF x(2), of "p @ [letters ! unat (w mod 62)]" "w div 62"] show ?case
    by (simp add: x(1) suffix_text_Suc list_update_append)
qed

lemma suffix_text_length [simp]: "length (suffix_text k w) = k"
  by (simp add: suffix_text_def)

lemma suffix_text_no_nul: "no_nul (suffix_text k w)"
proof -
  have "\<forall>c \<in> set letters. c \<noteq> NUL" by (simp add: letters_def)
  moreover have "unat w div 62 ^ i mod 62 < length letters" for i by (simp add: letters_def)
  ultimately show ?thesis by (fastforce simp: suffix_text_def no_nul_def)
qed

text \<open>The tries that failed because the name is in use.\<close>

definition taken :: "opener \<Rightarrow> string list \<Rightarrow> bool" where
  "taken op names \<longleftrightarrow> (\<forall>j < length names. op (take j names) (names ! j) \<in> {Inl EEXIST, Inl EISDIR})"

definition name_of :: "string \<Rightarrow> long_int_type \<Rightarrow> long_int_type \<Rightarrow> nat \<Rightarrow> string" where
  "name_of p w incr j = p @ suffix_text 6 (w + of_nat j * incr)"

text \<open>
  What a run may end with after \<open>n\<close> names: the last of them opened, an error other than a name in use,
  or \<open>tmp_max\<close> names in use.
\<close>

definition mkstemp_end :: "opener \<Rightarrow> nat \<Rightarrow> (nat \<Rightarrow> string) \<Rightarrow> int \<times> errno \<times> bytes \<times> string list \<Rightarrow> bool" where
  "mkstemp_end op tmp_max name res \<longleftrightarrow>
     (case res of (st, e, t, tried) \<Rightarrow>
        tried = map name [0..<length tried] \<and> (tried \<noteq> [] \<longrightarrow> c_str t = last tried) \<and>
        (if st = -1 \<and> e = EEXIST then length tried = tmp_max \<and> taken op tried
         else 0 < length tried \<and> length tried \<le> tmp_max \<and> taken op (butlast tried) \<and>
           op (butlast tried) (last tried) = (if st = -1 then Inl e else Inr (nat st)) \<and> (st = -1 \<longrightarrow> e \<noteq> EISDIR)))"

lemma mkstemp_loop_names:
  assumes "length x = 6" "no_nul p" "n \<le> tmp_max" "tried = map (name_of p w incr) [0..<n]" "taken op tried"
    and "tried \<noteq> [] \<longrightarrow> c_str (p @ x @ NUL # r) = last tried"
  shows "mkstemp_end op tmp_max (name_of p w incr)
    (mkstemp_loop op incr (length p) (tmp_max - n) (w + of_nat n * incr) (p @ x @ NUL # r) tried err)"
  using assms
proof (induction "tmp_max - n" arbitrary: n x tried err)
  case 0
  then show ?case by (simp add: mkstemp_end_def)
next
  case (Suc k)
  let ?t = "p @ suffix_text 6 (w + of_nat n * incr) @ NUL # r" and ?name = "name_of p w incr n"
  have k: "tmp_max - n = Suc k" "k = tmp_max - Suc n" "Suc n \<le> tmp_max" using Suc(2,5) by auto
  have t: "c_str ?t = ?name" using Suc.prems(2) suffix_text_no_nul[of 6 "w + of_nat n * incr"]
    by (simp add: name_of_def c_str_append_no_nul) (simp add: c_str_def)
  have names: "tried @ [?name] = map (name_of p w incr) [0..<Suc n]" using Suc.prems(4) by simp
  show ?case
  proof (cases "op tried ?name")
    case (Inr fd)
    then show ?thesis using Suc.prems names k(3)
      by (simp add: k(1) put_letters_text t mkstemp_end_def)
  next
    case (Inl e)
    show ?thesis
    proof (cases "e = EEXIST \<or> e = EISDIR")
      case False
      then show ?thesis using Suc.prems names Inl k(3)
        by (auto simp: k(1) put_letters_text t mkstemp_end_def)
    next
      case True
      have "taken op (tried @ [?name])"
        using Suc.prems(5) True Inl by (auto simp: taken_def nth_append less_Suc_eq)
      from Suc(1)[OF k(2) _ Suc.prems(2) k(3) names this, of "suffix_text 6 (w + of_nat n * incr)" e] t
      have "mkstemp_end op tmp_max (name_of p w incr)
        (mkstemp_loop op incr (length p) k (w + of_nat n * incr + incr) ?t (tried @ [?name]) e)"
        by (simp add: k(2) algebra_simps)
      with True show ?thesis
        unfolding k(1) mkstemp_loop.simps put_letters_text[OF Suc.prems(1)] Let_def t Inl sum.case by auto
    qed
  qed
qed

lemma mkstemp_loop_prefix:
  "length x = 6 \<Longrightarrow> \<exists>y. length y = 6 \<and>
     fst (snd (snd (mkstemp_loop op incr (length p) k w (p @ x @ r) tried err))) = p @ y @ r"
  by (induction k arbitrary: x w tried err)
    (auto simp: put_letters_text Let_def split: sum.split)

lemma mkstemp_template:
  assumes "no_nul p"
  shows "mkstemp op tmp_max usec sec pid err (p @ ''XXXXXX'' @ NUL # r)
    = Some (mkstemp_loop op (increment usec) (length p) tmp_max (first_number usec sec pid)
        (p @ ''XXXXXX'' @ NUL # r) [] err)"
proof -
  have n: "no_nul (p @ ''XXXXXX'')" using assms by (simp add: no_nul_def)
  show ?thesis
    using c_strlen_terminated[OF n, of r] c_str_terminated[OF n, of r] by (simp add: mkstemp_def)
qed

lemma mkstemp_names:
  assumes "no_nul p"
  shows "\<exists>res y. mkstemp op tmp_max usec sec pid err (p @ ''XXXXXX'' @ NUL # r) = Some res \<and>
     mkstemp_end op tmp_max (name_of p (first_number usec sec pid) (increment usec)) res \<and>
     length y = 6 \<and> fst (snd (snd res)) = p @ y @ NUL # r"
  using mkstemp_loop_names[of "''XXXXXX''" p 0 tmp_max "[]" "first_number usec sec pid" "increment usec" op r err]
    mkstemp_loop_prefix[of "''XXXXXX''" op "increment usec" p tmp_max "first_number usec sec pid" "NUL # r" "[]" err]
    assms mkstemp_template[OF assms, of op tmp_max usec sec pid err r]
  by (auto simp: taken_def)

lemma mkstemp_bad_template:
  assumes "no_nul s" "\<not> (\<exists>p. s = p @ ''XXXXXX'')"
  shows "mkstemp op tmp_max usec sec pid err (s @ NUL # r) = Some (-1, EINVAL, s @ NUL # r, [])"
proof -
  have "drop (length s - 6) s \<noteq> ''XXXXXX''"
    using assms(2) append_take_drop_id[of "length s - 6" s] by metis
  then show ?thesis using assms(1) by (simp add: mkstemp_def)
qed

lemma increment_zero:
  assumes "unat usec < 1024" shows "increment usec = 0"
proof -
  have "drop_bit 10 usec = 0"
    using assms by (simp add: word_eq_iff_unsigned unsigned_drop_bit_eq drop_bit_eq_div unat_div flip: unat_eq_0)
  then show ?thesis by (simp add: increment_def)
qed

section \<open>daemon\<close>

datatype dcall = DFork | DSetsid | DChdir string | DOpen string | DDup2 int int | DClose int

text \<open>The parent exits; the child returns a status.\<close>

datatype dresult = DExit int | DReturn int

type_synonym dsystem = "(dcall \<times> int) list \<Rightarrow> dcall \<Rightarrow> int"

definition dcall :: "dsystem \<Rightarrow> dcall \<Rightarrow> (dcall \<times> int) list \<Rightarrow> int \<times> (dcall \<times> int) list" where
  "dcall os c h = (os h c, h @ [(c, os h c)])"

fun dup_all :: "dsystem \<Rightarrow> int \<Rightarrow> int list \<Rightarrow> (dcall \<times> int) list \<Rightarrow> bool \<times> (dcall \<times> int) list" where
  "dup_all os fd [] h = (True, h)"
| "dup_all os fd (d # ds) h =
     (let (r, h) = dcall os (DDup2 fd d) h in if r < 0 then (False, h) else dup_all os fd ds h)"

definition daemon_redirect :: "dsystem \<Rightarrow> (dcall \<times> int) list \<Rightarrow> dresult \<times> (dcall \<times> int) list" where
  "daemon_redirect os h =
     (let (fd, h) = dcall os (DOpen ''/dev/null'') h
      in if fd < 0 then (DReturn (-1), h)
         else (let (ok, h) = dup_all os fd [0, 1, 2] h
               in if \<not> ok then (DReturn (-1), h)
                  else if fd > 2 then (DReturn 0, snd (dcall os (DClose fd) h))
                  else (DReturn 0, h)))"

definition daemon :: "dsystem \<Rightarrow> bool \<Rightarrow> bool \<Rightarrow> dresult \<times> (dcall \<times> int) list" where
  "daemon os nochdir noclose =
     (let (status, h) = dcall os DFork []
      in if status < 0 then (DReturn (-1), h)
         else if status > 0 then (DExit 0, h)
         else (let (sid, h) = dcall os DSetsid h
               in if sid < 0 then (DReturn (-1), h)
                  else (let (dir, h) = (if nochdir then (0, h) else dcall os (DChdir ''/'') h)
                        in if dir < 0 then (DReturn (-1), h)
                           else if noclose then (DReturn 0, h)
                           else daemon_redirect os h)))"

text \<open>The descriptors after a history of calls: the file each refers to.\<close>

fun fd_table :: "(int \<Rightarrow> string option) \<Rightarrow> (dcall \<times> int) list \<Rightarrow> int \<Rightarrow> string option" where
  "fd_table tab [] = tab"
| "fd_table tab ((DOpen f, r) # h) = fd_table (if r \<ge> 0 then tab(r \<mapsto> f) else tab) h"
| "fd_table tab ((DDup2 a b, r) # h) = fd_table (if r \<ge> 0 then tab(b := tab a) else tab) h"
| "fd_table tab ((DClose a, r) # h) = fd_table (tab(a := None)) h"
| "fd_table tab ((c, r) # h) = fd_table tab h"

text \<open>\<open>open\<close> answers with a descriptor that is not in use.\<close>

definition opens_free :: "dsystem \<Rightarrow> (int \<Rightarrow> string option) \<Rightarrow> bool" where
  "opens_free os tab \<longleftrightarrow> (\<forall>h f. 0 \<le> os h (DOpen f) \<longrightarrow> fd_table tab h (os h (DOpen f)) = None)"

lemma daemon_result:
  "daemon os nochdir noclose = (DReturn 0, h) \<Longrightarrow>
   os [] DFork = 0 \<and> (\<exists>sid. h ! 1 = (DSetsid, sid) \<and> 0 \<le> sid) \<and>
   (\<not> nochdir \<longrightarrow> (\<exists>r. h ! 2 = (DChdir ''/'', r) \<and> 0 \<le> r))"
  by (auto simp: daemon_def daemon_redirect_def dcall_def Let_def split: if_splits prod.splits)

lemma daemon_null:
  assumes "opens_free os tab" "daemon os nochdir False = (DReturn 0, h)"
  shows "fd_table tab h = tab(0 \<mapsto> ''/dev/null'', 1 \<mapsto> ''/dev/null'', 2 \<mapsto> ''/dev/null'')"
proof -
  let ?h = "(DFork, os [] DFork) # (DSetsid, os [(DFork, os [] DFork)] DSetsid) #
    (if nochdir then [] else [(DChdir ''/'', os [(DFork, os [] DFork), (DSetsid, os [(DFork, os [] DFork)] DSetsid)] (DChdir ''/''))])"
  let ?fd = "os ?h (DOpen ''/dev/null'')"
  have "daemon_redirect os ?h = (DReturn 0, h)"
    using assms(2) by (auto simp: daemon_def dcall_def Let_def split: if_splits)
  moreover have "0 \<le> ?fd \<Longrightarrow> tab ?fd = None"
    using assms(1) unfolding opens_free_def by (cases nochdir) fastforce+
  ultimately show ?thesis
    by (auto simp: daemon_redirect_def dcall_def Let_def fun_upd_twist split: if_splits)
qed

end
