(* ===== verification/Arch.thy ===== *)
theory Arch
  imports Stats "HOL-Library.More_List"
begin

text \<open>
  Load and boot time on the other systems: \<open>server/arch/osf.c\<close>, \<open>darwin.c\<close>, \<open>hpux10.c\<close>, \<open>solaris.c\<close>, \<open>aix.c\<close>,
  \<open>bsd.c\<close>, \<open>hpux9.c\<close> and \<open>irix.c\<close>. Each file defines the same two functions; here their names begin with the name of
  the file. What does not compile as it is written is left out: \<open>kernel_getboottime\<close> of \<open>aix.c\<close> (\<open>curr\<close> is
  not declared), \<open>kernel_close\<close> of \<open>bsd.c\<close> (\<open>kd\<close>), \<open>kernel_getload\<close> of \<open>hpux9.c\<close> (\<open>kern_avenrun\<close>), and
  \<open>kernel_open\<close> of \<open>irix.c\<close> (\<open>kernel_offset\<close>) with \<open>kernel_getload\<close>, which calls it.

  The systems' own libraries are calls to a \<open>machine\<close>, whose answers depend on the history; an answer of the wrong kind is
  a failure. The layout of a login record, the line of the one that marks the boot, and
  the name of the file are the parameter \<open>utmpx\<close>.
\<close>

section \<open>The machines\<close>

datatype arch_call =
    ATable string
  | ASysctl string
  | APstat
  | AUtxid
  | AKstatOpen | AKstatLookup int string | AKstatRead int int | AKstatData int string | AKstatClose int
  | AKnlist | ANlist string | AKvmOpen | AKvmNlist int | AKvmRead int int nat
  | AOpen string | ASeek int int | ARead int nat | AClose int
  | AReport level string "msg_arg list"

text \<open>
  A number; bytes; three integers; three doubles; the load averages of Tru64 (scale, as integers, as doubles); the types and
  values of the two entries of a name list.
\<close>

datatype 'd aret =
    AFail
  | ANum int
  | ABytes bytes
  | AInts int int int
  | ADoubles 'd 'd 'd
  | AAvenrun int "int \<times> int \<times> int" "'d \<times> 'd \<times> 'd"
  | ANames "int \<times> int" "int \<times> int"

type_synonym 'd machine = "arch_call list \<Rightarrow> arch_call \<Rightarrow> 'd aret"

type_synonym 'd loads = "'d \<times> 'd \<times> 'd"

text \<open>
  The calls made so far, latest first, and the statics of a file: whether the kernel is open, its descriptor or handle,
  and the name list.
\<close>

record arch =
  a_calls :: "arch_call list"
  a_init :: bool
  a_kernel :: int
  a_nl0 :: "int \<times> int"
  a_nl1 :: "int \<times> int"

definition ask :: "'d machine \<Rightarrow> arch_call \<Rightarrow> arch \<Rightarrow> 'd aret \<times> arch" where
  "ask k c s = (k (a_calls s) c, s\<lparr>a_calls := c # a_calls s\<rparr>)"

definition say :: "level \<Rightarrow> string \<Rightarrow> msg_arg list \<Rightarrow> arch \<Rightarrow> arch" where
  "say l m args s = s\<lparr>a_calls := AReport l m args # a_calls s\<rparr>"

fun num_or :: "'d aret \<Rightarrow> int" where
  "num_or (ANum n) = n"
| "num_or _ = -1"

text \<open>\<open>sysdie\<close> ends the program.\<close>

datatype 'a fate = Lives 'a | Dies

definition arch_die :: "string \<Rightarrow> msg_arg list \<Rightarrow> arch \<Rightarrow> 'a fate \<times> arch" where
  "arch_die m args s = (Dies, say Sysdie m args s)"

definition lives_then :: "'a fate \<times> arch \<Rightarrow> ('a \<Rightarrow> arch \<Rightarrow> 'b fate \<times> arch) \<Rightarrow> 'b fate \<times> arch" where
  "lives_then r f = (case r of (Lives x, s) \<Rightarrow> f x s | (Dies, s) \<Rightarrow> (Dies, s))"

lemma lives_then_simps [simp]:
  "lives_then (Lives x, s) f = f x s" "lives_then (Dies, s) f = (Dies, s)"
  by (simp_all add: lives_then_def)

lemma ask_simps [simp]:
  "fst (ask k c s) = k (a_calls s) c" "a_calls (snd (ask k c s)) = c # a_calls s"
  by (simp_all add: ask_def)

section \<open>Tru64, Mac OS X, HP-UX 10 and IRIX: one call\<close>

text \<open>\<open>float_div\<close> is the quotient of two integers in \<open>float\<close>, converted to \<open>double\<close>.\<close>

definition osf_getload :: "'d machine \<Rightarrow> (int \<Rightarrow> int \<Rightarrow> 'd) \<Rightarrow> 'd loads \<Rightarrow> arch \<Rightarrow> (int \<times> 'd loads) \<times> arch" where
  "osf_getload k float_div junk s =
     (let (r, s) = ask k (ATable ''TBL_LOADAVG'') s
      in case r of
           AAvenrun scale (n1, n5, n15) (d1, d5, d15) \<Rightarrow>
             if scale \<noteq> 0 then ((0, float_div n1 scale, float_div n5 scale, float_div n15 scale), s)
             else ((0, d1, d5, d15), s)
         | _ \<Rightarrow> ((-1, junk), s))"

definition osf_getboottime :: "'d machine \<Rightarrow> int \<Rightarrow> arch \<Rightarrow> (int \<times> int) \<times> arch" where
  "osf_getboottime k junk s =
     (let (r, s) = ask k (ATable ''TBL_SYSINFO'') s
      in case r of ANum boot \<Rightarrow> ((0, boot), s) | _ \<Rightarrow> ((-1, junk), s))"

text \<open>\<open>FSCALE\<close> comes from \<open>sys/param.h\<close> and is the parameter \<open>fscale\<close>.\<close>

definition darwin_getload ::
  "'d machine \<Rightarrow> 'd fpu \<Rightarrow> int \<Rightarrow> 'd loads \<Rightarrow> arch \<Rightarrow> (int \<times> 'd loads) \<times> arch" where
  "darwin_getload k fpu fscale junk s =
     (let (r, s) = ask k (ASysctl ''vm.loadavg'') s; scaled = (\<lambda>n. fp_div fpu (fp_int fpu n) (fp_int fpu fscale))
      in case r of
           AInts n1 n5 n15 \<Rightarrow> ((0, scaled n1, scaled n5, scaled n15), s)
         | _ \<Rightarrow> ((-1, junk), say Syswarn ''error reading kernel load average'' [] s))"

definition darwin_getboottime :: "'d machine \<Rightarrow> int \<Rightarrow> arch \<Rightarrow> (int \<times> int) \<times> arch" where
  "darwin_getboottime k junk s =
     (let (r, s) = ask k (ASysctl ''kern.boottime'') s
      in case r of
           ANum boot \<Rightarrow> ((0, boot), s)
         | _ \<Rightarrow> ((-1, junk), say Syswarn ''error reding kernel boot time'' [] s))"

definition hpux10_getload :: "'d machine \<Rightarrow> 'd loads \<Rightarrow> arch \<Rightarrow> (int \<times> 'd loads) \<times> arch" where
  "hpux10_getload k junk s =
     (let (r, s) = ask k APstat s
      in case r of ADoubles d1 d5 d15 \<Rightarrow> ((0, d1, d5, d15), s) | _ \<Rightarrow> ((-1, junk), s))"

text \<open>\<open>setutxent\<close>, \<open>getutxid\<close> and \<open>endutxent\<close> are one call.\<close>

definition irix_getboottime :: "'d machine \<Rightarrow> int \<Rightarrow> arch \<Rightarrow> (int \<times> int) \<times> arch" where
  "irix_getboottime k junk s =
     (let (r, s) = ask k AUtxid s
      in case r of
           ANum boot \<Rightarrow> ((0, boot), s)
         | _ \<Rightarrow> ((-1, junk), say Syswarn ''getutxid failed to find BOOT_TIME'' [] s))"

definition irix_kernel_close :: "'d machine \<Rightarrow> arch \<Rightarrow> int \<times> arch" where
  "irix_kernel_close k s =
     (if \<not> a_init s then (0, s) else (let (r, s) = ask k (AClose (a_kernel s)) s in (num_or r, s)))"

section \<open>HP-UX 10 and Solaris: the login records\<close>

record utmpx =
  ux_line :: "bytes \<Rightarrow> string"
  ux_sec :: "bytes \<Rightarrow> int"
  ux_boot_msg :: string
  ux_file :: string

text \<open>\<open>read\<close> into a buffer: the count, and the buffer with its beginning overwritten.\<close>

definition read_into :: "'d machine \<Rightarrow> int \<Rightarrow> bytes \<Rightarrow> arch \<Rightarrow> (int \<times> bytes) \<times> arch" where
  "read_into k fd buf s =
     (let (r, s) = ask k (ARead fd (length buf)) s
      in case r of
           ABytes bs \<Rightarrow> (let bs = take (length buf) bs in ((int (length bs), bs @ drop (length bs) buf), s))
         | _ \<Rightarrow> ((-1, buf), s))"

text \<open>The loop over the records: \<open>ut\<close> is the buffer, \<open>boot\<close> what \<open>*boottime\<close> holds.\<close>

partial_function (option) utmpx_scan ::
  "'d machine \<Rightarrow> utmpx \<Rightarrow> int \<Rightarrow> bytes \<Rightarrow> int \<Rightarrow> arch \<Rightarrow> (int \<times> arch) option" where
  "utmpx_scan k ux fd ut boot s =
     (let ((nread, ut), s) = read_into k fd ut s
      in if nread > 0 then (if ux_boot_msg ux = ux_line ux ut then Some (ux_sec ux ut, s) else utmpx_scan k ux fd ut boot s)
         else Some (boot, s))"

definition utmpx_boottime ::
  "'d machine \<Rightarrow> utmpx \<Rightarrow> bytes \<Rightarrow> int \<Rightarrow> arch \<Rightarrow> ((int \<times> int) \<times> arch) option" where
  "utmpx_boottime k ux ut boot s =
     (let (r, s) = ask k (AOpen (ux_file ux)) s; fd = num_or r; status = (\<lambda>boot. if boot = 0 then -1 else 0)
      in if fd \<ge> 0
         then (case utmpx_scan k ux fd ut boot s of
                 None \<Rightarrow> None
               | Some (boot, s) \<Rightarrow> Some ((status boot, boot), snd (ask k (AClose fd) s)))
         else Some ((status boot, boot), s))"

text \<open>\<open>hpux10.c\<close> sets \<open>*boottime\<close> to zero first, \<open>solaris.c\<close> does not; otherwise the functions are the same.\<close>

definition hpux10_getboottime ::
  "'d machine \<Rightarrow> utmpx \<Rightarrow> bytes \<Rightarrow> int \<Rightarrow> arch \<Rightarrow> ((int \<times> int) \<times> arch) option" where
  "hpux10_getboottime k ux ut junk s = utmpx_boottime k ux ut 0 s"

definition solaris_getboottime ::
  "'d machine \<Rightarrow> utmpx \<Rightarrow> bytes \<Rightarrow> int \<Rightarrow> arch \<Rightarrow> ((int \<times> int) \<times> arch) option" where
  "solaris_getboottime k ux ut junk s = utmpx_boottime k ux ut junk s"

section \<open>Solaris: kernel statistics\<close>

text \<open>A null pointer is a failure.\<close>

definition solaris_kernel_open :: "'d machine \<Rightarrow> arch \<Rightarrow> unit fate \<times> arch" where
  "solaris_kernel_open k s =
     (let (r, s) = ask k AKstatOpen s
      in case r of ANum h \<Rightarrow> (Lives (), s\<lparr>a_kernel := h, a_init := True\<rparr>) | _ \<Rightarrow> arch_die ''kstat_open failed'' [] s)"

definition solaris_kernel_close :: "'d machine \<Rightarrow> arch \<Rightarrow> int \<times> arch" where
  "solaris_kernel_close k s =
     (if \<not> a_init s then (0, s) else (let (r, s) = ask k (AKstatClose (a_kernel s)) s in (num_or r, s)))"

definition solaris_getload ::
  "'d machine \<Rightarrow> 'd fpu \<Rightarrow> int \<Rightarrow> 'd loads \<Rightarrow> arch \<Rightarrow> (int \<times> 'd loads) fate \<times> arch" where
  "solaris_getload k fpu fscale junk s =
     lives_then (if \<not> a_init s then solaris_kernel_open k s else (Lives (), s)) (\<lambda>_ s.
       let (ksp, s) = ask k (AKstatLookup (a_kernel s) ''system_misc'') s
       in case ksp of
            ANum ksp \<Rightarrow>
              (let (r, s) = ask k (AKstatRead (a_kernel s) ksp) s
               in if num_or r < 0 then (Lives (-1, junk), s)
                  else (let (kn1, s) = ask k (AKstatData ksp ''avenrun_1min'') s;
                            (kn5, s) = ask k (AKstatData ksp ''avenrun_5min'') s;
                            (kn15, s) = ask k (AKstatData ksp ''avenrun_15min'') s;
                            scaled = (\<lambda>n. fp_div fpu (fp_int fpu n) (fp_int fpu fscale))
                        in case (kn1, kn5, kn15) of
                             (ANum n1, ANum n5, ANum n15) \<Rightarrow> (Lives (0, scaled n1, scaled n5, scaled n15), s)
                           | _ \<Rightarrow> (Lives (-1, junk), s)))
          | _ \<Rightarrow> (Lives (-1, junk), s))"

section \<open>AIX and HP-UX 9: kernel memory through a file\<close>

text \<open>A signed integer in memory.\<close>

definition mem_int :: "endian \<Rightarrow> bytes \<Rightarrow> int" where
  "mem_int e bs =
     (let n = foldl (\<lambda>a b. 256 * a + int (of_char b)) 0 (case e of Big \<Rightarrow> bs | Little \<Rightarrow> rev bs)
      in if n \<ge> 2 ^ (8 * length bs - 1) then n - 2 ^ (8 * length bs) else n)"

definition kmem_open :: "'d machine \<Rightarrow> arch_call \<Rightarrow> string \<Rightarrow> arch \<Rightarrow> unit fate \<times> arch" where
  "kmem_open k names vmunix s =
     (let (r, s) = ask k (AOpen ''/dev/kmem'') s; s = s\<lparr>a_kernel := num_or r\<rparr>
      in if a_kernel s < 0 then arch_die ''cannot open %s'' [MStr ''/dev/kmem''] s
         else (let (r, s) = ask k names s
               in case r of
                    ANames n0 n1 \<Rightarrow> (Lives (), s\<lparr>a_nl0 := n0, a_nl1 := n1, a_init := True\<rparr>)
                  | _ \<Rightarrow> arch_die ''no namelist for %s'' [MStr vmunix] s))"

definition aix_kernel_open :: "'d machine \<Rightarrow> arch \<Rightarrow> unit fate \<times> arch" where
  "aix_kernel_open k s = kmem_open k AKnlist ''/unix'' s"

definition hpux9_kernel_open :: "'d machine \<Rightarrow> arch \<Rightarrow> unit fate \<times> arch" where
  "hpux9_kernel_open k s = kmem_open k (ANlist ''/hp-ux'') ''/hp-ux'' s"

text \<open>The two files have the same functions for closing and reading.\<close>

definition kmem_close :: "'d machine \<Rightarrow> arch \<Rightarrow> int \<times> arch" where
  "kmem_close k s =
     (if \<not> a_init s then (0, s) else (let (r, s) = ask k (AClose (a_kernel s)) s in (num_or r, s)))"

definition kmem_read :: "'d machine \<Rightarrow> int \<Rightarrow> bytes \<Rightarrow> arch \<Rightarrow> bytes fate \<times> arch" where
  "kmem_read k whence dest s =
     (let (r, s) = ask k (ASeek (a_kernel s) whence) s
      in if num_or r < 0 then arch_die ''cannot lseek in %s'' [MStr ''/dev/kmem''] s
         else (let ((status, dest), s) = read_into k (a_kernel s) dest s
               in if status < 0 then arch_die ''kernel read of %s failed'' [MStr ''/dev/kmem''] s else (Lives dest, s)))"

definition aix_kernel_close :: "'d machine \<Rightarrow> arch \<Rightarrow> int \<times> arch" where
  "aix_kernel_close k s = kmem_close k s"

definition hpux9_kernel_close :: "'d machine \<Rightarrow> arch \<Rightarrow> int \<times> arch" where
  "hpux9_kernel_close k s = kmem_close k s"

definition aix_kernel_read :: "'d machine \<Rightarrow> int \<Rightarrow> bytes \<Rightarrow> arch \<Rightarrow> bytes fate \<times> arch" where
  "aix_kernel_read k whence dest s = kmem_read k whence dest s"

definition hpux9_kernel_read :: "'d machine \<Rightarrow> int \<Rightarrow> bytes \<Rightarrow> arch \<Rightarrow> bytes fate \<times> arch" where
  "hpux9_kernel_read k whence dest s = kmem_read k whence dest s"

text \<open>\<open>stale\<close> is what the local array of three ints holds before.\<close>

definition aix_getload :: "'d machine \<Rightarrow> 'd fpu \<Rightarrow> endian \<Rightarrow> bytes \<Rightarrow> arch \<Rightarrow> (int \<times> 'd loads) fate \<times> arch" where
  "aix_getload k fpu e stale s =
     lives_then (if \<not> a_init s then aix_kernel_open k s else (Lives (), s)) (\<lambda>_ s.
       lives_then (aix_kernel_read k (snd (a_nl0 s)) stale s) (\<lambda>load s.
         let nth_load = (\<lambda>i. fp_div fpu (fp_int fpu (mem_int e (take 4 (drop (4 * i) load)))) (fp_ratio fpu 65536 1))
         in (Lives (0, nth_load 0, nth_load 1, nth_load 2), s)))"

text \<open>\<open>tv_sec\<close> reads the seconds of a \<open>struct timeval\<close>.\<close>

definition hpux9_getboottime ::
  "'d machine \<Rightarrow> (bytes \<Rightarrow> int) \<Rightarrow> bytes \<Rightarrow> int \<Rightarrow> arch \<Rightarrow> (int \<times> int) fate \<times> arch" where
  "hpux9_getboottime k tv_sec stale junk s =
     lives_then (if \<not> a_init s then hpux9_kernel_open k s else (Lives (), s)) (\<lambda>_ s.
       if fst (a_nl1 s) = 0 then (Lives (-1, junk), s)
       else lives_then (hpux9_kernel_read k (snd (a_nl1 s)) stale s) (\<lambda>boot s. (Lives (0, tv_sec boot), s)))"

section \<open>BSD: kernel memory through a library\<close>

definition bsd_kernel_open :: "'d machine \<Rightarrow> arch \<Rightarrow> unit fate \<times> arch" where
  "bsd_kernel_open k s =
     (let (r, s) = ask k AKvmOpen s
      in case r of
           ANum h \<Rightarrow>
             (let s = s\<lparr>a_kernel := h\<rparr>; (r, s) = ask k (AKvmNlist h) s
              in case r of
                   ANames n0 n1 \<Rightarrow> (Lives (), s\<lparr>a_nl0 := n0, a_nl1 := n1, a_init := True\<rparr>)
                 | _ \<Rightarrow> arch_die ''kvm_nlist failed'' [] s)
         | _ \<Rightarrow> arch_die ''kvm_open failed'' [] s)"

text \<open>\<open>kvm_read\<close> returns the number of bytes it has read, and -1 when it fails.\<close>

definition bsd_kernel_read :: "'d machine \<Rightarrow> int \<Rightarrow> bytes \<Rightarrow> arch \<Rightarrow> bytes fate \<times> arch" where
  "bsd_kernel_read k whence dest s =
     (let (r, s) = ask k (AKvmRead (a_kernel s) whence (length dest)) s;
          (status, dest) = (case r of
             ABytes bs \<Rightarrow> (let bs = take (length dest) bs in (int (length bs), bs @ drop (length bs) dest))
           | _ \<Rightarrow> (-1, dest))
      in if status \<noteq> 0 then arch_die ''kvm_read failed'' [] s else (Lives dest, s))"

text \<open>\<open>w\<close> is the size of a \<open>long\<close>.\<close>

definition bsd_getload ::
  "'d machine \<Rightarrow> 'd fpu \<Rightarrow> endian \<Rightarrow> nat \<Rightarrow> int \<Rightarrow> bytes \<Rightarrow> 'd loads \<Rightarrow> arch \<Rightarrow> (int \<times> 'd loads) fate \<times> arch" where
  "bsd_getload k fpu e w fscale stale junk s =
     lives_then (if \<not> a_init s then bsd_kernel_open k s else (Lives (), s)) (\<lambda>_ s.
       if fst (a_nl0 s) = 0 then (Lives (-1, junk), s)
       else lives_then (bsd_kernel_read k (snd (a_nl0 s)) stale s) (\<lambda>load s.
         let nth_load = (\<lambda>i. fp_div fpu (fp_int fpu (mem_int e (take w (drop (w * i) load)))) (fp_int fpu fscale))
         in (Lives (0, nth_load 0, nth_load 1, nth_load 2), s)))"

definition bsd_getboottime ::
  "'d machine \<Rightarrow> (bytes \<Rightarrow> int) \<Rightarrow> bytes \<Rightarrow> int \<Rightarrow> arch \<Rightarrow> (int \<times> int) fate \<times> arch" where
  "bsd_getboottime k tv_sec stale junk s =
     lives_then (if \<not> a_init s then bsd_kernel_open k s else (Lives (), s)) (\<lambda>_ s.
       if fst (a_nl1 s) = 0 then (Lives (-1, junk), s)
       else lives_then (bsd_kernel_read k (snd (a_nl0 s)) stale s) (\<lambda>boot s. (Lives (0, tv_sec boot), s)))"

section \<open>An out parameter that can be trusted\<close>

text \<open>
  The contract of the two functions as \<open>lbcd_pack_info\<close> uses them: the status is 0 or -1, and with 0 nothing depends on what
  the caller's variables held.
\<close>

locale out_param =
  fixes get :: "'j \<Rightarrow> 's \<Rightarrow> (int \<times> 'j) \<times> 's"
  assumes status: "fst (fst (get j s)) = 0 \<or> fst (fst (get j s)) = -1"
    and sets: "fst (fst (get j s)) = 0 \<Longrightarrow> get j' s = get j s"
begin

lemma status_fixed: "fst (fst (get j s)) = fst (fst (get j' s))"
  using status[of j s] status[of j' s] sets[of j s j'] sets[of j' s j] by auto

lemma no_junk: "fst (fst (get j s)) \<noteq> -1 \<Longrightarrow> snd (fst (get j s)) = snd (fst (get j' s))"
  using status[of j s] sets[of j s j'] by simp

end

interpretation linux_load: out_param "kernel_getload k fpu"
  by unfold_locales (auto simp: kernel_getload_def split_beta split: option.splits list.splits)

interpretation linux_boot: out_param "kernel_getboottime k fpu"
  by unfold_locales (auto simp: kernel_getboottime_def split_beta split: option.splits list.splits)

interpretation osf_load: out_param "osf_getload k float_div"
  by unfold_locales (auto simp: osf_getload_def split_beta split: aret.splits)

interpretation osf_boot: out_param "osf_getboottime k"
  by unfold_locales (auto simp: osf_getboottime_def split_beta split: aret.splits)

interpretation darwin_load: out_param "darwin_getload k fpu fscale"
  by unfold_locales (auto simp: darwin_getload_def Let_def split_beta split: aret.splits)

interpretation darwin_boot: out_param "darwin_getboottime k"
  by unfold_locales (auto simp: darwin_getboottime_def split_beta split: aret.splits)

interpretation hpux10_load: out_param "hpux10_getload k"
  by unfold_locales (auto simp: hpux10_getload_def split_beta split: aret.splits)

interpretation irix_boot: out_param "irix_getboottime k"
  by unfold_locales (auto simp: irix_getboottime_def split_beta split: aret.splits)

section \<open>The boot record\<close>

text \<open>What the loop looks for: the first record that marks the boot.\<close>

definition boot_seconds :: "utmpx \<Rightarrow> bytes list \<Rightarrow> int \<Rightarrow> int" where
  "boot_seconds ux recs dflt =
     (case find (\<lambda>r. ux_boot_msg ux = ux_line ux r) recs of None \<Rightarrow> dflt | Some r \<Rightarrow> ux_sec ux r)"

text \<open>The reads up to that record, or up to the end of the file.\<close>

definition boot_reads :: "utmpx \<Rightarrow> bytes list \<Rightarrow> nat" where
  "boot_reads ux recs = Suc (length (takeWhile (\<lambda>r. ux_boot_msg ux \<noteq> ux_line ux r) recs))"

text \<open>A machine that delivers the records of a file one for each read, then end of file.\<close>

definition reads :: "int \<Rightarrow> arch_call list \<Rightarrow> nat" where
  "reads fd h = length (filter (\<lambda>c. case c of ARead fd' n \<Rightarrow> fd' = fd | _ \<Rightarrow> False) h)"

definition delivers :: "'d machine \<Rightarrow> int \<Rightarrow> bytes list \<Rightarrow> bool" where
  "delivers k fd recs \<longleftrightarrow> (\<forall>h n. k h (ARead fd n) = ABytes (nth_default [] recs (reads fd h)))"

lemma read_into_delivers:
  assumes "delivers k fd recs" "\<forall>r \<in> set recs. length r = length buf"
  shows "read_into k fd buf s =
    (if reads fd (a_calls s) < length recs
     then ((int (length buf), recs ! reads fd (a_calls s)), s\<lparr>a_calls := ARead fd (length buf) # a_calls s\<rparr>)
     else ((0, buf), s\<lparr>a_calls := ARead fd (length buf) # a_calls s\<rparr>))"
  using assms by (auto simp: read_into_def ask_def delivers_def nth_default_def)

lemma utmpx_scan_records:
  assumes "delivers k fd recs" "\<forall>r \<in> set recs. length r = length ut" "ut \<noteq> []"
    and "drop (reads fd (a_calls s)) recs = todo"
  shows "utmpx_scan k ux fd ut boot s =
    Some (boot_seconds ux todo boot, s\<lparr>a_calls := replicate (boot_reads ux todo) (ARead fd (length ut)) @ a_calls s\<rparr>)"
  using assms
proof (induction todo arbitrary: ut s)
  case Nil
  then have "read_into k fd ut s = ((0, ut), s\<lparr>a_calls := ARead fd (length ut) # a_calls s\<rparr>)"
    by (simp add: read_into_delivers[OF Nil.prems(1,2)])
  then show ?case
    by (subst utmpx_scan.simps) (simp add: boot_seconds_def boot_reads_def)
next
  case (Cons r todo)
  let ?n = "reads fd (a_calls s)" and ?s = "s\<lparr>a_calls := ARead fd (length ut) # a_calls s\<rparr>"
  have n: "?n < length recs" using Cons.prems(4) by (metis drop_all list.distinct(1) not_le)
  then have r: "recs ! ?n = r" "drop (Suc ?n) recs = todo"
    using Cons.prems(4) by (simp_all add: Cons_nth_drop_Suc[symmetric])
  have len: "length r = length ut" using Cons.prems(2) n r(1) nth_mem by blast
  have rd: "read_into k fd ut s = ((int (length ut), r), ?s)"
    using n by (simp add: read_into_delivers[OF Cons.prems(1,2)] r)
  show ?case
  proof (cases "ux_boot_msg ux = ux_line ux r")
    case True
    then show ?thesis using rd \<open>ut \<noteq> []\<close>
      by (subst utmpx_scan.simps) (simp add: boot_seconds_def boot_reads_def)
  next
    case False
    have "utmpx_scan k ux fd r boot ?s = Some (boot_seconds ux todo boot,
        ?s\<lparr>a_calls := replicate (boot_reads ux todo) (ARead fd (length r)) @ a_calls ?s\<rparr>)"
      using Cons.prems len r(2) by (intro Cons.IH) (auto simp: reads_def)
    moreover have "boot_seconds ux (r # todo) boot = boot_seconds ux todo boot"
      "boot_reads ux (r # todo) = Suc (boot_reads ux todo)"
      using False by (simp_all add: boot_seconds_def boot_reads_def)
    ultimately show ?thesis using rd len False \<open>ut \<noteq> []\<close>
      by (subst utmpx_scan.simps) (simp add: replicate_app_Cons_same)
  qed
qed

lemma utmpx_boottime_records:
  assumes "k (a_calls s) (AOpen (ux_file ux)) = ANum fd" "fd \<ge> 0" "delivers k fd recs" "reads fd (a_calls s) = 0"
    and "\<forall>r \<in> set recs. length r = length ut" "ut \<noteq> []"
  shows "utmpx_boottime k ux ut boot s =
    Some ((if boot_seconds ux recs boot = 0 then -1 else 0, boot_seconds ux recs boot),
      s\<lparr>a_calls := AClose fd # replicate (boot_reads ux recs) (ARead fd (length ut)) @ AOpen (ux_file ux) # a_calls s\<rparr>)"
proof -
  have "reads fd (a_calls (s\<lparr>a_calls := AOpen (ux_file ux) # a_calls s\<rparr>)) = 0"
    using assms(4) by (simp add: reads_def)
  then show ?thesis
    using utmpx_scan_records[OF assms(3,5,6), of "s\<lparr>a_calls := AOpen (ux_file ux) # a_calls s\<rparr>" recs ux boot] assms(1,2)
    by (simp add: utmpx_boottime_def ask_def)
qed

section \<open>Kernel memory\<close>

lemma sint_from_unat:
  "sint (w :: u32) = (if 2147483648 \<le> int (unat w) then int (unat w) - 4294967296 else int (unat w))"
proof -
  have b: "bit (uint w) 31 \<longleftrightarrow> 2147483648 \<le> uint w"
  proof (cases "2147483648 \<le> uint w")
    case True
    then have "uint w div 2147483648 = 1"
      using uint_bounded[of w] by (intro int_div_pos_eq[where r = "uint w - 2147483648"]) auto
    then show ?thesis using True by (simp add: bit_iff_odd)
  next
    case False
    then show ?thesis using uint_bounded[of w] by (simp add: bit_iff_odd div_pos_pos_trivial)
  qed
  show ?thesis
    using b uint_bounded[of w]
    by (simp add: sint_uint signed_take_bit_eq_take_bit_minus take_bit_int_eq_self)
qed

lemma mem_int_mem32: "mem_int e (mem32 e w) = sint (w :: u32)"
proof -
  have "foldl (\<lambda>a b. 256 * a + int (of_char b)) 0 [char_of a, char_of b, char_of c, char_of d] = int (cat4 a b c d)"
    if "a < 256" "b < 256" "c < 256" "d < 256" for a b c d
    using that by (simp add: cat4_def cat2_def)
  then have "foldl (\<lambda>a b. 256 * a + int (of_char b)) 0 (be32 w) = int (unat w)"
    using unat_u32_less[of w] by (simp add: be32_def del: of_nat_unat)
  then show ?thesis by (cases e) (simp_all add: mem_int_def sint_from_unat)
qed

text \<open>What AIX reports when the memory is read whole.\<close>

lemma aix_getload_whole:
  assumes "a_init s" "num_or (k (a_calls s) (ASeek (a_kernel s) (snd (a_nl0 s)))) \<ge> 0" "length stale = 12"
    and "k (ASeek (a_kernel s) (snd (a_nl0 s)) # a_calls s) (ARead (a_kernel s) 12) =
      ABytes (mem32 e w1 @ mem32 e w5 @ mem32 e w15)"
  shows "fst (aix_getload k fpu e stale s) =
    Lives (0, fp_div fpu (fp_int fpu (sint w1)) (fp_ratio fpu 65536 1),
      fp_div fpu (fp_int fpu (sint w5)) (fp_ratio fpu 65536 1), fp_div fpu (fp_int fpu (sint w15)) (fp_ratio fpu 65536 1))"
  using assms
  by (simp add: aix_getload_def aix_kernel_read_def kmem_read_def read_into_def ask_def mem_int_mem32)

text \<open>
  On BSD the count that \<open>kvm_read\<close> returns is taken for an error: what \<open>kernel_getload\<close> and \<open>kernel_getboottime\<close> report is
  never anything but what the local variable held before.
\<close>

lemma bsd_kernel_read_stale: "bsd_kernel_read k whence dest s = (Lives dest', s') \<Longrightarrow> dest' = dest"
  by (auto simp: bsd_kernel_read_def Let_def split_beta arch_die_def split: aret.splits if_splits)

lemma bsd_kernel_read_dies:
  "k (a_calls s) (AKvmRead (a_kernel s) whence (length dest)) = ABytes bs \<Longrightarrow> bs \<noteq> [] \<Longrightarrow> dest \<noteq> [] \<Longrightarrow>
   fst (bsd_kernel_read k whence dest s) = Dies"
  by (simp add: bsd_kernel_read_def Let_def ask_def arch_die_def)

lemma bsd_getload_stale:
  assumes "bsd_getload k fpu e w fscale stale junk s = (Lives (0, loads), s')"
  shows "loads =
    (fp_div fpu (fp_int fpu (mem_int e (take w stale))) (fp_int fpu fscale),
     fp_div fpu (fp_int fpu (mem_int e (take w (drop w stale)))) (fp_int fpu fscale),
     fp_div fpu (fp_int fpu (mem_int e (take w (drop (w * 2) stale)))) (fp_int fpu fscale))"
  using assms
  by (auto simp: bsd_getload_def lives_then_def Let_def dest!: bsd_kernel_read_stale split: fate.splits if_splits prod.splits)

lemma bsd_getboottime_stale:
  "bsd_getboottime k tv_sec stale junk s = (Lives (0, boot), s') \<Longrightarrow> boot = tv_sec stale"
  by (auto simp: bsd_getboottime_def lives_then_def dest!: bsd_kernel_read_stale split: fate.splits if_splits prod.splits)

end
