(* ===== verification/Library.thy ===== *)
theory Library
  imports Handlers GetName Portability Arch
begin

text \<open>
  The properties of the support code under \<open>util/\<close> and \<open>portable/\<close>: formatted output, reports,
  allocation, name resolution, temporary files and the detachment of a daemon; and of the statistics on systems
  other than Linux.
\<close>

section \<open>Parameters for the witnesses\<close>

text \<open>Exact arithmetic is a rounding, and numbers with few digits are formatted with it.\<close>

lemma rounding_exact: "rounding (\<lambda>x. x)"
  by (simp add: rounding_def)

definition test_lib :: "(nat \<Rightarrow> bool) \<Rightarrow> clib" where
  "test_lib avail = \<lparr>lib_room = (\<lambda>i n. avail i), lib_junk = (\<lambda>_ _. CHR ''?''),
     lib_text = (\<lambda>_. portable_text (\<lambda>x. x)), lib_strerror = (\<lambda>_. ''Cannot allocate memory''), lib_enomem = 12\<rparr>"

lemma test_lib_portable: "portable_lib (\<lambda>x. x) (test_lib avail)"
  by (simp add: portable_lib_def rounding_exact test_lib_def)

definition test_items :: "item list" where
  "test_items = [Lit CHR ''n'', Lit CHR ''='', Dir [DP_F_ZERO] (Fixed 4) Omitted DP_C_NONE CHR ''d'',
     Lit CHR '' '', Dir [] (Fixed 6) (Fixed 2) DP_C_NONE CHR ''f'']"

definition test_args :: "va_arg list" where
  "test_args = [VInt 42, VDouble (5 / 4)]"

lemma test_items_ok: "well_formed test_items"
  by (simp add: test_items_def well_formed_def conversions_def)

lemma test_items_text: "denote (\<lambda>x. x) test_items test_args = Some ''n=0042   1.25''"
  by code_simp

section \<open>Formatted output\<close>

text \<open>C7: For every format of the supported grammar and arguments whose text \<open>denote\<close> defines, \<open>vsnprintf\<close> returns the
  length of that text, which is the one the standard asks for, and stores its first \<open>count - 1\<close>
  characters and a nul; nothing behind the \<open>count\<close> bytes changes.\<close>

theorem vsnprintf_prints:
  assumes "rounding rnd" "well_formed its" "denote rnd its args = Some t" "int (length t) \<le> INT_MAX"
    and "0 < count" "count \<le> length b"
  shows "\<exists>b'. vsnprintf rnd (Some b) count (unparse its @ NUL # junk) args = Some (int (length t), Some b', []) \<and>
    length b' = length b \<and> take (min (length t) (count - 1) + 1) b' = take (count - 1) t @ [NUL] \<and>
    drop count b' = drop count b"
  using vsnprintf_stores[OF assms] stored_fits[OF assms(5,6), of t] stored_drop[OF assms(5,6), of t]
  by (auto simp: stored_def min_def)

lemma vsnprintf_prints_witness:
  "\<exists>b'. vsnprintf (\<lambda>x. x) (Some (replicate 9 CHR ''z'')) 7 (unparse test_items @ NUL # []) test_args
      = Some (int (length ''n=0042   1.25''), Some b', []) \<and>
    length b' = length (replicate 9 (CHR ''z'')) \<and>
    take (min (length ''n=0042   1.25'') (7 - 1) + 1) b' = take (7 - 1) ''n=0042   1.25'' @ [NUL] \<and>
    drop 7 b' = drop 7 (replicate 9 (CHR ''z''))"
  by (rule vsnprintf_prints[OF rounding_exact test_items_ok test_items_text]) simp_all

text \<open>C34: A string argument with a precision is read one byte too far: a field of exactly that many bytes, which the
  standard allows, is undefined behaviour, while one byte more behind it gives the right text.\<close>

theorem fmtstr_reads_past_precision:
  assumes "no_nul s" "0 \<le> mn" "mn \<le> INT_MAX" "int (length s) \<le> INT_MAX"
  shows "fmtstr m (Some s) flags mn (int (length s)) w = None \<and>
    fmtstr m (Some (s @ [c])) flags mn (int (length s)) w = emit m (c99_str flags mn (int (length s)) s) (0, w)"
proof -
  have p: "str_part (int (length s)) (s @ [c]) = s" "str_part (int (length s)) s = s"
    using assms(1) by (simp_all add: str_part_def)
  have r: "str_readable (int (length s)) (s @ [c])" by (simp add: str_readable_def)
  have "c99_str flags mn (int (length s)) (s @ [c]) = c99_str flags mn (int (length s)) s"
    by (simp add: c99_str_def p)
  then show ?thesis
    using fmtstr_overread[OF assms(1)] fmtstr_c99[OF r assms(2,3), of m flags w] p assms(4) by simp
qed

lemma fmtstr_reads_past_precision_witness:
  "fmtstr 10 (Some ''abc'') {} 5 (int (length ''abc'')) \<lparr>o_buf = None, o_cur = 0\<rparr> = None \<and>
   fmtstr 10 (Some (''abc'' @ [CHR ''d''])) {} 5 (int (length ''abc'')) \<lparr>o_buf = None, o_cur = 0\<rparr>
     = emit 10 (c99_str {} 5 (int (length ''abc'')) ''abc'') (0, \<lparr>o_buf = None, o_cur = 0\<rparr>)"
  by (rule fmtstr_reads_past_precision) (simp_all add: no_nul_def)

section \<open>Reports\<close>


text \<open>C15: A report is given to the handlers of its list once each and in order: those for the standard streams write
  the program name, the message and, for \<open>syswarn\<close>, the text of \<open>errno\<close>; those for \<open>syslog\<close> log the
  same without the name; any other is called with the length and the error. Only a handler for
  \<open>syslog\<close> that gets no memory stops this: it writes to standard error, and the program ends.\<close>

theorem report_reaches_handlers:
  assumes "portable_lib rnd lib" "well_formed its" "denote rnd its args = Some t" "int (length t) \<le> INT_MAX" "no_nul t"
    and "pending s = []" "heap_ok s" "handler_list (warn_handlers s) s = Some hs"
  shows "reports lib hs t 0 s (warn (Suc n) lib (unparse its @ [NUL]) args s) \<and>
    reports lib hs t (errnum s) s (syswarn (Suc n) lib (unparse its @ [NUL]) args s)"
proof -
  have st: "steady lib (unparse its @ [NUL]) args t"
    using portable_steady[OF assms(1-5), of "[]"] by simp
  show ?thesis unfolding warn_def syswarn_def Let_def
    using deliver_reports[OF st assms(6-8)] by blast
qed

definition test_handlers :: "handler list" where
  "test_handlers = [H_user 5, H_syslog 4, H_stderr]"

definition test_prog :: prog where
  "test_prog = start_prog\<lparr>lists := [7 \<mapsto> test_handlers], fresh := 8, warn_handlers := List_at 7,
     die_handlers := List_at 7, errnum := 2, message_program_name := Some ''lbcd''\<rparr>"

lemma test_prog_facts:
  "pending test_prog = []" "heap_ok test_prog" "handler_list (warn_handlers test_prog) test_prog = Some test_handlers"
  "handler_list (die_handlers test_prog) test_prog = Some test_handlers" "tries test_prog = 0" "user_calls test_prog = []"
  "screen test_prog = []" "message_program_name test_prog = Some ''lbcd''" "fatal_status test_prog = 1"
  by (auto simp: test_prog_def start_prog_def heap_ok_def screen_def fatal_status_def)

lemma report_reaches_handlers_witness:
  "(\<exists>s'. warn (Suc 0) (test_lib (\<lambda>_. True)) (unparse test_items @ [NUL]) test_args test_prog = goes_on s' \<and>
      keeps test_prog s' \<and> user_calls s' = [(5, 13, 0)] \<and>
      screen s' = map (Pair (Syslog 4)) ''n=0042   1.25'' @ map (Pair Stderr) (''lbcd: n=0042   1.25'' @ newline)) \<and>
   (\<exists>s'. warn (Suc 0) (test_lib (\<lambda>_. False)) (unparse test_items @ [NUL]) test_args test_prog = exits 1 s' \<and>
      user_calls s' = [(5, 13, 0)] \<and> screen s' = map (Pair Stderr) (no_room_text (test_lib (\<lambda>_. False)) 13))"
proof -
  have r: "reports (test_lib avail) test_handlers ''n=0042   1.25'' 0 test_prog
      (warn (Suc 0) (test_lib avail) (unparse test_items @ [NUL]) test_args test_prog)" for avail
    by (rule report_reaches_handlers[OF test_lib_portable test_items_ok test_items_text _ _ test_prog_facts(1,2,3),
        THEN conjunct1]) (simp_all add: no_nul_def)
  have l: "length ''n=0042   1.25'' = 13" by simp
  have room: "lib_room (test_lib avail) i n = avail i" for avail i n by (simp add: test_lib_def)
  have "served (test_lib (\<lambda>_. True)) 13 0 test_handlers = test_handlers"
    "served (test_lib (\<lambda>_. False)) 13 0 test_handlers = [H_user 5]" "test_handlers \<noteq> [H_user 5]"
    by (simp_all add: test_handlers_def room)
  then show ?thesis
    using r[of "\<lambda>_. True"] r[of "\<lambda>_. False"] unfolding reports_def Let_def l test_prog_facts
    by (auto simp: test_handlers_def message_line_def error_suffix_def)
qed

section \<open>Lists of handlers\<close>

text \<open>C11: In every state a program reaches by setting handlers, resetting them and reporting, each list is allocated and
  belongs to one variable, and a reset frees all of them and restores the defaults.\<close>

theorem handler_lists_sound:
  assumes "handler_reach n lib s"
  shows "lists_ok s \<and> (\<exists>s'. message_handlers_reset s = Some s' \<and> lists s' = Map.empty \<and>
    debug_handlers s' = Null_list \<and> notice_handlers s' = Stdout_handlers \<and>
    warn_handlers s' = Stderr_handlers \<and> die_handlers s' = Stderr_handlers)"
  using handler_reach_ok[OF assms] reset_ok[OF handler_reach_ok[OF assms]] by auto

definition set_prog :: prog where
  "set_prog = start_prog\<lparr>lists := [0 \<mapsto> [H_syslog 4]], fresh := 1, tries := 1, die_handlers := List_at 0\<rparr>"

lemma set_prog_step:
  "message_handlers_die (xmalloc_fail 1 (test_lib (\<lambda>_. True))) (test_lib (\<lambda>_. True)) [H_syslog 4] start_prog = goes_on set_prog"
  by (simp add: message_handlers_die_def message_handlers_def start_prog_def set_prog_def x_calloc_def x_loop.simps
      c_calloc_def test_lib_def HANDLER_SIZE_def SIZE_MAX_def)

lemma set_prog_reached: "handler_reach 1 (test_lib (\<lambda>_. True)) set_prog"
  by (rule handler_reach.step[OF handler_reach.start handler_step.set_die[OF set_prog_step]])

lemma handler_lists_sound_witness:
  "lists_ok set_prog \<and> (\<exists>s'. message_handlers_reset set_prog = Some s' \<and> lists s' = Map.empty \<and>
    debug_handlers s' = Null_list \<and> notice_handlers s' = Stdout_handlers \<and>
    warn_handlers s' = Stderr_handlers \<and> die_handlers s' = Stderr_handlers)"
  by (rule handler_lists_sound[OF set_prog_reached])

text \<open>C35: Replacing a list for fatal errors when there is no memory is a use after free: the old list is freed before
  the new one is allocated, and the failure is reported to the freed list. With memory the call succeeds.\<close>

theorem set_die_use_after_free:
  assumes "lists_ok s" "die_handlers s = List_at a" "\<forall>i k. \<not> lib_room lib i k" "\<forall>i fmt args. lib_text lib i fmt args \<noteq> None"
    and "\<forall>i k. lib_room lib' i k" "8 * (length hs + 1) \<le> SIZE_MAX"
  shows "message_handlers_die (xmalloc_fail n lib) lib hs s = None \<and>
    (\<exists>s'. message_handlers_die (xmalloc_fail n lib') lib' hs s = goes_on s' \<and> handler_list (die_handlers s') s' = Some hs)"
proof -
  have "lists s a \<noteq> None"
    using lists_ok_var[OF assms(1), of Die_list a] assms(2) by simp
  then have "\<exists>s'. message_handlers_die (xmalloc_fail n lib') lib' hs s = goes_on s'"
    using assms(2,5,6)
    by (simp add: message_handlers_die_def message_handlers_def free_list_def x_calloc_def x_loop.simps c_calloc_def
        HANDLER_SIZE_def algebra_simps)
  then obtain s' where s': "message_handlers_die (xmalloc_fail n lib') lib' hs s = goes_on s'" by blast
  from setter_ok[OF assms(1) this[unfolded setters]] have "handler_list (die_handlers s') s' = Some hs"
    by (metis var_get.simps(4))
  with s' show ?thesis using set_die_without_memory[OF assms(2-4)] by blast
qed

lemma set_die_use_after_free_witness:
  "message_handlers_die (xmalloc_fail 1 ((test_lib (\<lambda>_. False))\<lparr>lib_text := \<lambda>_ _ _. Some ''out of memory''\<rparr>))
      ((test_lib (\<lambda>_. False))\<lparr>lib_text := \<lambda>_ _ _. Some ''out of memory''\<rparr>) [H_stderr] set_prog = None \<and>
   (\<exists>s'. message_handlers_die (xmalloc_fail 1 (test_lib (\<lambda>_. True))) (test_lib (\<lambda>_. True)) [H_stderr] set_prog = goes_on s' \<and>
      handler_list (die_handlers s') s' = Some [H_stderr])"
  by (rule set_die_use_after_free[where a = 0])
    (auto simp: test_lib_def SIZE_MAX_def set_prog_def start_prog_def lists_ok_def heap_ok_def owned_def)

section \<open>Allocation\<close>

text \<open>The block that the loop of the wrappers ends with, when the handler returns and memory comes back.\<close>

lemma x_loop_total:
  assumes "\<And>s. attempt s \<noteq> None" "\<And>s. n \<le> tries s \<Longrightarrow> \<exists>p s'. attempt s = Some (Some p, s')"
    "\<And>s s'. attempt s = Some (None, s') \<Longrightarrow> tries s < tries s'" "\<And>s. \<exists>s'. fail s = goes_on s' \<and> tries s \<le> tries s'"
  shows "\<exists>p s' t. x_loop attempt True fail s = goes_on (Some p, s') \<and> attempt t = Some (Some p, s')"
proof -
  obtain p s' where r: "x_loop attempt True fail s = goes_on (Some p, s')"
    using x_loop_returns[of attempt n fail s] assms by blast
  then show ?thesis using x_loop_result[OF r] by blast
qed

lemma malloc_loop_total:
  assumes "\<And>i. n \<le> i \<Longrightarrow> lib_room lib i sz" "\<And>s. \<exists>s'. fail s = goes_on s' \<and> tries s \<le> tries s'"
  shows "\<exists>p s' t. x_loop (\<lambda>s. Some (c_malloc lib sz s)) True fail s = goes_on (Some p, s') \<and> c_malloc lib sz t = (Some p, s')"
proof -
  let ?attempt = "\<lambda>s. Some (c_malloc lib sz s)"
  have 1: "\<And>s. ?attempt s \<noteq> None" by simp
  have 2: "\<And>s. n \<le> tries s \<Longrightarrow> \<exists>p s'. ?attempt s = Some (Some p, s')"
    using assms(1) by (simp add: c_malloc_def)
  have 3: "\<And>s s'. ?attempt s = Some (None, s') \<Longrightarrow> tries s < tries s'"
    by (auto simp: c_malloc_def split: if_splits)
  from x_loop_total[of ?attempt n fail s, OF 1 2 3 assms(2)]
  obtain p s' t where "x_loop ?attempt True fail s = goes_on (Some p, s')" "?attempt t = Some (Some p, s')"
    by blast
  then have "x_loop ?attempt True fail s = goes_on (Some p, s')" "c_malloc lib sz t = (Some p, s')"
    by simp_all
  then show ?thesis by blast
qed

text \<open>With a handler that returns, and memory from some request on, \<open>xmalloc\<close> returns, with a block of the size asked
  for, or of one byte for the size 0.\<close>

theorem x_malloc_gets_memory:
  assumes "\<forall>i. n \<le> i \<longrightarrow> lib_room lib i (max sz 1)"
    and "\<forall>s. \<exists>s'. eh ''malloc'' sz file line s = goes_on s' \<and> tries s \<le> tries s'"
  shows "\<exists>p s' b. x_malloc eh lib sz file line s = goes_on (Some p, s') \<and> blocks s' p = Some b \<and> length b = max sz 1"
proof -
  have sz: "(if sz > 0 then sz else 1) = max sz 1" by auto
  obtain p s' t where "x_malloc eh lib sz file line s = goes_on (Some p, s')" "c_malloc lib (max sz 1) t = (Some p, s')"
    using malloc_loop_total[of n lib "max sz 1" "eh ''malloc'' sz file line" s] assms unfolding x_malloc_def Let_def sz by blast
  then show ?thesis by (auto simp: c_malloc_def split: if_splits)
qed

lemma x_malloc_gets_memory_witness:
  "\<exists>p s' b. x_malloc (\<lambda>_ _ _ _ s. goes_on s) (test_lib (\<lambda>i. 3 \<le> i)) 5 ''x.c'' 9 start_prog = goes_on (Some p, s') \<and>
    blocks s' p = Some b \<and> length b = max 5 1"
  by (rule x_malloc_gets_memory[where n = 3]) (simp_all add: test_lib_def)

text \<open>C16: With the default handler and no memory, \<open>xmalloc\<close> ends the program with the status of a fatal error. The
  handlers for fatal errors are given one message with the function, the size, the file, the line
  and \<open>errno\<close>, up to the first handler for \<open>syslog\<close> whose own request for memory fails as well: it
  writes to standard error, and neither it nor the handlers behind it report the message.\<close>

theorem x_malloc_out_of_memory:
  assumes "portable_lib rnd lib" "pending s = []" "heap_ok s"
    and "handler_list (die_handlers s) s = Some hs"
    and "no_nul file" "length file \<le> 900" "0 < sz" "sz < 2 ^ 64" "0 \<le> line" "line < 2147483648"
    and "\<not> lib_room lib (tries s) sz"
    and "t = ''failed to malloc '' @ show_nat sz @ '' bytes at '' @ file @ '' line '' @ show_int line"
    and "served_hs = served lib (length t) (tries s + 1) hs"
  shows "\<exists>s'. x_malloc (xmalloc_fail (Suc n) lib) lib sz file line s = exits (fatal_status s) s' \<and>
    screen s' = screen s @ concat (map (handler_line lib (message_program_name s) t (lib_enomem lib)) served_hs)
      @ (if served_hs = hs then [] else map (Pair Stderr) (no_room_text lib (length t))) \<and>
    user_calls s' = user_calls s @ concat (map (user_entry (length t) (lib_enomem lib)) served_hs)"
proof -
  have s: "screen (refused lib s) = screen s" "fatal_status (refused lib s) = fatal_status s"
    "tries (refused lib s) = tries s + 1" "message_program_name (refused lib s) = message_program_name s"
    "user_calls (refused lib s) = user_calls s"
    by (simp_all add: refused_def screen_def fatal_status_def)
  have "t = alloc_message ''malloc'' sz file line" using assms(12) by (simp add: alloc_message_def)
  from x_malloc_dies[OF assms(1-11), of n, folded this] show ?thesis
    unfolding dies_def Let_def s assms(13)[symmetric] .
qed

text \<open>Without any memory the handler for \<open>syslog\<close>, which the server installs for fatal errors, loses the message.\<close>

lemma x_malloc_out_of_memory_witness:
  "\<exists>s'. x_malloc (xmalloc_fail (Suc 0) (test_lib (\<lambda>_. False))) (test_lib (\<lambda>_. False)) 10 ''x.c'' 9 test_prog = exits 1 s' \<and>
    screen s' = map (Pair Stderr) (no_room_text (test_lib (\<lambda>_. False)) 39) \<and>
    user_calls s' = [(5, 39, lib_enomem (test_lib (\<lambda>_. False)))]"
proof -
  let ?lib = "test_lib (\<lambda>_. False)"
  let ?t = "''failed to malloc '' @ show_nat 10 @ '' bytes at '' @ ''x.c'' @ '' line '' @ show_int 9"
  have t: "length ?t = 39" by code_simp
  have room: "\<not> lib_room ?lib i n" for i n by (simp add: test_lib_def)
  have sv: "[H_user 5] = served ?lib (length ?t) (tries test_prog + 1) test_handlers"
    by (simp add: test_handlers_def room)
  have h: "[H_user 5] \<noteq> test_handlers" by (simp add: test_handlers_def)
  show ?thesis
    using x_malloc_out_of_memory[OF test_lib_portable test_prog_facts(1,2,4) _ _ _ _ _ _ room refl sv, of 0, unfolded t] h
    by (simp add: test_prog_facts no_nul_def)
qed

text \<open>\<open>xstrndup\<close> reads no further than the first nul or the size, and its copy is a string of its own with those
  characters.\<close>

theorem x_strndup_copy:
  assumes "NUL \<in> set mem \<or> sz \<le> length mem" "\<forall>i k. n \<le> i \<longrightarrow> lib_room lib i k"
    and "\<forall>k s. \<exists>s'. eh ''strndup'' k file line s = goes_on s' \<and> tries s \<le> tries s'"
  shows "\<exists>p s'. x_strndup eh lib mem sz file line s = goes_on (Some p, s') \<and>
    blocks s' p = Some (c_str (take sz mem) @ [NUL])"
proof -
  let ?len = "length (c_str (take sz mem))"
  have scan: "strndup_scan mem sz = Some ?len" using strndup_scan_exists[OF assms(1)] .
  obtain p s' t where loop: "x_loop (\<lambda>s. Some (c_malloc lib (?len + 1) s)) True (eh ''strndup'' (?len + 1) file line) s
      = goes_on (Some p, s')" "c_malloc lib (?len + 1) t = (Some p, s')"
    using malloc_loop_total[of n lib "?len + 1" "eh ''strndup'' (?len + 1) file line" s] assms(2,3) by blast
  have "take ?len mem = c_str (take sz mem)" using strndup_scan_c_str[OF scan] by simp
  then have "block_put p 0 (take ?len mem @ [NUL]) s' = Some (s'\<lparr>blocks := (blocks s')(p \<mapsto> c_str (take sz mem) @ [NUL])\<rparr>)"
    using malloc_put[of lib "c_str (take sz mem) @ [NUL]" t p s'] loop(2) by simp
  then show ?thesis using loop(1) scan by (simp add: x_strndup_def copy_to_def)
qed

lemma x_strndup_copy_witness:
  "\<exists>p s'. x_strndup (\<lambda>_ _ _ _ s. goes_on s) (test_lib (\<lambda>i. 3 \<le> i)) ''abcdef'' 4 ''x.c'' 9 start_prog = goes_on (Some p, s') \<and>
    blocks s' p = Some (c_str (take 4 ''abcdef'') @ [NUL])"
  by (rule x_strndup_copy[where n = 3]) (simp_all add: test_lib_def)

text \<open>C36: With an error handler that returns, \<open>xasprintf\<close> returns a block that holds exactly the text of the format, when
  that is without nuls, and a nul, however often memory runs out before.\<close>

theorem x_asprintf_prints:
  assumes "portable_lib rnd lib" "well_formed its" "denote rnd its args = Some t" "int (length t) \<le> INT_MAX" "no_nul t"
    and "\<forall>i. n \<le> i \<longrightarrow> lib_room lib i (length t + 1)"
    and "\<forall>k s. \<exists>s'. eh ''asprintf'' k file line s = goes_on s' \<and> tries s \<le> tries s'"
  shows "\<exists>p s'. x_asprintf eh lib file line (unparse its @ [NUL]) args s = goes_on (Some p, s') \<and>
    blocks s' p = Some (t @ [NUL])"
proof -
  let ?fmt = "unparse its @ [NUL]"
  have st: "steady lib ?fmt args t" using portable_steady[OF assms(1-5), of "[]"] by simp
  note texts = try_asprintf_def vasprintf_text[OF st]
  have 1: "\<And>s. try_asprintf lib ?fmt args s \<noteq> None" by (simp add: texts)
  have 2: "\<And>s. n \<le> tries s \<Longrightarrow> \<exists>p s'. try_asprintf lib ?fmt args s = Some (Some p, s')"
    using assms(6) by (simp add: texts)
  have 3: "\<And>s s'. try_asprintf lib ?fmt args s = Some (None, s') \<Longrightarrow> tries s < tries s'"
    by (auto simp: texts split: if_splits)
  have 4: "\<exists>s'. asprintf_fail eh lib ''asprintf'' ?fmt args file line s = goes_on s' \<and> tries s \<le> tries s'" for s
  proof -
    let ?s = "s\<lparr>prints := prints s + 1\<rparr>"
    have "asprintf_fail eh lib ''asprintf'' ?fmt args file line s = eh ''asprintf'' (length t + 1) file line ?s"
      using st by (simp add: asprintf_fail_def lib_format_def steady_def)
    moreover have "tries ?s = tries s" by simp
    ultimately show ?thesis using assms(7) by metis
  qed
  obtain p s' where "x_asprintf eh lib file line ?fmt args s = goes_on (Some p, s')"
    using x_loop_total[of "try_asprintf lib ?fmt args" n "asprintf_fail eh lib ''asprintf'' ?fmt args file line" s, OF 1 2 3 4] unfolding x_asprintf_def by blast
  then show ?thesis using x_asprintf_text[OF st] by blast
qed

lemma x_asprintf_prints_witness:
  "\<exists>p s'. x_asprintf (\<lambda>_ _ _ _ s. goes_on s) (test_lib (\<lambda>i. 3 \<le> i)) ''x.c'' 9 (unparse test_items @ [NUL]) test_args start_prog
      = goes_on (Some p, s') \<and> blocks s' p = Some (''n=0042   1.25'' @ [NUL])"
  by (rule x_asprintf_prints[OF test_lib_portable test_items_ok test_items_text, where n = 3])
    (simp_all add: test_lib_def no_nul_def)

section \<open>Name resolution\<close>

definition test_resolver :: resolver where
  "test_resolver = \<lparr>gethostbyname = (\<lambda>s. if s = ''db'' then Inr \<lparr>h_name = Some ''db.example.org'', h_aliases = [],
       h_length = 4, h_addr_list = [0x0a000001, 0x0a000002]\<rparr> else Inl HOST_NOT_FOUND),
     gethostbyaddr = (\<lambda>a. Some \<lparr>h_name = Some ''db'', h_aliases = [''db.example.org''], h_length = 4, h_addr_list = [a]\<rparr>),
     getservbyname = (\<lambda>s p. if s = ''domain'' then Some (''udp'', 53) else None),
     getservbyport = (\<lambda>_ _. None)\<rparr>"

definition test_hints :: gai_hints where
  "test_hints = \<lparr>hint_flags = AI_CANONNAME, hint_family = AF_INET, hint_socktype = TYPE_DGRAM, hint_protocol = 0\<rparr>"

definition empty_mem :: gmem where
  "empty_mem = \<lparr>cells = Map.empty, next_cell = 0, requests = 0\<rparr>"

lemma empty_mem_fresh: "fresh_mem empty_mem"
  by (simp add: fresh_mem_def empty_mem_def)

text \<open>What is true of every entry: IPv4, and a protocol that goes with the socket type.\<close>

fun info_typed :: "addr_info \<Rightarrow> bool" where
  "info_typed (family, socktype, protocol, ip, port, name) \<longleftrightarrow>
     family = AF_INET \<and> socktype \<in> {0, TYPE_STREAM, TYPE_DGRAM} \<and>
     protocol = (if socktype = TYPE_DGRAM then IPPROTO_UDP else IPPROTO_TCP)"

lemma gai_expected_socktype:
  assumes "gai_expected rs ulong e nodename servname hints = Some (ips, st, port, can)"
  shows "st \<in> {0, TYPE_STREAM, TYPE_DGRAM}"
proof -
  obtain flags st0 where c: "gai_check hints = Inr (flags, st0)"
    using assms by (auto simp: gai_expected_def split: sum.splits)
  then have "st0 \<in> {0, TYPE_STREAM, TYPE_DGRAM}"
    by (auto simp: gai_check_def split: option.splits if_splits)
  moreover have "st = st0 \<or> (\<exists>s. servname = Some s \<and> gai_service rs e s flags st0 = Inr (st, port))"
    using assms c by (auto simp: gai_expected_def split: sum.splits option.splits if_splits)
  moreover have "gai_service rs e s flags st0 = Inr (st, port) \<Longrightarrow> st = st0 \<or> st \<in> {TYPE_DGRAM, TYPE_STREAM}" for s
    by (auto simp: gai_service_def Let_def split: option.splits if_splits prod.splits)
  ultimately show ?thesis by auto
qed

text \<open>C17: When \<open>getaddrinfo\<close> succeeds, its list has one entry for each address of the host, in the resolver's order, each an
  IPv4 address with the protocol of its socket type, the port that \<open>gai_service\<close> finds for the service, and the canonical name.\<close>

theorem getaddrinfo_entries:
  assumes "fresh_mem m" "getaddrinfo rs ulong avail e nodename servname hints m = Some ((0, res), m')"
  shows "\<exists>ips st port can. gai_expected rs ulong e nodename servname hints = Some (ips, st, port, can) \<and>
    read_list (cells m') res = Some (map (addr_info e st port can) ips) \<and>
    (\<forall>ip. info_typed (addr_info e st port can ip))"
proof -
  from getaddrinfo_result[OF assms(1), of rs ulong avail e nodename servname hints] assms(2)
  obtain ips st port can where x: "gai_expected rs ulong e nodename servname hints = Some (ips, st, port, can)"
    "gai_made \<lparr>i_endian = e, i_socktype = st, i_canonical = can, i_port = port\<rparr> (cells m) ips (0, res) m'"
    by (auto split: option.splits)
  have "info_of \<lparr>i_endian = e, i_socktype = st, i_canonical = can, i_port = port\<rparr> = addr_info e st port can"
    by (simp add: info_of_def)
  then show ?thesis
    using x gai_made_reads[OF x(2)] gai_expected_socktype[OF x(1)] by (auto simp: addr_info_def)
qed

lemma test_getaddrinfo:
  "map_option (fst \<circ> fst) (getaddrinfo test_resolver TYPE(64) (\<lambda>_. True) Little (Some ''db'') (Some ''domain'')
     (Some test_hints) empty_mem) = Some 0"
proof -
  have name: "inet_aton TYPE(64) Little (Some ''db'') = None" by code_simp
  have hints: "gai_check (Some test_hints) = Inr (AI_CANONNAME, TYPE_DGRAM)" by code_simp
  have number: "convert_service ''domain'' = None"
    by (simp add: convert_service_def c_strtol_def scan_int_def c_isspace_def c_isdigit_def)
  have "gai_service test_resolver Little ''domain'' AI_CANONNAME TYPE_DGRAM = Inr (TYPE_DGRAM, htons Little 53)"
    by (simp add: gai_service_def number test_resolver_def AI_CANONNAME_def AI_NUMERICSERV_BIT_def del: htons.simps)
  then show ?thesis
    by (simp add: getaddrinfo_def gai_lookup_def name hints test_resolver_def AI_CANONNAME_def AI_NUMERICHOST_def
        gai_addrinfo_new_def g_alloc_def empty_mem_def set_next_def g_store_def raw_node_def del: htons.simps)
qed

lemma getaddrinfo_entries_witness:
  "\<exists>res m'. getaddrinfo test_resolver TYPE(64) (\<lambda>_. True) Little (Some ''db'') (Some ''domain'') (Some test_hints) empty_mem
      = Some ((0, res), m') \<and>
    (\<exists>ips st port can. gai_expected test_resolver TYPE(64) Little (Some ''db'') (Some ''domain'') (Some test_hints)
        = Some (ips, st, port, can) \<and>
      read_list (cells m') res = Some (map (addr_info Little st port can) ips) \<and>
      (\<forall>ip. info_typed (addr_info Little st port can ip)))"
proof -
  obtain res m' where "getaddrinfo test_resolver TYPE(64) (\<lambda>_. True) Little (Some ''db'') (Some ''domain'') (Some test_hints)
      empty_mem = Some ((0, res), m')"
    using test_getaddrinfo by auto
  with getaddrinfo_entries[OF empty_mem_fresh this] show ?thesis by blast
qed

text \<open>C9: \<open>getaddrinfo\<close> uses no memory it does not own, whatever requests for memory fail: when it fails nothing it allocated
  is left, and when it succeeds \<open>freeaddrinfo\<close> on its list leaves the memory as it was before.\<close>

theorem getaddrinfo_no_leak:
  assumes "fresh_mem m"
  shows "\<exists>status res m'. getaddrinfo rs ulong avail e nodename servname hints m = Some ((status, res), m') \<and>
    (if status = 0 then (\<exists>m''. freeaddrinfo res m' = Some m'' \<and> cells m'' = cells m)
     else res = None \<and> cells m' = cells m)"
proof -
  obtain r m' where r: "getaddrinfo rs ulong avail e nodename servname hints m = Some (r, m')"
    "case gai_expected rs ulong e nodename servname hints of
       Some (ips, st, port, can) \<Rightarrow>
         gai_made \<lparr>i_endian = e, i_socktype = st, i_canonical = can, i_port = port\<rparr> (cells m) ips r m'
     | None \<Rightarrow> fst r \<noteq> 0 \<and> snd r = None \<and> m' = m"
    using getaddrinfo_result[OF assms, of rs ulong avail e nodename servname hints] by blast
  obtain status res where s: "r = (status, res)" by (cases r)
  show ?thesis
  proof (cases "gai_expected rs ulong e nodename servname hints")
    case None
    then show ?thesis using r s by auto
  next
    case (Some x)
    then obtain i ips where g: "gai_made i (cells m) ips (status, res) m'"
      using r(2) s by (cases x) auto
    show ?thesis
    proof (cases "status = 0")
      case True
      then show ?thesis using r(1) s gai_made_reads[OF g[unfolded True]] by auto
    next
      case False
      then show ?thesis using r(1) s g by (auto simp: gai_made_def)
    qed
  qed
qed

lemma getaddrinfo_no_leak_witness:
  "\<exists>status res m'. getaddrinfo test_resolver TYPE(64) (\<lambda>i. i < 4) Little (Some ''db'') (Some ''domain'') (Some test_hints)
      empty_mem = Some ((status, res), m') \<and>
    (if status = 0 then (\<exists>m''. freeaddrinfo res m' = Some m'' \<and> cells m'' = cells empty_mem)
     else res = None \<and> cells m' = cells empty_mem)"
  by (rule getaddrinfo_no_leak[OF empty_mem_fresh])

lemma one_node_room:
  "\<forall>i. avail i \<Longrightarrow> \<exists>a m'. one_node avail e st can ip port m = Some ((0, Some a), m')"
  by (cases can) (auto simp: one_node_def gai_addrinfo_new_def g_alloc_def Let_def)

definition numeric_hints :: "int \<Rightarrow> gai_hints" where
  "numeric_hints st = \<lparr>hint_flags = AI_NUMERICHOST OR AI_NUMERICSERV_BIT, hint_family = AF_INET, hint_socktype = st,
     hint_protocol = 0\<rparr>"

lemma numeric_check:
  "st \<in> {0, TYPE_STREAM, TYPE_DGRAM} \<Longrightarrow>
   gai_check (Some (numeric_hints st)) = Inr (AI_NUMERICHOST OR AI_NUMERICSERV_BIT, st)"
  by (auto simp: gai_check_def numeric_hints_def AI_NUMERICHOST_def AI_NUMERICSERV_BIT_def AI_INTERNAL_ALL_def)

lemma getaddrinfo_numeric:
  assumes "fresh_mem m" "\<forall>i. avail i" "st \<in> {0, TYPE_STREAM, TYPE_DGRAM}"
  shows "\<exists>res m'. getaddrinfo rs TYPE(64) avail e (Some (inet_ntoa e addr)) (Some (port_text port)) (Some (numeric_hints st)) m
      = Some ((0, res), m') \<and> read_list (cells m') res = Some [addr_info e st port None addr]"
proof -
  have no_name: "(AI_NUMERICHOST OR AI_NUMERICSERV_BIT) AND AI_CANONNAME = 0"
    by (simp add: AI_NUMERICHOST_def AI_NUMERICSERV_BIT_def AI_CANONNAME_def)
  have call: "getaddrinfo rs TYPE(64) avail e (Some (inet_ntoa e addr)) (Some (port_text port)) (Some (numeric_hints st)) m
      = one_node avail e st None addr port m"
    by (simp add: getaddrinfo_def numeric_check[OF assms(3)] gai_service_port gai_lookup_def aton_ntoa no_name)
  obtain a m' where ok: "one_node avail e st None addr port m = Some ((0, Some a), m')"
    using one_node_room[OF assms(2)] by blast
  then have "gai_made \<lparr>i_endian = e, i_socktype = st, i_canonical = None, i_port = port\<rparr> (cells m) [addr] (0, Some a) m'"
    using one_node_list[OF assms(1) refl, of avail e st None addr port] by auto
  from gai_made_reads[OF this] show ?thesis
    by (simp add: call ok info_of_def)
qed

text \<open>C18: The numeric names \<open>getnameinfo\<close> writes into buffers of 16 and 6 bytes are read back by \<open>getaddrinfo\<close> as the same
  address and port.\<close>

theorem numeric_names_roundtrip:
  assumes "rounding rnd" "16 \<le> n" "n \<le> length node" "6 \<le> k" "k \<le> length service"
    and "fresh_mem m" "\<forall>i. avail i" "st \<in> {0, TYPE_STREAM, TYPE_DGRAM}"
  shows "\<exists>node' service' res m'.
    getnameinfo rnd rs e (SIn addr (htons e port)) (Some node) n (Some service) k (NI_NUMERICHOST OR NI_NUMERICSERV)
      = Some (0, Some node', Some service') \<and>
    getaddrinfo rs TYPE(64) avail e (Some (c_str node')) (Some (c_str service')) (Some (numeric_hints st)) m
      = Some ((0, res), m') \<and>
    read_list (cells m') res = Some [addr_info e st port None addr]"
  using getnameinfo_numeric[OF assms(1-5), of rs e addr port] getaddrinfo_numeric[OF assms(6-8), of rs e addr port]
  by fastforce

lemma numeric_names_roundtrip_witness:
  "\<exists>node' service' res m'.
    getnameinfo (\<lambda>x. x) test_resolver Little (SIn 0x0100007f (htons Little 4330)) (Some (replicate 16 NUL)) 16
      (Some (replicate 8 NUL)) 8 (NI_NUMERICHOST OR NI_NUMERICSERV) = Some (0, Some node', Some service') \<and>
    getaddrinfo test_resolver TYPE(64) (\<lambda>_. True) Little (Some (c_str node')) (Some (c_str service'))
      (Some (numeric_hints TYPE_DGRAM)) empty_mem = Some ((0, res), m') \<and>
    read_list (cells m') res = Some [addr_info Little TYPE_DGRAM 4330 None 0x0100007f]"
  by (rule numeric_names_roundtrip[OF rounding_exact _ _ _ _ empty_mem_fresh]) simp_all

text \<open>C37: \<open>getnameinfo\<close> writes nowhere but into the part of its two buffers that the caller claims, for every address, every
  set of flags and every answer of the resolver.\<close>

theorem getnameinfo_bounds:
  assumes "rounding rnd" "res_ok rs" "buffer_ok n node" "buffer_ok k service"
  shows "\<exists>st node' service'. getnameinfo rnd rs e sa node n service k flags = Some (st, node', service') \<and>
    stays_in n node node' \<and> stays_in k service service'"
  using getnameinfo_stays_in[OF assms] .

lemma getnameinfo_bounds_witness:
  "\<exists>st node' service'. getnameinfo (\<lambda>x. x) test_resolver Little (SIn 0x0100007f 53) (Some (replicate 20 CHR ''n'')) 12
      (Some (replicate 9 CHR ''s'')) 3 0 = Some (st, node', service') \<and>
    stays_in 12 (Some (replicate 20 (CHR ''n''))) node' \<and> stays_in 3 (Some (replicate 9 (CHR ''s''))) service'"
  by (rule getnameinfo_bounds[OF rounding_exact]) (simp_all add: res_ok_def test_resolver_def buffer_ok_def)

text \<open>C38: A port without a name whose digits just fill the buffer loses its last digit, and \<open>getnameinfo\<close> reports
  success.\<close>

theorem getnameinfo_cuts_port:
  assumes "rounding rnd" "length s = length (port_text port)" "getservbyport rs (htons e port) ''tcp'' = None"
  shows "getnameinfo rnd rs e (SIn addr (htons e port)) None 0 (Some s) (length s) 0
    = Some (0, None, Some (butlast (port_text port) @ [NUL]))"
proof -
  have "0 < length s" using assms(2) by (simp add: port_text_def)
  then show ?thesis
    using lookup_service_cut[OF assms] by (simp add: getnameinfo_def)
qed

lemma getnameinfo_cuts_port_witness:
  "getnameinfo (\<lambda>x. x) test_resolver Little (SIn 0x0100007f (htons Little 4330)) None 0 (Some ''abcd'') (length ''abcd'') 0
    = Some (0, None, Some (butlast (port_text 4330) @ [NUL])) \<and> port_text 4330 = ''4330''"
proof
  have "char_of (52 :: nat) = CHR ''4''" "char_of (51 :: nat) = CHR ''3''" "char_of (48 :: nat) = CHR ''0''"
    by code_simp+
  then have p: "port_text 4330 = ''4330''" by (simp add: port_text_def show_nat.simps digit_char_def)
  show "port_text 4330 = ''4330''" by (rule p)
  show "getnameinfo (\<lambda>x. x) test_resolver Little (SIn 0x0100007f (htons Little 4330)) None 0 (Some ''abcd'') (length ''abcd'') 0
    = Some (0, None, Some (butlast (port_text 4330) @ [NUL]))"
    by (rule getnameinfo_cuts_port[OF rounding_exact]) (simp_all add: p test_resolver_def)
qed

section \<open>Temporary files and daemons\<close>

text \<open>C39: \<open>mkstemp\<close> changes nothing of the template but its last six characters; it tries at most \<open>TMP_MAX\<close> names, the
  letters of successive numbers, and returns the descriptor of the first it can create, whose name it leaves in the template.
  A template that does not end in \<open>XXXXXX\<close> is refused.\<close>

theorem mkstemp_tries_names:
  assumes "no_nul p"
  shows "(\<exists>st e t tried y. mkstemp op tmp_max usec sec pid e0 (p @ ''XXXXXX'' @ NUL # r) = Some (st, e, t, tried) \<and>
      mkstemp_end op tmp_max (name_of p (first_number usec sec pid) (increment usec)) (st, e, t, tried) \<and>
      length y = 6 \<and> t = p @ y @ NUL # r) \<and>
    ((\<nexists>q. p = q @ ''XXXXXX'') \<longrightarrow>
      mkstemp op tmp_max usec sec pid e0 (p @ NUL # r) = Some (-1, EINVAL, p @ NUL # r, []))"
  using mkstemp_names[OF assms, of op tmp_max usec sec pid e0 r] mkstemp_bad_template[OF assms, of op tmp_max usec sec pid e0 r]
  by fastforce

lemma mkstemp_tries_names_witness:
  "(\<exists>st e t tried y. mkstemp (\<lambda>h f. if length h < 2 then Inl EEXIST else Inr 5) 100 654321 1400000000 4711 EOK
        (''/tmp/'' @ ''XXXXXX'' @ NUL # []) = Some (st, e, t, tried) \<and>
      mkstemp_end (\<lambda>h f. if length h < 2 then Inl EEXIST else Inr 5) 100
        (name_of ''/tmp/'' (first_number 654321 1400000000 4711) (increment 654321)) (st, e, t, tried) \<and>
      length y = 6 \<and> t = ''/tmp/'' @ y @ NUL # []) \<and>
    mkstemp (\<lambda>h f. if length h < 2 then Inl EEXIST else Inr 5) 100 654321 1400000000 4711 EOK (''/tmp/'' @ NUL # [])
      = Some (-1, EINVAL, ''/tmp/'' @ NUL # [], [])"
proof -
  have "\<nexists>q. ''/tmp/'' = q @ ''XXXXXX''" by (auto dest: arg_cong[of _ _ length])
  with mkstemp_tries_names[of "''/tmp/''" "\<lambda>h f. if length h < 2 then Inl EEXIST else Inr 5" 100 654321 1400000000 4711 EOK "[]"]
  show ?thesis by (simp add: no_nul_def)
qed

text \<open>C40: When \<open>daemon\<close> returns success, the process is the child, leads a session of its own, and unless asked otherwise has
  left its directory; standard input, output and error are the null device and every other descriptor is as before.\<close>

theorem daemon_detaches:
  assumes "opens_free os tab" "daemon os nochdir noclose = (DReturn 0, h)"
  shows "os [] DFork = 0 \<and> (\<exists>sid. h ! 1 = (DSetsid, sid) \<and> 0 \<le> sid) \<and>
    (\<not> nochdir \<longrightarrow> (\<exists>r. h ! 2 = (DChdir ''/'', r) \<and> 0 \<le> r)) \<and>
    (\<not> noclose \<longrightarrow> fd_table tab h = tab(0 \<mapsto> ''/dev/null'', 1 \<mapsto> ''/dev/null'', 2 \<mapsto> ''/dev/null''))"
  using daemon_result[OF assms(2)] daemon_null[OF assms(1)] assms(2) by (cases noclose) auto

text \<open>A system where every call succeeds and descriptor 3 is given out when it is free.\<close>

definition test_tab :: "int \<Rightarrow> string option" where
  "test_tab = [0 \<mapsto> ''/dev/tty'', 5 \<mapsto> ''/var/log/lbcd'']"

definition test_system :: dsystem where
  "test_system h c = (case c of DFork \<Rightarrow> 0 | DSetsid \<Rightarrow> 100
     | DOpen f \<Rightarrow> if fd_table test_tab h 3 = None then 3 else -1 | _ \<Rightarrow> 0)"

lemma daemon_detaches_witness:
  "\<exists>h. daemon test_system False False = (DReturn 0, h) \<and>
    test_system [] DFork = 0 \<and> (\<exists>sid. h ! 1 = (DSetsid, sid) \<and> 0 \<le> sid) \<and>
    (\<exists>r. h ! 2 = (DChdir ''/'', r) \<and> 0 \<le> r) \<and>
    fd_table test_tab h = test_tab(0 \<mapsto> ''/dev/null'', 1 \<mapsto> ''/dev/null'', 2 \<mapsto> ''/dev/null'')"
proof -
  have free: "opens_free test_system test_tab"
    by (simp add: opens_free_def test_system_def)
  obtain h where h: "daemon test_system False False = (DReturn 0, h)"
    by (simp add: daemon_def daemon_redirect_def dcall_def test_system_def test_tab_def)
  from daemon_detaches[OF free h] h show ?thesis by blast
qed

section \<open>Statistics on other systems\<close>

text \<open>C26: On a machine that delivers the login records one by one, HP-UX 10 reports the time of the first record that marks the
  boot and fails when there is none; Solaris does the same when there is one, but without one reports what the caller's variable
  held, as a success if that was not zero. Either way the file is read no further than that record, and is closed.\<close>

theorem boottime_from_records:
  assumes "k (a_calls s) (AOpen (ux_file ux)) = ANum fd" "fd \<ge> 0" "delivers k fd recs" "reads fd (a_calls s) = 0"
    and "\<forall>r \<in> set recs. length r = length ut" "ut \<noteq> []"
    and "s' = s\<lparr>a_calls := AClose fd # replicate (boot_reads ux recs) (ARead fd (length ut)) @ AOpen (ux_file ux) # a_calls s\<rparr>"
  shows "hpux10_getboottime k ux ut junk s =
      Some ((if boot_seconds ux recs 0 = 0 then -1 else 0, boot_seconds ux recs 0), s') \<and>
    solaris_getboottime k ux ut junk s =
      Some ((if boot_seconds ux recs junk = 0 then -1 else 0, boot_seconds ux recs junk), s')"
  using utmpx_boottime_records[OF assms(1-6)] assms(7) by (simp add: hpux10_getboottime_def solaris_getboottime_def)

text \<open>Two records, neither of the boot, while the caller's variable holds 42.\<close>

definition test_utmpx :: utmpx where
  "test_utmpx = \<lparr>ux_line = take 4, ux_sec = (\<lambda>r. int (length r)), ux_boot_msg = ''boot'', ux_file = ''/etc/utmpx''\<rparr>"

definition test_records :: "bytes list" where
  "test_records = [''pts1xy'', ''pts2xy'']"

definition test_machine :: "int machine" where
  "test_machine h c = (case c of AOpen f \<Rightarrow> ANum 3
     | ARead fd n \<Rightarrow> ABytes (nth_default [] test_records (reads fd h)) | _ \<Rightarrow> ANum 0)"

definition test_arch :: arch where
  "test_arch = \<lparr>a_calls = [], a_init = False, a_kernel = 0, a_nl0 = (0, 0), a_nl1 = (0, 0)\<rparr>"

lemma boottime_from_records_witness:
  "\<exists>s'. a_calls s' = [AClose 3, ARead 3 6, ARead 3 6, ARead 3 6, AOpen ''/etc/utmpx''] \<and>
    hpux10_getboottime test_machine test_utmpx (replicate 6 NUL) 42 test_arch = Some ((-1, 0), s') \<and>
    solaris_getboottime test_machine test_utmpx (replicate 6 NUL) 42 test_arch = Some ((0, 42), s')"
proof -
  have "test_machine (a_calls test_arch) (AOpen (ux_file test_utmpx)) = ANum 3" "delivers test_machine 3 test_records"
    "reads 3 (a_calls test_arch) = 0" "\<forall>r \<in> set test_records. length r = length (replicate 6 NUL)"
    by (simp_all add: test_machine_def delivers_def reads_def test_arch_def test_records_def)
  from boottime_from_records[OF this(1) _ this(2,3,4) _ refl, of 42]
  show ?thesis
    by (simp add: boot_seconds_def boot_reads_def test_records_def test_utmpx_def test_arch_def numeral_eq_Suc)
qed

end
