(* ===== verification/Spec2Isabelle.thy ===== *)
theory Spec2Isabelle
  imports Program NetAddr NetIo Library
begin

text \<open>
  A model of lbcd, the load-balancing daemon that tells a name server how busy its host is, and the
  theorems about it.

  \<^bold>\<open>The program.\<close> The daemon (\<open>server/lbcd.c\<close>) binds UDP sockets and answers queries. For each it
  collects statistics of the machine (\<open>server/arch/linux.c\<close>, \<open>server/tmp_full.c\<close>, \<open>server/get_user.c\<close>) and a
  weight and increment for the default service and for up to five named ones
  (\<open>server/server.c\<close>, \<open>server/weight.c\<close>, \<open>server/load.c\<close>), which modules (\<open>modules/\<close>) compute by probing the
  service. Below are utilities (\<open>util/\<close>) and replacements for missing library functions (\<open>portable/\<close>).

  \<^bold>\<open>How it is modelled.\<close> C functions are HOL functions over explicit state. A function that can run into
  undefined behaviour or need not return has an option as its result, and \<open>None\<close> stands for both; one that can end the
  program returns an \<open>outcome\<close>. Integers that can wrap around are words, network fields hold network byte order
  and the byte order of the host is a parameter. The outside world is a \<open>kernel\<close> (theory \<open>Os\<close>): a function from
  the history of calls and the next call to its answer, about which nothing is assumed. The state \<open>sys\<close> holds that
  history and \<open>errno\<close>; what a function did is read off the history (\<open>fds_in\<close>: the sockets open, \<open>sent\<close>: the
  datagrams sent, \<open>accepted\<close> and \<open>received\<close>: the bytes written and read, \<open>file_image\<close>: the file written). Messages of
  the server are events of the history too. Memory read before it is written is a parameter (\<open>stale\<close>, \<open>cx_stale_slot\<close> and others), as
  are floating point (\<open>fpu\<close>) and what the C library does that is not in the repository.

  \<^bold>\<open>The theories.\<close>
  \<^item> \<open>Prelude\<close> and \<open>Machine\<close>: C strings, digits and numbers, byte order.
  \<^item> \<open>Strl\<close>, \<open>Inet\<close>: \<open>portable/strlcpy.c\<close>, \<open>strlcat.c\<close>, \<open>strndup.c\<close>, \<open>reallocarray.c\<close>, \<open>inet_aton.c\<close>, \<open>inet_ntoa.c\<close>,
    \<open>inet_ntop.c\<close>. The address parser is compared with a specification over numbers.
  \<^item> \<open>Vector\<close>, \<open>VectorSplit\<close>: \<open>util/vector.c\<close>. A table of slots that are pointers, null, uninitialised or dangling;
    the invariant \<open>vec_inv\<close> and the abstraction \<open>vec_items\<close>. The locale \<open>string_table\<close> is the interface of appending,
    interpreted on both kinds of vector.
  \<^item> \<open>Os\<close>, \<open>Fdflag\<close>, \<open>Xwrite\<close>, \<open>Network\<close>, \<open>NetIo\<close>, \<open>NetAddr\<close>: the outside world, \<open>util/fdflag.c\<close>, \<open>util/xwrite.c\<close> and
    \<open>util/network.c\<close>. The locale \<open>progress_loop\<close> is the loop with ten tries that \<open>xwrite\<close> and \<open>xpwrite\<close> share.
  \<^item> \<open>Fmt\<close>, \<open>FmtFp\<close>, \<open>Dopr\<close>, \<open>Printf\<close>: \<open>portable/snprintf.c\<close>. The state machine \<open>dopr\<close> over the format, the three
    conversions, and a grammar of formats: \<open>denote\<close> is the text C99 asks for, on the formats where the code agrees with C99,
    and \<open>vsnprintf\<close> refines it. Floating point is the rational numbers with a rounding function (\<open>rounding\<close>).
  \<^item> \<open>Alloc\<close>, \<open>Messages\<close>, \<open>Xmalloc\<close>, \<open>Handlers\<close>: \<open>util/messages.c\<close>, \<open>util/xmalloc.c\<close> and \<open>portable/asprintf.c\<close> over
    the state \<open>prog\<close> (blocks, handler lists, what was written). \<open>handler_step\<close> is the relation between the states of a program
    that sets handlers and reports, \<open>lists_ok\<close> its invariant. \<open>served\<close> are the handlers a report gets to before a
    handler for \<open>syslog\<close> runs out of memory, and \<open>reports\<close> and \<open>dies\<close> what they write and are called with.
  \<^item> \<open>GetAddr\<close>, \<open>GaiList\<close>, \<open>GetName\<close>: \<open>portable/getaddrinfo.c\<close> and \<open>portable/getnameinfo.c\<close>. The list of addresses is
    cells in memory; \<open>layout\<close> is the list laid out, \<open>read_list\<close> what a caller reads.
  \<^item> \<open>Portability\<close>: \<open>portable/mkstemp.c\<close> and \<open>portable/daemon.c\<close>.
  \<^item> \<open>Arch\<close>: load and boot time on eight other systems (\<open>server/arch\<close>), over a \<open>machine\<close> that answers their calls. The locale
    \<open>out_param\<close> is the contract of the two functions, interpreted on Linux and on four of them.
  \<^item> \<open>Library\<close>: the properties of these five groups, each with an instance.
  \<^item> \<open>Protocol\<close>: \<open>server/protocol.h\<close>, the packets as records and as bytes.
  \<^item> \<open>Stats\<close>, \<open>Probes\<close>, \<open>Monlist\<close>, \<open>Helper\<close>, \<open>Weight\<close>: the statistics, the modules, the external command and the table
    of services. The load module computes in \<open>int\<close> with every sum, product and array access checked, and \<open>load_spec\<close> is
    the formula it is compared with.
  \<^item> \<open>Server\<close>, \<open>Lbcd\<close>: \<open>server/server.c\<close> and \<open>server/lbcd.c\<close>.
  \<^item> \<open>Replies\<close>, \<open>Requests\<close>, \<open>Answers\<close>, \<open>Contracts\<close>: the lemmas about the server. \<open>traffic\<close> is what a history says of
    datagrams, received (\<open>Got\<close>) and sent (\<open>Gave\<close>); \<open>judge\<close> is the specification of what a datagram deserves; the locale
    \<open>probe_module\<close> is the contract of the modules that probe a port, interpreted on six of them; \<open>load_slot\<close> says what the
    default weight of a reply has to do with its other fields.
  \<^item> \<open>Run\<close>, \<open>Program\<close>: runs of the server. \<open>server_step\<close> is the relation of one turn of the main loop, and \<open>main_loop\<close> computes its
    closure; the datagrams of a run are those received with the answers \<open>due\<close> to them, also for the whole of \<open>main\<close>.

  \<^bold>\<open>Loops.\<close> Loops with a bound are recursive functions with a measure. Loops that a hostile kernel can keep going
  (a time server that never stops answering, a child whose wait is always interrupted, a timed read that is always
  interrupted, the main loop, the loops of the allocation wrappers) are partial functions with option results; where they
  return it is proved. The handler for syslog can call itself through \<open>warn\<close>; the number given to the functions that report
  bounds the depth, and 1 is enough when formatting does not fail. The number of tries \<open>TMP_MAX\<close> is a parameter.

  \<^bold>\<open>Not modelled.\<close> The client is a Perl program. Of the files for other systems in \<open>server/arch\<close> the
  functions that do not compile are left out, and the branches for Windows everywhere; the server is modelled on Linux. \<open>getopt\<close> is the list of options it returns.
  The server's own calls of the message functions are events of its history, not calls of the functions in \<open>Messages\<close>, and
  its calls of \<open>getaddrinfo\<close> go to the kernel, since the replacements are used only where the system has none.
  Infinities and numbers that are not numbers are left out of floating point. Of the headers only constants are modelled.
  Nor modelled are the text that \<open>usage\<close> and \<open>version\<close> print, failures of \<open>hcreate\<close> and \<open>hsearch\<close> other than a full table,
  the time left that Linux stores in the timeout of \<open>select\<close>, addresses that do not fit in \<open>sockaddr_storage\<close>, and
  buffers of \<open>xwritev\<close> that are longer than \<open>SSIZE_MAX\<close> together.
\<close>

section \<open>Inputs of the witnesses\<close>

text \<open>A little-endian machine with IPv6 but no names, stale memory all zero.\<close>

definition test_platform :: platform where
  "test_platform = \<lparr>byte_order = Little, have_inet6 = True, inet_pton6 = (\<lambda>_. None), inet_ntop6 = (\<lambda>_. ''::'')\<rparr>"

definition test_env :: env where
  "test_env = \<lparr>pf = test_platform, stale = (\<lambda>_. NUL), stale_status = None, malloc_room = (\<lambda>_. True), have_ldap = False\<rparr>"

text \<open>Integers stand in for \<open>double\<close>.\<close>

definition test_fpu :: "int fpu" where
  "test_fpu = \<lparr>fp_scan = (\<lambda>_. None), fp_int = (\<lambda>i. i), fp_ratio = (\<lambda>a b. a div b), fp_add = (+), fp_sub = (-),
     fp_mul = (*), fp_div = (div), fp_less = (<), fp_to_int = (\<lambda>i. i), fp_to_u16 = word_of_int\<rparr>"

definition test_globals :: weight_globals where
  "test_globals = snd (lbcd_weight_init test_env None None 5 zero_globals)"

definition zero_reply :: lbcd_reply where
  "zero_reply = \<lparr>reply_h = \<lparr>h_version = 0, h_id = 0, h_op = 0, h_status = 0\<rparr>, boot_time = 0, current_time = 0,
     user_mtime = 0, l1 = 0, l5 = 0, l15 = 0, tot_users = 0, uniq_users = 0, on_console = 0, reserved = 0,
     tmp_full_field = 0, tmpdir_full = 0, pad = 0, services = 0, weights = []\<rparr>"

definition test_ctx :: "kernel \<Rightarrow> int ctx" where
  "test_ctx k = \<lparr>cx_kernel = k, cx_env = test_env, cx_fpu = test_fpu, cx_sentinel = ''/etc/noload'', cx_tmpdir = None,
     cx_globals = test_globals, cx_stale_double = 0, cx_stale_time = 0, cx_stale_reply = zero_reply,
     cx_stale_slot = (\<lambda>_. \<lparr>host_weight = 0, host_incr = 0\<rparr>), cx_stale_name = (\<lambda>_. [])\<rparr>"

definition test_config :: lbcd_config where
  "test_config = op_config default_options"

definition start_state :: sys where
  "start_state = \<lparr>trace = [], err = EOK\<rparr>"

definition start_ustate :: ustate where
  "start_ustate = \<lparr>trace = [], err = EOK,
     ucache = \<lparr>last_total = 0, last_uniq = 0, last_on_console = 0, last_user_mtime = 0\<rparr>\<rparr>"

text \<open>A kernel that delivers a datagram and fails every other call; it never interrupts one.\<close>

definition datagram_kernel :: "bytes \<Rightarrow> kernel" where
  "datagram_kernel d h c = (case c of Io (CRecvfrom fd n) \<Rightarrow> RFrom d (SIn 0x0100007f 0x0930) 16 | _ \<Rightarrow> RErr EINVAL)"

definition interrupting_kernel :: kernel where
  "interrupting_kernel h c = RErr EINTR"

text \<open>A query of version two, with identifier 7.\<close>

definition test_query :: bytes where
  "test_query = wire_header 2 7 1 0"

lemma digit_values: "aton_digit (CHR ''1'') = Some 1" "aton_digit (CHR ''2'') = Some 2"
  "aton_digit (CHR ''3'') = Some 3" "aton_digit (CHR ''a'') = Some 10"
  by code_simp+

section \<open>The server\<close>

text \<open>C1: A datagram is answered as the specification says: a datagram of the wrong shape gets nothing, one
  with an unknown version or a service that is not allowed gets the status, an unknown operation gets its
  status, and a proper query gets one reply of the right length with the header fields echoed. The answer
  goes to the sender. It is always computed when the modules it needs do not wait for a child process or
  a time server.\<close>

theorem datagram_answered:
  fixes s :: "'z ustate_scheme"
  assumes "vec_inv (allowed_services config)"
    and "sys_recvfrom (cx_kernel cx) fd LBCD_MAXMESG s = (Some (d, addr, alen), s1)" "d \<noteq> []"
    and "\<And>v names. judge config d = Accept v names \<Longrightarrow> unat (dg_op d) = LBCD_OP_LBINFO \<Longrightarrow>
      prompt cx ''default'' \<and> (\<forall>sv \<in> set names. prompt cx sv)"
  shows "\<exists>s'. serve_one cx config fd s = Some s' \<and>
    (case judge config d of
       Ignore \<Rightarrow> sent s' = sent s
     | Reject st \<Rightarrow> sent s' = (fd, wire_header 3 (dg_id d) (dg_op d) (status_code st), addr, alen) # sent s
     | Accept v names \<Rightarrow>
         if unat (dg_op d) = LBCD_OP_LBINFO
         then \<exists>bs. sent s' = (fd, bs, addr, alen) # sent s \<and> answer d v (length names) bs
         else sent s' = (fd, wire_header 3 (dg_id d) (dg_op d) (status_code LBCD_STATUS_UNKNOWN_OP), addr, alen) # sent s)"
proof -
  have "\<exists>s'. serve_one cx config fd s = Some s'"
    by (rule serve_one_returns[OF assms(1-3)]) (rule assms(4))
  then show ?thesis using serve_one_ok[OF assms(1-3)] by blast
qed

lemma test_prompt: "prompt (test_ctx k) ''default''"
  by (simp add: prompt_def test_ctx_def test_globals_def lbcd_weight_init_def Let_def is_weights_def
      service_to_func_def functab_of_def service_table_def waits_def NAME_SIZE_def)

lemma test_query_judged: "judge test_config test_query = Accept 2 []"
  by (simp add: judge_def Let_def dg_version_def test_query_def wire_header_def dg_names_def HEADER_SIZE_def
      LBCD_MAX_SERVICES_def)

lemma test_query_op: "dg_op test_query = 1" "test_query \<noteq> []"
proof -
  show "dg_op test_query = 1" by (simp add: dg_op_def test_query_def wire_header_def)
  have "length test_query = 8" by (simp add: test_query_def wire_header_def)
  then show "test_query \<noteq> []" by auto
qed

lemma test_config_inv: "vec_inv (allowed_services test_config)"
  by (simp add: test_config_def default_options_def vtab.tnew_inv)

lemma datagram_received:
  assumes "length d \<le> n"
  shows "sys_recvfrom (datagram_kernel d) fd n s =
    (Some (d, SIn 0x0100007f 0x0930, 16), snd (sys_recvfrom (datagram_kernel d) fd n s))"
  using assms by (simp add: sys_recvfrom_def datagram_kernel_def perform_def Let_def)

theorem datagram_answered_witness:
  "\<exists>s' bs. serve_one (test_ctx (datagram_kernel test_query)) test_config 5 start_ustate = Some s'
    \<and> sent s' = [(5, bs, SIn 0x0100007f 0x0930, 16)] \<and> answer test_query 2 0 bs"
proof -
  have l: "length test_query \<le> LBCD_MAXMESG" by (simp add: test_query_def wire_header_def LBCD_MAXMESG_def)
  have r: "sys_recvfrom (cx_kernel (test_ctx (datagram_kernel test_query))) 5 LBCD_MAXMESG start_ustate =
     (Some (test_query, SIn 0x0100007f 0x0930, 16), snd (sys_recvfrom (datagram_kernel test_query) 5 LBCD_MAXMESG start_ustate))"
    using datagram_received[OF l] by (simp add: test_ctx_def)
  have "sent start_ustate = []" by (simp add: start_ustate_def)
  then show ?thesis
    using datagram_answered[OF test_config_inv r test_query_op(2)] test_prompt
    by (auto simp: test_query_judged test_query_op(1) LBCD_OP_LBINFO_def)
qed

text \<open>C2: From the command line to its exit, the program sends nothing but what is due for the datagrams it received, one by one:
  at most one datagram for each, to its sender and on the socket it came in on. The services allowed are the arguments of the
  options \<open>-a\<close> and \<open>-w\<close>, and the exit status is 0 or 1.\<close>

theorem program_answers:
  fixes s :: "'z ustate_scheme"
  assumes "main cx first parsed rest signaled s = Some ((status, lines), s')"
    and "vec_items (allowed_services config) = requested_services parsed"
  shows "(status = 0 \<or> status = 1) \<and> (\<exists>gs outs. received_from s' = gs @ received_from s \<and> sent s' = concat outs @ sent s \<and>
    list_all2 (due config) gs outs \<and> length (concat outs) \<le> length gs)"
  using main_exchanged[OF assms] due_length[of config] unfolding exchanged_def by blast

text \<open>One datagram is served on the socket that the service manager has bound, and the signal arrives when the answer
  has gone out.\<close>

definition run_kernel :: "bytes \<Rightarrow> kernel" where
  "run_kernel d h c = (case c of Io (CRecvfrom fd n) \<Rightarrow> RFrom d (SIn 0x0100007f 0x0930) 16
     | Io (CSelectRead n fds None) \<Rightarrow> RFds [3] | Init CSdListen \<Rightarrow> RNum 1 | _ \<Rightarrow> RErr EINVAL)"

definition answered :: "history \<Rightarrow> bool" where
  "answered h \<longleftrightarrow> gives (traffic h) \<noteq> []"

lemma run_kernel_step:
  assumes "sent s = []"
  shows "\<exists>s'. server_step (test_ctx (run_kernel test_query)) test_config answered [3] s s' \<and> sent s' \<noteq> []"
proof -
  let ?cx = "test_ctx (run_kernel test_query)" and ?s = "snd (network_wait_any (run_kernel test_query) [3] s)"
  have l: "length test_query \<le> LBCD_MAXMESG" by (simp add: test_query_def wire_header_def LBCD_MAXMESG_def)
  then have r: "sys_recvfrom (cx_kernel ?cx) 3 LBCD_MAXMESG ?s =
     (Some (test_query, SIn 0x0100007f 0x0930, 16), snd (sys_recvfrom (cx_kernel ?cx) 3 LBCD_MAXMESG ?s))"
    by (simp add: sys_recvfrom_def run_kernel_def perform_def Let_def test_ctx_def)
  obtain s' where s': "serve_one ?cx test_config 3 ?s = Some s'"
    using serve_one_returns[OF test_config_inv r test_query_op(2)] test_prompt by (auto simp: test_query_judged)
  have "sent s' \<noteq> []"
    using serve_one_ok[OF test_config_inv r test_query_op(2) s']
    by (auto simp: test_query_judged test_query_op(1) LBCD_OP_LBINFO_def)
  moreover have "fst (network_wait_any (run_kernel test_query) [3] s) = 3"
    by (simp add: network_wait_any_ok run_kernel_def)
  then have w: "network_wait_any (cx_kernel ?cx) [3] s = (3, ?s)"
    by (simp add: test_ctx_def prod_eq_iff)
  have "server_step ?cx test_config answered [3] s s'"
    by (rule server_step.served[OF _ w _ s']) (simp_all add: exit_handler_def answered_def assms INVALID_SOCKET_def)
  ultimately show ?thesis by blast
qed

lemma run_kernel_returns:
  assumes "sent s = []"
  shows "\<exists>s'. main_loop (test_ctx (run_kernel test_query)) test_config answered [3] s = Some (Ret (), s')"
proof -
  obtain s' where 1: "server_step (test_ctx (run_kernel test_query)) test_config answered [3] s s'" and "sent s' \<noteq> []"
    using run_kernel_step[OF assms] by blast
  then have "server_end (test_ctx (run_kernel test_query)) answered [3] s'
      (Ret (), report Notice ''signal received, exiting'' [] s')"
    by (intro server_end.signal) (simp add: exit_handler_def answered_def)
  then show ?thesis using 1 main_loop_iff by blast
qed

lemma test_weight_init: "lbcd_weight_init test_env None None LBCD_TIMEOUT zero_globals = (0, test_globals)"
  by (simp add: test_globals_def lbcd_weight_init_def Let_def LBCD_TIMEOUT_def)

lemma run_kernel_program:
  "\<exists>s'. main (test_ctx (run_kernel test_query)) None [(CHR ''f'', [])] [] answered start_ustate = Some ((0, []), s')"
proof -
  let ?k = "run_kernel test_query"
  let ?cx = "test_ctx ?k" and ?s = "with_handlers (run_kernel test_query) start_ustate"
  have k: "cx_kernel ?cx = ?k" by (simp add: test_ctx_def)
  have listen: "fst (sys_number ?k CSdListen ?s) = int 1"
    by (simp add: sys_number_def run_kernel_def perform_def Let_def)
  have b: "bind_sockets ?cx test_config (with_handlers (cx_kernel ?cx) start_ustate) =
      Some (Ret [3], snd (sys_number ?k CSdListen ?s))"
    using bind_sockets_given[of ?cx ?s 1 test_config] listen by (simp add: k SD_LISTEN_FDS_START_def)
  have "sent (announced ?k test_config (snd (sys_number ?k CSdListen ?s))) = []"
    by (simp add: start_ustate_def)
  from run_kernel_returns[OF this] have h: "\<exists>s'. handle_requests ?cx test_config answered start_ustate = Some (Ret (), s')"
    by (auto simp: handle_requests_bound[OF b] k Let_def)
  have p: "parse_options (cx_kernel ?cx) [(CHR ''f'', [])] default_options start_ustate =
      Some (Ret (default_options\<lparr>op_foreground := True\<rparr>), start_ustate)"
    by (simp add: parse_option_def Let_def)
  have w: "lbcd_weight_init (cx_env ?cx) None None LBCD_TIMEOUT zero_globals = (0, test_globals)"
    using test_weight_init by (simp add: test_ctx_def)
  have g: "?cx\<lparr>cx_globals := test_globals\<rparr> = ?cx" by (simp add: test_ctx_def)
  have o: "op_helper default_options = None" "op_weight default_options = None" "op_timeout default_options = LBCD_TIMEOUT"
    "\<not> op_testmode default_options" "op_config default_options = test_config" "vec_inv (bindaddrs test_config)"
    by (simp_all add: default_options_def test_config_def vtab.tnew_inv)
  obtain s' where "handle_requests ?cx test_config answered start_ustate = Some (Ret (), s')" using h by blast
  then have "main ?cx None [(CHR ''f'', [])] [] answered start_ustate = Some ((0, []), s')"
    by (intro main_foreground[OF p, where g = test_globals]) (simp_all add: o w g test_config_inv)
  then show ?thesis by blast
qed

theorem program_answers_witness:
  "\<exists>s' gs outs. main (test_ctx (run_kernel test_query)) None [(CHR ''f'', [])] [] answered start_ustate = Some ((0, []), s') \<and>
    received_from s' = gs \<and> sent s' = concat outs \<and> list_all2 (due test_config) gs outs \<and> length (concat outs) \<le> length gs"
proof -
  obtain s' where r:
    "main (test_ctx (run_kernel test_query)) None [(CHR ''f'', [])] [] answered start_ustate = Some ((0, []), s')"
    using run_kernel_program by blast
  have "vec_items (allowed_services test_config) = requested_services [(CHR ''f'', [])]"
    using default_services by (simp add: test_config_def requested_services_def)
  from program_answers[OF r this] r show ?thesis by (simp add: start_ustate_def)
qed

text \<open>C3: A server that goes on for ever keeps to this too. In every state the main loop passes through, what was sent since it began is
  what is due for the datagrams received since, each on one of the bound sockets. So the server never sends
  more datagrams than it received and never speaks first.\<close>

theorem server_run_answers:
  fixes s :: "'z ustate_scheme"
  assumes "vec_inv (allowed_services config)" "(server_step cx config signaled fds)\<^sup>*\<^sup>* s s'"
  shows "main_loop cx config signaled fds s = main_loop cx config signaled fds s' \<and>
    (\<exists>gs outs. received_from s' = gs @ received_from s \<and> sent s' = concat outs @ sent s \<and>
      list_all2 (due config) gs outs \<and> (\<forall>g \<in> set gs. fst g \<in> set fds) \<and> length (concat outs) \<le> length gs)"
  using server_steps_loop[OF assms(2)] server_steps_exchanged[OF assms] due_length[of config]
  unfolding exchanged_def by blast

theorem server_run_answers_witness:
  "\<exists>s' gs outs. server_step (test_ctx (run_kernel test_query)) test_config answered [3] start_ustate s' \<and>
    sent s' \<noteq> [] \<and> received_from s' = gs \<and> sent s' = concat outs \<and> list_all2 (due test_config) gs outs \<and> set (map fst gs) \<subseteq> {3} \<and> length (concat outs) \<le> length gs"
proof -
  have e: "sent start_ustate = []" "received_from start_ustate = []" by (simp_all add: start_ustate_def)
  obtain s' where s': "server_step (test_ctx (run_kernel test_query)) test_config answered [3] start_ustate s'" "sent s' \<noteq> []"
    using run_kernel_step[OF e(1)] by blast
  from server_run_answers[OF test_config_inv r_into_rtranclp[of "server_step _ _ _ _", OF s'(1)]]
  obtain gs outs where "received_from s' = gs" "sent s' = concat outs" "list_all2 (due test_config) gs outs"
    "\<forall>g \<in> set gs. fst g \<in> set [3]" "length (concat outs) \<le> length gs"
    using e by auto
  then show ?thesis using s' by (intro exI[of _ s'] exI[of _ gs] exI[of _ outs]) auto
qed




section \<open>Weights\<close>



text \<open>C6: The load module computes 80 for each distinct user, 20 for each login and three times the load,
  multiplied by the factor for the fuller of the two temporary directories; \<open>/etc/nologin\<close> makes it the
  largest weight. The increment is 200, no array access is out of bounds and no sum overflows. A full
  directory counts 32 times; \<open>lbcd.pod\<close> says that it gives the largest weight, which the code reserves
  for more than 100 percent.\<close>

theorem load_weight_formula:
  "lbcd_load_weight k ev wi t p lb s =
     (let (nologin, s') = sys_access k ''/etc/nologin'' F_OK s;
          w = (if nologin then -1 else load_spec (byte_order (pf ev)) lb)
      in Some ((w, as_u32 w, 200), s'))"
  by (rule load_weight_ok)

text \<open>C21: The load module always returns: none of its sums and products leaves the range of \<open>int\<close> and no array is
  read out of bounds. The weight is at most 216003360 or -1, and the unsigned weight stored in the
  reply is the number computed, or all ones for -1.\<close>

theorem load_weight_fits:
  "\<exists>w s'. lbcd_load_weight k ev wi t p lb s = Some ((w, as_u32 w, 200), s') \<and> -1 \<le> w \<and> w \<le> 216003360 \<and>
    uint (as_u32 w) = (if w = -1 then 2 ^ 32 - 1 else w)"
proof -
  let ?w = "if fst (sys_access k ''/etc/nologin'' F_OK s) then -1 else load_spec (byte_order (pf ev)) lb"
  have b: "-1 \<le> ?w" "?w \<le> 216003360" using load_spec_bounds[of "byte_order (pf ev)" lb] by auto
  have "lbcd_load_weight k ev wi t p lb s = Some ((?w, as_u32 ?w, 200), snd (sys_access k ''/etc/nologin'' F_OK s))"
    by (simp add: load_weight_ok Let_def split_beta)
  then show ?thesis using b as_u32_load[OF b] by blast
qed

text \<open>More distinct users, more logins, more load or a fuller temporary directory never give a smaller
  load weight, as long as the percentages are percentages.\<close>

theorem load_weight_monotone:
  assumes "ntohs e (uniq_users a) \<le> ntohs e (uniq_users b)" "ntohs e (tot_users a) \<le> ntohs e (tot_users b)"
    and "ntohs e (l1 a) \<le> ntohs e (l1 b)" "tmp_used a \<le> tmp_used b" "tmp_used b \<le> 100"
  shows "load_spec e a \<le> load_spec e b"
  using assms by (rule load_spec_mono)

theorem load_weight_monotone_witness:
  "load_spec Big (zero_reply\<lparr>tmp_full_field := 90\<rparr>) \<le> load_spec Big (zero_reply\<lparr>tmp_full_field := 95, tot_users := 3\<rparr>)"
  by (rule load_weight_monotone) (simp_all add: zero_reply_def ntohs_def tmp_used_def)

text \<open>An argument \<open>weight:increment\<close> makes the server a round robin with exactly these numbers.\<close>

lemma weight_argument_fixed:
  assumes "w < 2 ^ 32" "i < 2 ^ 32"
  shows "let g = snd (lbcd_weight_init ev cmd (Some (weight_arg w i)) t zero_globals)
    in lbcd_default_functab g = Some (''rr'', W_rr) \<and> lbcd_service_name g = Some (show_nat w)
     \<and> (\<exists>r. lbcd_rr_weight g = (r, of_nat w, of_nat i))
     \<and> unat (of_nat w :: u32) = w \<and> unat (of_nat i :: u32) = i"
  using assms weight_init_fixed[of w i ev cmd t zero_globals]
  by (simp add: Let_def lbcd_rr_weight_def unat_of_nat_u32)

lemma weight_argument_fixed_witness:
  "let g = snd (lbcd_weight_init test_env None (Some (weight_arg 4294967295 7)) 5 zero_globals)
    in lbcd_default_functab g = Some (''rr'', W_rr) \<and> lbcd_service_name g = Some (show_nat 4294967295)
     \<and> (\<exists>r. lbcd_rr_weight g = (r, of_nat 4294967295, of_nat 7))
     \<and> unat (of_nat 4294967295 :: u32) = 4294967295 \<and> unat (of_nat 7 :: u32) = 7"
  by (rule weight_argument_fixed) simp_all

text \<open>The test for such an argument accepts exactly the strings of digits, one colon and digits.\<close>

theorem is_weights_shape:
  "is_weights (Some sv) \<longleftrightarrow>
    (\<exists>a b. sv = a @ CHR '':'' # b \<and> a \<noteq> [] \<and> b \<noteq> [] \<and> list_all c_isdigit a \<and> list_all c_isdigit b)"
  by (rule is_weights_ok)

text \<open>C22: For a service name with or without a port, the module is that of the table with exactly this name; when
  there is none the reply carries the largest weight and the increment 0. The lookup never ends the
  program.\<close>

theorem service_lookup:
  fixes s :: "'z sys_scheme"
  assumes "sv = n \<or> (\<exists>p. sv = n @ CHR '':'' # p)" "CHR '':'' \<notin> set n" "sv \<noteq> ''default''" "i < length (weights lb)"
  shows "case map_of (service_table ev) n of
      Some f \<Rightarrow> service_to_func ev g (Some sv) = Found (n, f)
    | None \<Rightarrow> service_to_func ev g (Some sv) = Found (''unknown'', W_unknown) \<and>
        lbcd_setweight k ev g lb i sv s =
          Some (lb\<lparr>weights := (weights lb)[i := \<lparr>host_weight = 0xffffffff, host_incr = 0\<rparr>]\<rparr>, s)"
proof (cases "map_of (service_table ev) n")
  case None
  then have f: "service_to_func ev g (Some sv) = Found (''unknown'', W_unknown)"
    using service_to_func_ok[OF assms(3), of ev g] service_module_name(1)[OF assms(1,2), of ev] by simp
  have "as_u32 (-1) = 0xffffffff" by (simp add: as_u32_def)
  then have "lbcd_setweight k ev g lb i sv s =
      Some (lb\<lparr>weights := (weights lb)[i := \<lparr>host_weight = 0xffffffff, host_incr = 0\<rparr>]\<rparr>, s)"
    using assms(3,4) by (simp add: lbcd_setweight_def f functab_of_def lbcd_unknown_weight_def Let_def)
  then show ?thesis using None f by simp
next
  case (Some f)
  then show ?thesis
    using service_to_func_ok[OF assms(3), of ev g] service_module_name[OF assms(1,2), of ev] by simp
qed

theorem service_lookup_witness:
  "service_to_func test_env zero_globals (Some ''http:8080'') = Found (''http'', W_http)
   \<and> lbcd_setweight interrupting_kernel test_env zero_globals (zero_reply\<lparr>weights := [\<lparr>host_weight = 9, host_incr = 9\<rparr>]\<rparr>) 0
       ''gopher'' start_state = Some (zero_reply\<lparr>weights := [\<lparr>host_weight = 0xffffffff, host_incr = 0\<rparr>]\<rparr>, start_state)"
  using service_lookup[of "''http:8080''" "''http''" 0 "zero_reply\<lparr>weights := [\<lparr>host_weight = 9, host_incr = 9\<rparr>]\<rparr>"
      test_env zero_globals interrupting_kernel start_state]
    service_lookup[of "''gopher''" "''gopher''" 0 "zero_reply\<lparr>weights := [\<lparr>host_weight = 9, host_incr = 9\<rparr>]\<rparr>"
      test_env zero_globals interrupting_kernel start_state]
  by (simp add: service_table_def test_env_def)

text \<open>C8: A slot filled by the probe of a standard service holds weight zero or the largest weight and the
  default increment; the probe closes every socket it opens and sends no datagram.\<close>

theorem probed_slot:
  fixes s :: "'z sys_scheme"
  assumes "functab_of (service_to_func ev g (Some sv)) = Some (n, f)" "i < length (weights lb)"
    and "f \<in> {W_ftp, W_smtp, W_nntp, W_pop, W_imap, W_http}"
  shows "\<exists>w s'. lbcd_setweight k ev g lb i sv s =
      Some (lb\<lparr>weights := (weights lb)[i := \<lparr>host_weight = w, host_incr = default_increment g\<rparr>]\<rparr>, s')
    \<and> (w = 0 \<or> w = 0xffffffff) \<and> fds_in s' = fds_in s \<and> sent s' = sent s"
  using assms(3) ftp.setweight_probe[of ev g sv n i lb k s] smtp.setweight_probe[of ev g sv n i lb k s]
    nntp.setweight_probe[of ev g sv n i lb k s] pop.setweight_probe[of ev g sv n i lb k s]
    imap.setweight_probe[of ev g sv n i lb k s] http.setweight_probe[of ev g sv n i lb k s] assms(1,2)
  by auto

theorem probed_slot_witness:
  "\<exists>w s'. lbcd_setweight interrupting_kernel test_env test_globals
      (zero_reply\<lparr>weights := [\<lparr>host_weight = 9, host_incr = 9\<rparr>]\<rparr>) 0 ''http:8080'' start_state =
      Some (zero_reply\<lparr>weights := [\<lparr>host_weight = w, host_incr = default_increment test_globals\<rparr>]\<rparr>, s')
    \<and> (w = 0 \<or> w = 0xffffffff) \<and> fds_in s' = fds_in start_state \<and> sent s' = sent start_state"
proof -
  have f: "functab_of (service_to_func test_env test_globals (Some ''http:8080'')) = Some (''http'', W_http)"
    by (simp add: functab_of_entry service_module_def service_table_def NAME_SIZE_def)
  show ?thesis
    using probed_slot[OF f, of 0 "zero_reply\<lparr>weights := [\<lparr>host_weight = 9, host_incr = 9\<rparr>]\<rparr>" interrupting_kernel start_state]
    by simp
qed

text \<open>C23: With \<open>tcp\<close> as the default service, which has no port, the weight of the reply is whatever the
  memory of the reply held before.\<close>

theorem tcp_default_unset:
  assumes "lbcd_default_functab g = Some (''tcp'', W_tcp)" "i < length (weights lb)"
  shows "lbcd_setweight k ev g lb i ''default'' s =
    Some (lb\<lparr>weights := (weights lb)[i := (weights lb ! i)\<lparr>host_incr := default_increment g\<rparr>]\<rparr>, s)"
  using assms by (rule tcp_default_stale)

theorem tcp_default_unset_witness:
  "lbcd_setweight interrupting_kernel test_env (snd (lbcd_weight_init test_env None (Some ''tcp:25'') 5 zero_globals))
     (zero_reply\<lparr>weights := [\<lparr>host_weight = 0xdead, host_incr = 9\<rparr>]\<rparr>) 0 ''default'' start_state =
   Some (zero_reply\<lparr>weights := [\<lparr>host_weight = 0xdead, host_incr = 1\<rparr>]\<rparr>, start_state)"
proof -
  let ?g = "snd (lbcd_weight_init test_env None (Some ''tcp:25'') 5 zero_globals)"
  have w: "\<not> is_weights (Some ''tcp:25'')" by (simp add: is_weights_def c_isdigit_def)
  then have "lbcd_default_functab ?g = Some (''tcp'', W_tcp)" "default_increment ?g = 1"
    by (simp_all add: lbcd_weight_init_def Let_def functab_of_entry service_module_def service_table_def NAME_SIZE_def)
  then show ?thesis
    using tcp_default_unset[of ?g 0 "zero_reply\<lparr>weights := [\<lparr>host_weight = 0xdead, host_incr = 9\<rparr>]\<rparr>"
        interrupting_kernel test_env start_state] by simp
qed

text \<open>The weight argument \<open>default\<close> without a command leaves the server without a default module, and
  computing the default weight is then undefined.\<close>

theorem default_undefined:
  "lbcd_setweight k ev (snd (lbcd_weight_init ev None (Some ''default'') t zero_globals)) lb i ''default'' s = None"
  using weight_init_default[of ev t] by (simp add: lbcd_setweight_def Let_def service_to_func_def functab_of_def)

text \<open>C24: The fields a client of version two computes with are replaced so that it sees the weight of the
  default service, cut to 16 bits, and no users.\<close>

theorem proto2_fields:
  "ntohs e (l1 (lbcd_proto2_convert e lb)) = of_nat (min (unat (ntohl e (host_weight (weights lb ! 0)))) 65535)
   \<and> l5 (lbcd_proto2_convert e lb) = l1 (lbcd_proto2_convert e lb) \<and> l15 (lbcd_proto2_convert e lb) = l1 (lbcd_proto2_convert e lb)
   \<and> tot_users (lbcd_proto2_convert e lb) = 0 \<and> uniq_users (lbcd_proto2_convert e lb) = 0
   \<and> weights (lbcd_proto2_convert e lb) = weights lb"
  using proto2_convert_ok[of e lb] by (simp add: lbcd_proto2_convert_def Let_def)


section \<open>The machine\<close>

text \<open>C25: When the login records have changed, the statistics are those of the records: the number of user
  processes, the number of distinct user names among them (as long as the hash table can hold them) and
  whether anybody is on the console; and they become the cached ones.\<close>

theorem user_stats_fresh:
  fixes s :: "'z ustate_scheme"
  assumes "sys_stat k UTMP_FILE s = (st, s1)" "mtime = (case st of Some (m, _) \<Rightarrow> m | None \<Rightarrow> 0)"
    and "mtime \<le> 0 \<or> mtime \<noteq> last_user_mtime (ucache s)"
    and "sys_stat k ''/dev/console'' s1 = (c1, s2)" "sys_stat k ''/dev/tty1'' s2 = (c2, s3)"
    and "sys_utmp k s3 = (uts, s4)"
    and "card (user_name ` {ut \<in> set uts. ut_user_process ut}) \<le> cap"
  shows "\<exists>s'. get_user_stats k cap s = Some (stats_of uts (owned_by_user c1 \<or> owned_by_user c2) mtime, s')
    \<and> trace s' = trace s4
    \<and> ucache s' = \<lparr>last_total = us_total (stats_of uts (owned_by_user c1 \<or> owned_by_user c2) mtime),
         last_uniq = us_uniq (stats_of uts (owned_by_user c1 \<or> owned_by_user c2) mtime),
         last_on_console = us_on_console (stats_of uts (owned_by_user c1 \<or> owned_by_user c2) mtime),
         last_user_mtime = mtime\<rparr>"
  by (rule get_user_stats_fresh[OF assms])

definition two_users :: "utmp_entry list" where
  "two_users =
     [\<lparr>ut_user_process = True, ut_line = ''pts/0'', ut_host = '':0'', ut_user = ''ann'' @ [NUL]\<rparr>,
      \<lparr>ut_user_process = True, ut_line = ''pts/1'', ut_host = [], ut_user = ''ann'' @ [NUL]\<rparr>,
      \<lparr>ut_user_process = False, ut_line = ''pts/2'', ut_host = [], ut_user = ''bob'' @ [NUL]\<rparr>]"

definition two_users_kernel :: kernel where
  "two_users_kernel h c = (case c of File CUtmp \<Rightarrow> RUsers two_users | _ \<Rightarrow> RErr EINVAL)"

lemma two_users_names: "user_name ` {ut \<in> set two_users. ut_user_process ut} = {c_str (''ann'' @ [NUL])}"
  unfolding set_filter[symmetric] by (simp add: two_users_def user_name_def)

theorem user_stats_fresh_witness:
  "\<exists>s'. get_user_stats two_users_kernel HASH_SIZE start_ustate =
     Some (\<lparr>us_total = 2, us_uniq = 1, us_on_console = 1, us_user_mtime = 0\<rparr>, s')"
proof -
  let ?k = two_users_kernel
  have st: "sys_stat ?k p s = (None, snd (sys_stat ?k p s))" for p and s :: ustate
    by (simp add: sys_stat_def two_users_kernel_def split_beta)
  have ut: "sys_utmp ?k s = (two_users, snd (sys_utmp ?k s))" for s :: ustate
    by (simp add: sys_utmp_def two_users_kernel_def split_beta)
  have "card (user_name ` {ut \<in> set two_users. ut_user_process ut}) \<le> HASH_SIZE"
    by (simp add: two_users_names HASH_SIZE_def)
  moreover have "stats_of two_users False 0 = \<lparr>us_total = 2, us_uniq = 1, us_on_console = 1, us_user_mtime = 0\<rparr>"
    by (simp add: stats_of_def two_users_names) (simp add: two_users_def on_console_entry_def)
  ultimately show ?thesis
    using user_stats_fresh[OF st refl _ st st ut, of start_ustate HASH_SIZE] by (auto simp: owned_by_user_def)
qed

text \<open>When they have not changed, the cached statistics are returned, and nothing but the modification
  time is looked at.\<close>

theorem user_stats_cached:
  fixes s :: "'z ustate_scheme"
  assumes "sys_stat k UTMP_FILE s = (Some (m, uid), s1)" "0 < m" "m = last_user_mtime (ucache s)"
  shows "get_user_stats k cap s = Some (\<lparr>us_total = last_total (ucache s), us_uniq = last_uniq (ucache s),
           us_on_console = last_on_console (ucache s), us_user_mtime = m\<rparr>, s1)"
  using assms by (rule get_user_stats_cached)

theorem user_stats_cached_witness:
  "get_user_stats (\<lambda>h c. RStat 17 0) HASH_SIZE (start_ustate\<lparr>ucache := \<lparr>last_total = 4, last_uniq = 3,
      last_on_console = 1, last_user_mtime = 17\<rparr>\<rparr>) =
   Some (\<lparr>us_total = 4, us_uniq = 3, us_on_console = 1, us_user_mtime = 17\<rparr>,
     snd (sys_stat (\<lambda>h c. RStat 17 0) UTMP_FILE (start_ustate\<lparr>ucache := \<lparr>last_total = 4, last_uniq = 3,
      last_on_console = 1, last_user_mtime = 17\<rparr>\<rparr>)))"
  by (subst user_stats_cached[where m = 17 and uid = 0
        and ?s1.0 = "snd (sys_stat (\<lambda>h c. RStat 17 0) UTMP_FILE (start_ustate\<lparr>ucache := \<lparr>last_total = 4, last_uniq = 3,
      last_on_console = 1, last_user_mtime = 17\<rparr>\<rparr>))"]) (simp_all add: sys_stat_def split_beta)

text \<open>The fullness of a file system is a percentage, whatever the floating-point unit computes.\<close>

lemma tmp_full_percentage:
  "0 \<le> fst (tmp_full k fpu path s) \<and> fst (tmp_full k fpu path s) \<le> 100"
  using tmp_full_bounds[of k fpu path s] by (cases "tmp_full k fpu path s") simp

text \<open>C20: The number of peers a time server reports is -1 or at most 409500, one hundred packets of 4095
  entries, so the sum does not overflow.\<close>

theorem monlist_range:
  "case monlist k ev sd timeout s of None \<Rightarrow> True | Some (r, s') \<Rightarrow> r = -1 \<or> 0 \<le> r \<and> r \<le> 409500"
  using monlist_bounds[of k ev sd timeout s] by (auto split: option.split)

section \<open>The network\<close>

text \<open>The main loop is given the first listening descriptor that is ready, in the order of the list.\<close>

theorem wait_any_first:
  "fst (network_wait_any k fds s) =
     (case k (trace s) (Io (CSelectRead (max_fd fds + 1) fds None)) of
        RFds ready \<Rightarrow> (case find (\<lambda>fd. fd \<in> set ready) fds of Some fd \<Rightarrow> fd | None \<Rightarrow> INVALID_SOCKET)
      | _ \<Rightarrow> INVALID_SOCKET)"
  by (rule network_wait_any_ok)

text \<open>C13: Connecting leaves exactly the descriptor it returns open, and none when it fails, however many
  addresses were tried and whatever the kernel answered.\<close>

theorem connect_no_leak:
  assumes "network_connect k p ai source timeout s = Some (fd, s')"
  shows "fds_in s' = (if fd = INVALID_SOCKET then fds_in s else add_mset fd (fds_in s))"
  using assms by (rule network_connect_fds)

theorem connect_no_leak_witness:
  "fds_in (snd (the (network_connect interrupting_kernel test_platform
      [\<lparr>ai_family = AF_INET, ai_socktype = SOCK_STREAM, ai_protocol = 6, ai_addr = SIn 1 2\<rparr>] None 0 start_state))) = {#}"
proof -
  let ?c = "network_connect interrupting_kernel test_platform
      [\<lparr>ai_family = AF_INET, ai_socktype = SOCK_STREAM, ai_protocol = 6, ai_addr = SIn 1 2\<rparr>] None 0 start_state"
  have c: "?c = Some (INVALID_SOCKET, snd (the ?c))"
    by (simp add: network_connect_def Let_def split_beta sys_defs interrupting_kernel_def num_of_def INVALID_SOCKET_def
        perform_def)
  show ?thesis using connect_no_leak[OF c] by (simp add: start_state_def)
qed

text \<open>C27: Without a timeout connecting always returns, and what it returns is the descriptor of the last
  call, a successful \<open>connect\<close> to one of the listed addresses.\<close>

theorem connect_returns:
  "\<exists>fd s'. network_connect k p ais source 0 s = Some (fd, s')
     \<and> (fd = INVALID_SOCKET \<or> (\<exists>ai \<in> set ais. \<exists>h. trace s' = (Sock (CConnect fd (ai_addr ai)), ROk) # h))"
proof -
  obtain fd s' where c: "network_connect k p ais source 0 s = Some (fd, s')"
    using network_connect_returns[of k p ais source s] by (metis surj_pair)
  show ?thesis using network_connect_last[OF c] c by blast
qed

text \<open>Binding to an address that is not a valid IPv4 address fails, but the socket stays open.\<close>

theorem bind_ipv4_leaks:
  assumes "aton p address = None" "address \<noteq> ''any''" "address \<noteq> ''all''"
    and "sys_socket k AF_INET ty 0 s = (fd1, s1)" "fd1 \<noteq> INVALID_SOCKET"
  shows "fst (network_bind_ipv4 k p ty address prt s) = INVALID_SOCKET
    \<and> fds_in (snd (network_bind_ipv4 k p ty address prt s)) = add_mset fd1 (fds_in s)"
  using network_bind_ipv4_leak[of k p ty address prt s _ _ fd1 s1] assms
  by (cases "network_bind_ipv4 k p ty address prt s") auto

theorem bind_ipv4_leaks_witness:
  "fds_in (snd (network_bind_ipv4 (\<lambda>h c. RNum 3) test_platform SOCK_DGRAM ''1.2.3.'' 4330 start_state)) = {#3#}"
proof -
  have a: "aton test_platform ''1.2.3.'' = None"
    by (simp add: aton_def test_platform_def inet_aton_def digit_values aton_base_def)
  have sk: "sys_socket (\<lambda>h c. RNum 3) AF_INET SOCK_DGRAM 0 start_state =
      (3, snd (sys_socket (\<lambda>h c. RNum 3) AF_INET SOCK_DGRAM 0 start_state))"
    by (simp add: sys_defs split_beta num_of_def)
  show ?thesis using bind_ipv4_leaks[OF a _ _ sk] by (simp add: INVALID_SOCKET_def start_state_def)
qed


section \<open>Input and output\<close>

text \<open>\<open>xwrite\<close> hands the descriptor a prefix of the buffer, in order and nothing twice, and returns the
  length of the buffer exactly when it was all of it. It gives up after a bounded number of calls.\<close>

theorem xwrite_prefix:
  "case xwrite k fd buffer s of (r, s') \<Rightarrow>
     (\<exists>n \<le> length buffer. accepted fd (trace s') = accepted fd (trace s) @ take n buffer
        \<and> r = (if n = length buffer then int n else -1))
     \<and> length (trace s') \<le> length (trace s) + 10 * length buffer"
  using xwrite_ok[of k fd buffer s] xwrite_calls[of k fd buffer s] by (cases "xwrite k fd buffer s") auto

text \<open>\<open>xpwrite\<close> changes the file at the given offset, to a prefix of the buffer, and nowhere else.\<close>

theorem xpwrite_image:
  "case xpwrite k fd buffer offset s of (r, s') \<Rightarrow>
     \<exists>n \<le> length buffer. r = (if n = length buffer then int n else -1)
       \<and> file_image fd (trace s') = (\<lambda>pos. if offset \<le> pos \<and> pos < offset + n then Some (buffer ! (pos - offset))
                                           else file_image fd (trace s) pos)"
  using xpwrite_ok[of k fd buffer offset s] by (cases "xpwrite k fd buffer offset s") auto

text \<open>C28: \<open>xwritev\<close> hands the descriptor a prefix of the concatenated buffers, in order and nothing twice,
  and returns their total length only if it was all of it.\<close>

theorem xwritev_prefix:
  assumes "length iov \<le> SIZE_MAX div IOVEC_SIZE"
  shows "case xwritev k alloc_ok fd iov (int (length iov)) s of (r, s') \<Rightarrow>
    \<exists>n \<le> length (concat iov). accepted fd (trace s') = accepted fd (trace s) @ take n (concat iov)
      \<and> r \<in> {-1, int (length (concat iov))} \<and> (r \<noteq> -1 \<longrightarrow> n = length (concat iov))"
  using xwritev_ok[OF _ assms, of k alloc_ok fd s] by (cases "xwritev k alloc_ok fd iov (int (length iov)) s") blast

theorem xwritev_prefix_witness:
  "case xwritev (\<lambda>h c. RNum 2) True 1 [''ab'', '''', ''c''] 3 start_state of (r, s') \<Rightarrow>
    \<exists>n \<le> 3. accepted 1 (trace s') = take n ''abc'' \<and> r \<in> {-1, 3} \<and> (r \<noteq> -1 \<longrightarrow> n = 3)"
proof -
  have l: "length [''ab'', '''', ''c''] \<le> SIZE_MAX div IOVEC_SIZE" by (simp add: SIZE_MAX_def IOVEC_SIZE_def)
  have n: "int (length [''ab'', '''', ''c'']) = 3" "concat [''ab'', '''', ''c''] = ''abc''" "length ''abc'' = 3" by simp_all
  have t: "accepted 1 (trace start_state) = []" by (simp add: start_state_def)
  show ?thesis using xwritev_prefix[OF l, where k = "\<lambda>h c. RNum 2" and alloc_ok = True and fd = 1 and s = start_state] unfolding n t append_Nil by simp
qed

text \<open>C14: Whenever \<open>network_read\<close> returns, however many of its calls were interrupted or gave only a part, what it
  got is what arrived, in order, never more than was asked for, and success means all of it. It always
  returns without a time limit; with one it can go on forever only if calls are interrupted.\<close>

theorem network_read_whole:
  fixes s :: "'z sys_scheme"
  shows "case network_read k fd tot timeout s of
      None \<Rightarrow> timeout \<noteq> 0 \<and> (err s = EINTR \<or> (\<exists>h c. k h c = RErr EINTR))
    | Some ((ok, got), s') \<Rightarrow>
        received fd (trace s') = received fd (trace s) @ got \<and> length got \<le> tot \<and> (ok \<longrightarrow> length got = tot)"
proof (cases "network_read k fd tot timeout s")
  case None
  have t: "timeout \<noteq> 0" using None by (auto simp: network_read_def split_beta Let_def split: if_splits)
  have "err s = EINTR \<or> (\<exists>h c. k h c = RErr EINTR)"
  proof (rule ccontr)
    assume n: "\<not> (err s = EINTR \<or> (\<exists>h c. k h c = RErr EINTR))"
    then have "err (snd (sys_time k s)) \<noteq> EINTR"
      by (auto simp: sys_time_def perform_def Let_def split: ret.splits)
    then have "\<exists>rs. read_timed k fd tot timeout (fst (sys_time k s)) (fst (sys_time k s)) [] (snd (sys_time k s)) = Some rs"
      using n by (intro read_timed_returns) auto
    then show False using None t by (simp add: network_read_def split_beta)
  qed
  then show ?thesis using None t by simp
next
  case (Some r)
  then show ?thesis using network_read_ok[of k fd tot timeout s] by (cases r) auto
qed

text \<open>A descriptor that gives three bytes at a time, after a call that is interrupted.\<close>

definition reading_kernel :: kernel where
  "reading_kernel h c =
     (if length h = 4 then RErr EINTR
      else case c of Io (CSelectRead n fds tv) \<Rightarrow> RFds fds | Io (CRead fd n) \<Rightarrow> RData ''abc'' | _ \<Rightarrow> RNum 5)"

theorem network_read_whole_witness:
  "\<exists>s'. network_read reading_kernel 4 6 60 start_state = Some ((True, ''abcabc''), s') \<and>
    received 4 (trace s') = ''abcabc''"
proof -
  have "\<exists>s'. network_read reading_kernel 4 6 60 start_state = Some ((True, ''abcabc''), s')"
    unfolding network_read_def
    by (simp add: read_timed.simps sys_defs perform_def reading_kernel_def start_state_def Let_def read_of_def ready_of_def)
  then show ?thesis using network_read_whole[where k = reading_kernel and fd = 4 and tot = 6 and timeout = 60 and s = start_state] by (auto simp: start_state_def)
qed

text \<open>The timeout of \<open>network_read\<close> does not limit the waiting when calls are interrupted: the clock is
  only read after data has arrived, so a process that keeps being interrupted never returns.\<close>

theorem network_read_interrupted:
  assumes "\<And>h io. k h (Io io) = RErr EINTR" "timeout > 0"
  shows "network_read k fd tot timeout s = None"
proof -
  have "read_timed k fd tot timeout t t [] s' = None" for t s'
  proof (rule ccontr)
    assume "read_timed k fd tot timeout t t [] s' \<noteq> None"
    then obtain rs where "read_timed k fd tot timeout t t [] s' = Some rs" by blast
    moreover have "read_timed k fd tot timeout t t [] s' \<noteq> Some rs"
      by (rule read_timed_interrupted) (use assms in auto)
    ultimately show False by blast
  qed
  then show ?thesis using assms(2) by (simp add: network_read_def split_beta)
qed

theorem network_read_interrupted_witness: "network_read interrupting_kernel 4 9 60 start_state = None"
  by (rule network_read_interrupted) (simp_all add: interrupting_kernel_def)

text \<open>C29: Writing to a socket with a timeout hands it a prefix of the buffer, in order and nothing twice, and
  reports success only when it was all of it.\<close>

theorem network_write_prefix:
  "case network_write k fd buffer timeout s of None \<Rightarrow> timeout \<noteq> 0
   | Some (ok, s') \<Rightarrow> \<exists>n \<le> length buffer. accepted fd (trace s') = accepted fd (trace s) @ take n buffer
       \<and> (ok \<longrightarrow> n = length buffer)"
proof (cases "network_write k fd buffer timeout s")
  case None
  then show ?thesis by (auto simp: network_write_def split_beta)
next
  case (Some p)
  then show ?thesis using network_write_ok[of k fd buffer timeout s "fst p" "snd p"] by (cases p) auto
qed

theorem network_write_prefix_witness:
  "case network_write (\<lambda>h c. RNum 9) 4 ''ab'' 0 start_state of None \<Rightarrow> False
   | Some (ok, s') \<Rightarrow> accepted 4 (trace s') = ''ab'' \<and> ok"
proof -
  obtain s' where w: "network_write (\<lambda>h c. RNum 9) 4 ''ab'' 0 start_state = Some (True, s')"
    by (simp add: network_write_def xwrite_def xwrite_loop.simps write_attempt_def sys_defs perform_def written_of_def Let_def)
  then show ?thesis
    using network_write_prefix[where k = "\<lambda>h c. RNum 9" and fd = 4 and buffer = "''ab''" and timeout = 0 and s = start_state]
    by (auto simp: start_state_def)
qed

text \<open>Setting or clearing close-on-exec changes this bit of the descriptor's flags and no other.\<close>

theorem close_exec_bit:
  "case fdflag_close_exec k fd flag s of (ok, s') \<Rightarrow> ok \<longrightarrow>
    (\<exists>old (new :: u32). trace s' = (Sock (CSetFlags True fd (unat new)), ROk) # (Sock (CGetFlags True fd), RNum old) # trace s
      \<and> (\<forall>i. i < 32 \<longrightarrow> bit new i = (if i = 0 then flag else bit (word_of_int old :: u32) i)))"
proof -
  obtain ok s' where e: "fdflag_close_exec k fd flag s = (ok, s')" by fastforce
  show ?thesis using fdflag_close_exec_ok[of k fd flag s s'] e by (cases ok) auto
qed

theorem close_exec_bit_witness:
  "case fdflag_close_exec (\<lambda>h c. if c = Sock (CGetFlags True 3) then RNum 0 else ROk) 3 True start_state of (ok, s') \<Rightarrow>
    ok \<and> (\<exists>old (new :: u32). trace s' = [(Sock (CSetFlags True 3 (unat new)), ROk), (Sock (CGetFlags True 3), RNum old)]
      \<and> bit new 0)"
proof -
  let ?k = "\<lambda>h c. if c = Sock (CGetFlags True 3) then RNum 0 else ROk"
  obtain s' where e: "fdflag_close_exec ?k 3 True start_state = (True, s')"
    by (simp add: fdflag_close_exec_def sys_getflags_def sys_setflags_def split_beta Let_def num_of_def status_of_def)
  obtain old and new :: u32 where "trace s' = [(Sock (CSetFlags True 3 (unat new)), ROk), (Sock (CGetFlags True 3), RNum old)]"
    "\<forall>i. i < 32 \<longrightarrow> bit new i = (if i = 0 then True else bit (word_of_int old :: u32) i)"
    using close_exec_bit[where k = ?k and fd = 3 and flag = True and s = start_state] unfolding e by (auto simp: start_state_def)
  then show ?thesis unfolding e by auto
qed

section \<open>Addresses\<close>

text \<open>C12: The bundled \<open>inet_aton\<close>, with an \<open>unsigned long\<close> of any width above 32, accepts one to four numbers
  separated by periods, decimal, octal after \<open>0\<close> or hexadecimal after \<open>0x\<close>, all but the last below 256 and
  the last one filling the bytes that are left, and returns that address in network byte order. It is
  not quite the notation of C: a lone \<open>0x\<close> is 0 in the last part and refused in the others, and \<open>0X\<close>
  is refused.\<close>

theorem inet_aton_spec:
  assumes "32 < LENGTH('l::len)"
  shows "map_option (\<lambda>a. unat (ntohl e a)) (inet_aton TYPE('l) e (Some s)) = aton_spec s"
  using assms by (rule inet_aton_ok)

text \<open>Among the inputs: three notations of one address, and those in which the code departs from C.\<close>

theorem inet_aton_spec_witness:
  "map_option (\<lambda>a. unat (ntohl Little a)) (inet_aton TYPE(64) Little (Some ''0x7f.1'')) = Some 2130706433
   \<and> map_option (\<lambda>a. unat (ntohl Little a)) (inet_aton TYPE(33) Little (Some ''0177.0.0.1'')) = Some 2130706433
   \<and> map_option (\<lambda>a. unat (ntohl Little a)) (inet_aton TYPE(64) Little (Some ''1.0x'')) = Some 16777216
   \<and> map_option (\<lambda>a. unat (ntohl Little a)) (inet_aton TYPE(64) Little (Some ''0x.1'')) = None
   \<and> map_option (\<lambda>a. unat (ntohl Little a)) (inet_aton TYPE(64) Little (Some ''0X7f.1'')) = None"
proof -
  have d: "aton_digit CHR ''0'' = Some 0" "aton_digit CHR ''1'' = Some 1" "aton_digit CHR ''7'' = Some 7"
    "aton_digit CHR ''f'' = Some 15" "aton_digit CHR ''X'' = None"
    by code_simp+
  have v: "aton_spec ''0x7f.1'' = Some 2130706433" "aton_spec ''0177.0.0.1'' = Some 2130706433"
    "aton_spec ''1.0x'' = Some 16777216" "aton_spec ''0x.1'' = None" "aton_spec ''0X7f.1'' = None"
    by (simp_all add: aton_spec_def segments.simps Let_def part_val_def aton_base_def d)
  have l: "32 < LENGTH(64)" "32 < LENGTH(33)" by simp_all
  show ?thesis unfolding inet_aton_spec[OF l(1)] inet_aton_spec[OF l(2)] v by blast
qed

text \<open>What \<open>inet_ntoa\<close> prints fits in its buffer of 16 bytes, and \<open>inet_aton\<close> reads it back.\<close>

lemma inet_ntoa_roundtrip:
  "length (inet_ntoa e a) < 16 \<and> inet_aton TYPE(64) e (Some (inet_ntoa e a)) = Some a"
  using ntoa_length[of e a] aton_ntoa[of e a] by (simp add: INET_ADDRSTRLEN_def)

text \<open>C30: Two IPv4 addresses match under a prefix length exactly when the leading bits agree.\<close>

theorem addr_match_v4:
  assumes "aton p a = Some x" "aton p b = Some y" "a \<noteq> []" "b \<noteq> []" "n \<le> 32"
  shows "network_addr_match p a b (Some (show_nat n)) \<longleftrightarrow>
    drop_bit (32 - n) (ntohl (byte_order p) x) = drop_bit (32 - n) (ntohl (byte_order p) y)"
  using assms by (rule addr_match4_ok)

lemma aton_show: "aton p (inet_ntoa (byte_order p) (htonl (byte_order p) w)) = Some (htonl (byte_order p) w)"
proof -
  let ?e = "byte_order p"
  have "map_option (\<lambda>a. unat (ntohl ?e a)) (aton p (inet_ntoa ?e (htonl ?e w))) = Some (unat w)"
    using inet_aton_ok[where 'l = 64, of ?e "inet_ntoa ?e (htonl ?e w)"] aton_spec_ntoa[of ?e w] by (simp add: aton_def)
  then obtain c where c: "aton p (inet_ntoa ?e (htonl ?e w)) = Some c" "unat (ntohl ?e c) = unat w" by auto
  then have "ntohl ?e c = w" by (simp only: word_unat_eq_iff)
  then show ?thesis using c(1) htonl_ntohl by metis
qed

lemma ntoa_nonempty: "inet_ntoa e a \<noteq> []"
  by (simp add: inet_ntoa_def Let_def)

theorem addr_match_v4_witness:
  "network_addr_match (test_platform\<lparr>byte_order := Big\<rparr>) (inet_ntoa Big 0x0a010203) (inet_ntoa Big 0x0a01ff00) (Some (show_nat 16))"
proof -
  have e: "byte_order (test_platform\<lparr>byte_order := Big\<rparr>) = Big" by simp
  show ?thesis
    using addr_match_v4[OF aton_show aton_show, of "test_platform\<lparr>byte_order := Big\<rparr>" "0x0a010203" "0x0a01ff00" 16] ntoa_nonempty
    by (simp add: e ntohl_def drop_bit_eq_div)
qed

text \<open>C31: Two IPv6 addresses match under a prefix length exactly when their leading bits agree, whatever
  \<open>inet_pton\<close> makes of the strings.\<close>

theorem addr_match_v6:
  assumes "aton p a = None \<or> aton p b = None" "have_inet6 p" "a \<noteq> []" "b \<noteq> []"
    and "inet_pton6 p a = Some x" "inet_pton6 p b = Some y" "length x = length y" "n \<le> 128"
  shows "network_addr_match p a b (Some (show_nat n)) \<longleftrightarrow> take n (addr_bits x) = take n (addr_bits y)"
  using assms by (rule addr_match6_ok)

theorem addr_match_v6_witness:
  "\<not> network_addr_match (test_platform\<lparr>inet_pton6 := (\<lambda>t. Some (take 1 t @ replicate 15 NUL))\<rparr>) ''a::'' ''b::'' (Some (show_nat 8))"
proof -
  let ?p = "test_platform\<lparr>inet_pton6 := (\<lambda>t. Some (take 1 t @ replicate 15 NUL))\<rparr>"
  have "aton ?p ''a::'' = None" by (simp add: aton_def test_platform_def inet_aton_def digit_values aton_base_def)
  then show ?thesis
    using addr_match_v6[of ?p "''a::''" "''b::''" "''a'' @ replicate 15 NUL" "''b'' @ replicate 15 NUL" 8]
    by (simp add: test_platform_def addr_bits_def byte_bits_eq)
qed

text \<open>Addresses compare as equal exactly when they name the same host, an IPv4 address written as an IPv6
  one being the same host; ports do not count, and other families are never equal.\<close>

theorem sockaddr_equal_hosts:
  assumes "sockaddr_wf a" "sockaddr_wf b"
  shows "network_sockaddr_equal p a b \<longleftrightarrow> who_of p a \<noteq> None \<and> who_of p a = who_of p b"
  using assms by (rule network_sockaddr_equal_ok)

theorem sockaddr_equal_hosts_witness:
  "network_sockaddr_equal (test_platform\<lparr>byte_order := Big\<rparr>) (SIn (de32 [CHR 0x7F, NUL, NUL, CHR 0x01]) 80)
     (SIn6 (V4MAPPED @ [CHR 0x7F, NUL, NUL, CHR 0x01]) 443)"
proof -
  have l: "length V4MAPPED = 12" by (simp add: V4MAPPED_def)
  have m: "is_v4mapped (V4MAPPED @ [CHR 0x7F, NUL, NUL, CHR 0x01])" by (simp add: is_v4mapped_def l)
  show ?thesis
    using sockaddr_equal_hosts[of "SIn (de32 [CHR 0x7F, NUL, NUL, CHR 0x01]) 80" "SIn6 (V4MAPPED @ [CHR 0x7F, NUL, NUL, CHR 0x01]) 443"
        "test_platform\<lparr>byte_order := Big\<rparr>"]
    by (simp add: m l test_platform_def)
qed


section \<open>Vectors and strings\<close>

text \<open>C10: Adding to a vector keeps its invariant and appends a copy of the string, growing the table when it is
  full; resizing keeps the first strings; freeing leaves no string behind.\<close>

theorem vector_operations:
  assumes "vec_inv v"
  shows "(\<exists>v'. vector_add v s = Some v' \<and> vec_inv v' \<and> vec_items v' = vec_items v @ [c_str s])
    \<and> (\<exists>v'. vector_resize v n = Some v' \<and> vec_inv v' \<and> vec_items v' = take n (vec_items v) \<and> v_allocated v' = max 1 n)
    \<and> vector_free (Some v) = Some []"
  using vector_add_ok[OF assms, of s] vector_resize_ok[OF assms, of n] vector_free_no_leak[OF assms] by simp

theorem vector_operations_witness:
  "(\<exists>v'. vector_add vector_new ''ftp'' = Some v' \<and> vec_inv v' \<and> vec_items v' = [''ftp''])
    \<and> (\<exists>v'. vector_resize vector_new 7 = Some v' \<and> vec_inv v' \<and> vec_items v' = [] \<and> v_allocated v' = 7)
    \<and> vector_free (Some vector_new) = Some []"
  using vector_operations[OF vtab.tnew_inv, of "''ftp''" 7] by (simp add: vtab.tnew_items c_str_def)

text \<open>C19: Splitting at a separator and joining with it again gives the string back; the vector holds the
  segments, none of which contains the separator, and the join writes within the memory it allocates.\<close>

theorem split_join_roundtrip:
  assumes "no_nul s" "sep \<noteq> NUL" "length s + 2 < SIZE_MAX" "\<And>n. length (xmalloc n) = n"
  shows "\<exists>v. vector_split s sep None = Some v \<and> vec_inv v \<and> vec_items v = segments sep s
    \<and> (\<forall>x \<in> set (vec_items v). sep \<notin> set x) \<and> vector_join xmalloc v [sep] = Some (s @ [NUL])"
proof -
  obtain v where v: "vector_split s sep None = Some v" "vec_inv v" "vec_items v = segments sep s"
    using vector_split_ok[of None s sep] by auto
  have "vector_join xmalloc v [sep] = Some (join_with [sep] (vec_items v) @ [NUL])"
  proof (rule vector_join_ok)
    show "\<forall>x \<in> set (vec_items v). no_nul x" using segments_no_nul[OF assms(1)] v(3) by simp
    show "no_nul [sep]" using assms(2) by (simp add: no_nul_def)
    show "length (join_with [sep] (vec_items v)) + length [sep] + 1 < SIZE_MAX"
      using assms(3) v(3) by (simp add: join_segments)
  qed (use assms v in auto)
  then show ?thesis using v segments_no_sep[of sep s] by (auto simp: join_segments)
qed

theorem split_join_roundtrip_witness:
  "\<exists>v. vector_split ''a,,b'' (CHR '','') None = Some v \<and> vec_inv v \<and> vec_items v = [''a'', '''', ''b'']
    \<and> (\<forall>x \<in> set (vec_items v). CHR '','' \<notin> set x)
    \<and> vector_join (\<lambda>n. replicate n NUL) v [CHR '',''] = Some (''a,,b'' @ [NUL])"
  using split_join_roundtrip[of "''a,,b''" "CHR '',''" "\<lambda>n. replicate n NUL"]
  by (simp add: no_nul_def SIZE_MAX_def)

text \<open>Splitting at a set of separators gives the maximal runs of other characters: no piece is empty or
  contains a separator, and together they are the string without its separators.\<close>

lemma split_multi_tokens:
  "\<exists>v. vector_split_multi s seps None = Some v \<and> vec_inv v \<and> vec_items v = tokens seps s
    \<and> (\<forall>x \<in> set (vec_items v). x \<noteq> [] \<and> set x \<inter> set seps = {})
    \<and> concat (vec_items v) = filter (\<lambda>c. c \<notin> set seps) s"
  using vector_split_multi_ok[of None s seps] tokens_nonempty[of _ seps s] concat_tokens[of seps s] by auto

lemma split_multi_tokens_witness:
  "\<exists>v. vector_split_multi '' a  b'' '' '' None = Some v \<and> vec_items v = [''a'', ''b'']"
  using split_multi_tokens[of "'' a  b''" "'' ''"] by auto

text \<open>C32: The splitting in place cuts the string with nuls so that the pointers of the vector lead to the same
  pieces as the copying one makes, and it writes only inside the string.\<close>

theorem cvector_split_in_place:
  assumes "no_nul s"
  shows "(\<exists>buf v. cvector_split s sep None = Some (buf, v) \<and> cvec_inv v \<and> length buf = Suc (length s)
      \<and> map (deref_at buf) (vec_items v) = segments sep s)
    \<and> (\<exists>buf v. cvector_split_multi s seps None = Some (buf, v) \<and> cvec_inv v \<and> length buf = Suc (length s)
      \<and> map (deref_at buf) (vec_items v) = tokens seps s)"
  using cvector_split_ok[of None s sep] cvector_split_multi_ok[of None s seps] assms by simp

theorem cvector_split_in_place_witness:
  "\<exists>buf v. cvector_split_multi ''a  b'' '' '' None = Some (buf, v) \<and> cvec_inv v \<and> length buf = 5
      \<and> map (deref_at buf) (vec_items v) = [''a'', ''b'']"
  using cvector_split_in_place[of "''a  b''" "CHR '',''" "'' ''"] by (simp add: no_nul_def numeral_eq_Suc)

text \<open>\<open>vector_exec\<close> passes exactly the strings of the vector, ended by a null pointer, and leaves them in
  the vector.\<close>

theorem vector_exec_arguments:
  assumes "vec_inv v"
  shows "\<exists>v'. vector_exec execv path v = Some (execv path (vec_items v), v') \<and> vec_inv v' \<and> vec_items v' = vec_items v"
  using assms by (rule vector_exec_ok)

theorem vector_exec_arguments_witness:
  "\<exists>v'. vector_exec (\<lambda>p args. int (length args)) ''/bin/true'' vector_new = Some (0, v') \<and> vec_inv v' \<and> vec_items v' = []"
  using vector_exec_arguments[OF vtab.tnew_inv, of "\<lambda>p args. int (length args)" "''/bin/true''"] by (simp add: vtab.tnew_items)

text \<open>C33: \<open>strlcpy\<close> and \<open>strlcat\<close> write nothing behind the size they are given: the bytes of the buffer before the
  new string, in it and behind its nul are known, for every size up to that of the buffer. The result
  ends with a nul when there is room for one, and the number returned is the length it would have
  needed. (When the string takes all of the size already, the code leaves it as it is and returns its
  own length and that of the source.)\<close>

theorem strl_bounded:
  assumes "no_nul s" "dst = s @ NUL # r" "sz \<le> length dst"
  shows "strlcpy dst src sz =
      Some (if sz = 0 then dst else take (sz - 1) src @ NUL # drop (min (length src) (sz - 1) + 1) dst, length src)
    \<and> strlcat dst src sz =
      Some (if sz \<le> length s then dst
            else s @ take (sz - 1 - length s) src @ NUL # drop (min (length src) (sz - 1 - length s)) r,
            length s + length src)"
  using strlcpy_any[OF assms(3), of src] strlcat_any[OF assms(2,1,3), of src] by simp

theorem strl_bounded_witness:
  "strlcpy (''ab'' @ NUL # ''xyz'') ''long name'' 5 = Some (''long'' @ NUL # ''z'', 9)
   \<and> strlcat (''ab'' @ NUL # ''xyz'') ''long name'' 5 = Some (''ablo'' @ NUL # ''z'', 11)"
proof -
  have "no_nul ''ab''" by (simp add: no_nul_def)
  then show ?thesis using strl_bounded[of "''ab''" "''ab'' @ NUL # ''xyz''" "''xyz''" 5 "''long name''"] by simp
qed

text \<open>\<open>reallocarray\<close> asks for exactly the product of its arguments, never for a product that has wrapped
  around, and refuses only if one more element would not fit.\<close>

theorem reallocarray_no_overflow:
  "case reallocarray nmemb sz of None \<Rightarrow> nmemb * (sz + 1) > SIZE_MAX | Some n \<Rightarrow> n = nmemb * sz \<and> n \<le> SIZE_MAX"
proof (cases "reallocarray nmemb sz")
  case None
  then have n: "nmemb > 0" "SIZE_MAX div nmemb \<le> sz" by (auto simp: reallocarray_def split: if_splits)
  then have "SIZE_MAX div nmemb < sz + 1" by simp
  then have "SIZE_MAX < (sz + 1) * nmemb" using n(1) by (simp only: div_less_iff_less_mult)
  then show ?thesis using None by (simp add: mult.commute)
next
  case (Some n)
  then show ?thesis using reallocarray_exact[OF Some] by simp
qed


end
